(* ===== verification/Netdev_Prelude.thy ===== *)
theory Netdev_Prelude
  imports Main "HOL-Library.Word"
begin

text \<open>
  Shared ground of the development: the names of the machine types, the faults a C function
  can run into, the result monad in which every operation is written, the read/write
  semaphores of the kernel, and the collections that carry the proofs.

  A C function that touches shared state is a \<open>('s, 'a) prog\<close>: it maps a state to either
  a fault or the returned value with the next state.  A fault is not an error return (those are
  ordinary values); it is a point from which the C program does not continue in any
  defined way, or does not continue at all.
\<close>

section \<open>Machine types\<close>

type_synonym byte = "8 word"
type_synonym i32 = "32 word"   \<comment> \<open>int, unsigned int, pid\<close>
type_synonym i64 = "64 word"   \<comment> \<open>long, loff_t, ssize_t, size_t, pointers in messages\<close>
type_synonym i16 = "16 word"   \<comment> \<open>__u16 fields of a netlink header\<close>
type_synonym addr = nat        \<comment> \<open>addresses of heap objects, 0 is NULL\<close>

abbreviation (input) NULL :: addr where "NULL \<equiv> 0"

section \<open>Proof collections\<close>

text \<open>
  \<open>kexec\<close> holds the defining equations of the primitives: simplifying with it runs a
  program symbolically.  \<open>kframe\<close> holds facts that say what an operation leaves alone.
\<close>

named_theorems kexec
named_theorems kframe

section \<open>Faults and the result monad\<close>

datatype fault =
    NullDeref      \<comment> \<open>access through a NULL pointer\<close>
  | BadPointer     \<comment> \<open>access through an error pointer\<close>
  | UseAfterFree   \<comment> \<open>access to, or release of, an object that is not live\<close>
  | OutOfBounds    \<comment> \<open>a read past the end of an array whose value the code goes on to use\<close>
  | Blocked        \<comment> \<open>the thread waits for a lock that is already held\<close>
  | BadUnlock      \<comment> \<open>release of a lock in a mode in which it is not held\<close>
  | Diverges       \<comment> \<open>a loop that does not end\<close>
  | Undefined      \<comment> \<open>an operation whose effect the C standard leaves undefined\<close>

type_synonym ('s, 'a) prog = "'s \<Rightarrow> fault + 'a \<times> 's"

definition returnK :: "'a \<Rightarrow> ('s, 'a) prog" where
  [kexec]: "returnK x = (\<lambda>s. Inr (x, s))"

definition failK :: "fault \<Rightarrow> ('s, 'a) prog" where
  [kexec]: "failK e = (\<lambda>s. Inl e)"

definition bindK :: "('s, 'a) prog \<Rightarrow> ('a \<Rightarrow> ('s, 'b) prog) \<Rightarrow> ('s, 'b) prog" where
  [kexec]: "bindK m f = (\<lambda>s. case m s of Inl e \<Rightarrow> Inl e | Inr (x, t) \<Rightarrow> f x t)"

definition thenK :: "('s, 'a) prog \<Rightarrow> ('s, 'b) prog \<Rightarrow> ('s, 'b) prog" where
  [kexec]: "thenK m n = bindK m (\<lambda>_. n)"

definition getK :: "('s, 's) prog" where
  [kexec]: "getK = (\<lambda>s. Inr (s, s))"

definition modifyK :: "('s \<Rightarrow> 's) \<Rightarrow> ('s, unit) prog" where
  [kexec]: "modifyK f = (\<lambda>s. Inr ((), f s))"

lemma bindK_return [simp]: "bindK (returnK x) f = f x"
  by (simp add: bindK_def returnK_def)

lemma bindK_return_right: "bindK m returnK = m"
  by (auto simp: bindK_def returnK_def fun_eq_iff split: sum.split)

lemma bindK_assoc: "bindK (bindK m f) g = bindK m (\<lambda>x. bindK (f x) g)"
  by (auto simp: bindK_def fun_eq_iff split: sum.split)

lemma bindK_Inr: "m s = Inr (x, t) \<Longrightarrow> bindK m f s = f x t"
  by (simp add: bindK_def)

lemma bindK_Inl: "m s = Inl e \<Longrightarrow> bindK m f s = Inl e"
  by (simp add: bindK_def)

lemma thenK_Inr: "m s = Inr (x, t) \<Longrightarrow> thenK m n s = n t"
  by (simp add: thenK_def bindK_def)

lemma bindK_eq_Inr:
  "bindK m f s = Inr (y, u) \<longleftrightarrow> (\<exists>x t. m s = Inr (x, t) \<and> f x t = Inr (y, u))"
  by (auto simp: bindK_def split: sum.split)

lemma thenK_eq_Inr:
  "thenK m n s = Inr (y, u) \<longleftrightarrow> (\<exists>x t. m s = Inr (x, t) \<and> n t = Inr (y, u))"
  by (simp add: thenK_def bindK_eq_Inr)

lemma if_prog_apply: "(if b then m else n) s = (if b then m s else n s)"
  by simp

section \<open>Preservation of a state predicate\<close>

text \<open>
  \<open>keeps I m\<close>: whenever \<open>m\<close> returns, it leaves \<open>I\<close> as it found it.  The rules
  below follow the shape of a program, so a preservation proof is a walk along its text.
\<close>

definition keeps :: "('s \<Rightarrow> bool) \<Rightarrow> ('s, 'a) prog \<Rightarrow> bool" where
  "keeps I m \<longleftrightarrow> (\<forall>s x t. I s \<longrightarrow> m s = Inr (x, t) \<longrightarrow> I t)"

lemma keepsI: "(\<And>s x t. I s \<Longrightarrow> m s = Inr (x, t) \<Longrightarrow> I t) \<Longrightarrow> keeps I m"
  by (auto simp: keeps_def)

lemma keepsD: "keeps I m \<Longrightarrow> I s \<Longrightarrow> m s = Inr (x, t) \<Longrightarrow> I t"
  by (auto simp: keeps_def)

lemma keeps_return [intro, simp]: "keeps I (returnK x)"
  by (simp add: keeps_def returnK_def)

lemma keeps_fail [intro, simp]: "keeps I (failK e)"
  by (simp add: keeps_def failK_def)

lemma keeps_get [intro, simp]: "keeps I getK"
  by (simp add: keeps_def getK_def)

lemma keeps_bind [intro]: "keeps I m \<Longrightarrow> (\<And>x. keeps I (f x)) \<Longrightarrow> keeps I (bindK m f)"
  unfolding keeps_def bindK_eq_Inr by blast

lemma keeps_then [intro]: "keeps I m \<Longrightarrow> keeps I n \<Longrightarrow> keeps I (thenK m n)"
  unfolding thenK_def by (rule keeps_bind)

lemma keeps_if [intro]: "(b \<Longrightarrow> keeps I m) \<Longrightarrow> (\<not> b \<Longrightarrow> keeps I n) \<Longrightarrow> keeps I (if b then m else n)"
  by simp

section \<open>Read/write semaphores\<close>

text \<open>
  A \<open>struct rw_semaphore\<close>: how many readers hold it and whether a writer does.  The
  try-lock operations never wait; \<open>down_write\<close> waits while anybody holds it.
\<close>

record rwsem =
  readers :: nat
  writer :: bool

definition sem_free :: rwsem where
  "sem_free = \<lparr>readers = 0, writer = False\<rparr>"

definition read_trylock :: "rwsem \<Rightarrow> rwsem option" where
  [kexec]: "read_trylock l = (if writer l then None else Some (l\<lparr>readers := Suc (readers l)\<rparr>))"

definition write_trylock :: "rwsem \<Rightarrow> rwsem option" where
  [kexec]: "write_trylock l = (if writer l \<or> readers l \<noteq> 0 then None else Some (l\<lparr>writer := True\<rparr>))"

definition read_unlock :: "rwsem \<Rightarrow> rwsem option" where
  [kexec]: "read_unlock l = (if readers l = 0 then None else Some (l\<lparr>readers := readers l - 1\<rparr>))"

definition write_unlock :: "rwsem \<Rightarrow> rwsem option" where
  [kexec]: "write_unlock l = (if writer l then Some (l\<lparr>writer := False\<rparr>) else None)"

lemma read_lock_unlock: "read_trylock l = Some l' \<Longrightarrow> read_unlock l' = Some l"
  by (cases l) (auto simp: read_trylock_def read_unlock_def split: if_splits)

lemma write_lock_unlock: "write_trylock l = Some l' \<Longrightarrow> write_unlock l' = Some l"
  by (cases l) (auto simp: write_trylock_def write_unlock_def split: if_splits)

lemma write_trylock_free: "write_trylock l = None \<longleftrightarrow> l \<noteq> sem_free"
  by (cases l) (auto simp: write_trylock_def sem_free_def)

lemma sem_free_simps [simp]: "readers sem_free = 0" "writer sem_free = False"
  by (simp_all add: sem_free_def)

end
