(* ===== verification/Hashtable.thy ===== *)
theory Hashtable
  imports Netdev_Prelude
begin

text \<open>
  The kernel hash tables (\<open>linux/hashtable.h\<close>) as the driver uses them: an array of
  \<open>2 ^ 5\<close> chains (\<open>NETDEV_HTABLE_DEV_SIZE\<close> and
  \<open>NETDEV_HTABLE_ACC_SIZE\<close> are both 5), \<open>hash_add\<close> putting the new
  node in front of its chain, \<open>hash_del\<close> unlinking a node from whatever chain it is on
  (and doing nothing to an unlinked one), \<open>hash_for_each_possible\<close> walking the chain of a
  key and \<open>hash_for_each_safe\<close> walking every chain.  The hash function is the kernel's
  and is a parameter everywhere.

  The locale \<open>keyed_chains\<close> states the contract the driver relies on: chains behave, for
  any key function, like a finite map from keys to nodes.
\<close>

section \<open>Chains\<close>

type_synonym 'p htable = "nat \<Rightarrow> 'p list"

definition HTABLE_BUCKETS :: nat where
  [kexec]: "HTABLE_BUCKETS = 32"

definition hash_init :: "'p htable" where
  "hash_init = (\<lambda>_. [])"

definition hash_bucket :: "('k \<Rightarrow> nat) \<Rightarrow> 'k \<Rightarrow> nat" where
  "hash_bucket h k = h k mod HTABLE_BUCKETS"

definition hash_add :: "('k \<Rightarrow> nat) \<Rightarrow> 'k \<Rightarrow> 'p \<Rightarrow> 'p htable \<Rightarrow> 'p htable" where
  "hash_add h k p t = t(hash_bucket h k := p # t (hash_bucket h k))"

definition hash_del :: "'p \<Rightarrow> 'p htable \<Rightarrow> 'p htable" where
  "hash_del p t = (\<lambda>b. remove1 p (t b))"

definition hash_possible :: "('k \<Rightarrow> nat) \<Rightarrow> 'k \<Rightarrow> 'p htable \<Rightarrow> 'p list" where
  "hash_possible h k t = t (hash_bucket h k)"

definition hash_all :: "'p htable \<Rightarrow> 'p list" where
  "hash_all t = concat (map t [0..<HTABLE_BUCKETS])"

lemma hash_bucket_less: "hash_bucket h k < HTABLE_BUCKETS"
  by (simp add: hash_bucket_def HTABLE_BUCKETS_def)

lemma set_hash_all: "set (hash_all t) = (\<Union>b<HTABLE_BUCKETS. set (t b))"
  by (auto simp: hash_all_def)

lemma hash_all_init [simp]: "hash_all hash_init = []"
  by (simp add: hash_all_def hash_init_def map_replicate_trivial)

section \<open>The contract\<close>

locale keyed_chains =
  fixes add :: "'k \<Rightarrow> 'p \<Rightarrow> 't \<Rightarrow> 't"
    and del :: "'p \<Rightarrow> 't \<Rightarrow> 't"
    and possible :: "'k \<Rightarrow> 't \<Rightarrow> 'p list"
    and all :: "'t \<Rightarrow> 'p list"
  assumes possible_add_same: "possible k (add k p t) = p # possible k t"
    and possible_add_other: "possible k' (add k p t) = possible k' t \<or> possible k' (add k p t) = p # possible k' t"
    and possible_del: "possible k (del p t) = remove1 p (possible k t)"
    and possible_all: "set (possible k t) \<subseteq> set (all t)"
    and all_add: "set (all (add k p t)) = insert p (set (all t))"
    and distinct_add: "distinct (all (add k p t)) \<longleftrightarrow> p \<notin> set (all t) \<and> distinct (all t)"
    and all_del: "distinct (all t) \<Longrightarrow> set (all (del p t)) = set (all t) - {p}"
    and distinct_del: "distinct (all t) \<Longrightarrow> distinct (all (del p t))"
begin

text \<open>A table is well keyed when every node sits on the chain of its key and no two share a key.\<close>

definition well_keyed :: "('p \<Rightarrow> 'k) \<Rightarrow> 't \<Rightarrow> bool" where
  "well_keyed key t \<longleftrightarrow> distinct (all t) \<and> inj_on key (set (all t)) \<and>
     (\<forall>p \<in> set (all t). p \<in> set (possible (key p) t))"

definition lookup :: "('p \<Rightarrow> 'k) \<Rightarrow> 't \<Rightarrow> 'k \<Rightarrow> 'p option" where
  "lookup key t k = find (\<lambda>p. key p = k) (possible k t)"

lemma lookup_SomeD: "lookup key t k = Some p \<Longrightarrow> p \<in> set (all t) \<and> key p = k"
  using possible_all[of k t] by (fastforce simp: lookup_def find_Some_iff)

lemma lookup_SomeI:
  assumes wk: "well_keyed key t" and p: "p \<in> set (all t)"
  shows "lookup key t (key p) = Some p"
proof -
  from wk p have "p \<in> set (possible (key p) t)" by (simp add: well_keyed_def)
  then have "lookup key t (key p) \<noteq> None"
    by (auto simp: lookup_def find_None_iff)
  then obtain q where q: "lookup key t (key p) = Some q" by blast
  from lookup_SomeD[OF q] wk p have "q = p"
    by (auto simp: well_keyed_def dest: inj_onD)
  with q show ?thesis by simp
qed

lemma lookup_iff:
  "well_keyed key t \<Longrightarrow> lookup key t k = Some p \<longleftrightarrow> p \<in> set (all t) \<and> key p = k"
  using lookup_SomeI lookup_SomeD by blast

lemma lookup_None_iff:
  "well_keyed key t \<Longrightarrow> lookup key t k = None \<longleftrightarrow> (\<forall>p \<in> set (all t). key p \<noteq> k)"
  by (metis lookup_iff not_None_eq)

lemma lookup_cong:
  "\<forall>p \<in> set (all t). key p = key' p \<Longrightarrow> lookup key t = lookup key' t"
proof (rule ext)
  fix k
  assume eq: "\<forall>p \<in> set (all t). key p = key' p"
  have "key p = key' p" if "p \<in> set (possible k t)" for p
    using eq that possible_all[of k t] by blast
  then show "lookup key t k = lookup key' t k"
    unfolding lookup_def by (intro find_cong) auto
qed

text \<open>Insertion and removal act on \<open>lookup\<close> as on a map.\<close>

lemma lookup_add: "lookup key (add (key p) p t) = (lookup key t)(key p \<mapsto> p)"
proof
  fix k
  show "lookup key (add (key p) p t) k = ((lookup key t)(key p \<mapsto> p)) k"
    using possible_add_same[of "key p" p t] possible_add_other[of k "key p" p t]
    by (cases "key p = k") (auto simp: lookup_def)
qed

lemma well_keyed_add:
  assumes "well_keyed key t" and "p \<notin> set (all t)" and "lookup key t (key p) = None"
  shows "well_keyed key (add (key p) p t)"
proof -
  have "key q \<noteq> key p" if "q \<in> set (all t)" for q
    using assms that lookup_SomeI by fastforce
  moreover have "q \<in> set (possible (key q) (add (key p) p t))" if "q \<in> set (all t)" for q
    using assms(1) that possible_add_other[of "key q" "key p" p t] by (auto simp: well_keyed_def)
  ultimately show ?thesis
    using assms(1,2) possible_add_same[of "key p" p t]
    by (fastforce simp: well_keyed_def all_add distinct_add inj_on_def)
qed

lemma well_keyed_del:
  assumes "well_keyed key t"
  shows "well_keyed key (del p t)"
  using assms unfolding well_keyed_def
  by (auto simp: all_del distinct_del possible_del inj_on_def in_set_remove1)

lemma lookup_del:
  assumes wk: "well_keyed key t" and p: "p \<in> set (all t)"
  shows "lookup key (del p t) = (lookup key t)(key p := None)"
proof
  fix k
  have wk': "well_keyed key (del p t)" using wk by (rule well_keyed_del)
  have dist: "distinct (all t)" using wk by (simp add: well_keyed_def)
  show "lookup key (del p t) k = ((lookup key t)(key p := None)) k"
  proof (cases "k = key p")
    case True
    then show ?thesis
      using wk p by (auto simp: lookup_None_iff[OF wk'] all_del[OF dist] well_keyed_def dest: inj_onD)
  next
    case False
    then have "lookup key (del p t) k = Some q \<longleftrightarrow> lookup key t k = Some q" for q
      by (auto simp: lookup_iff[OF wk'] lookup_iff[OF wk] all_del[OF dist])
    with False show ?thesis by (metis fun_upd_apply not_None_eq)
  qed
qed

end

section \<open>The kernel's chains satisfy it\<close>

lemma all_hash_add: "set (hash_all (hash_add h k p t)) = insert p (set (hash_all t))"
  using hash_bucket_less[of h k] by (auto simp: set_hash_all hash_add_def split: if_splits)

lemma concat_upd_front:
  assumes "b < n"
  shows "distinct (concat (map (t(b := p # t b)) [0..<n])) \<longleftrightarrow>
    p \<notin> set (concat (map t [0..<n])) \<and> distinct (concat (map t [0..<n]))"
proof -
  have split: "[0..<n] = [0..<b] @ b # [Suc b..<n]"
    using assms by (metis append_Cons append_Nil le_add_diff_inverse less_imp_le_nat upt_add_eq_append upt_conv_Cons zero_le)
  have same: "map (t(b := p # t b)) [0..<b] = map t [0..<b]"
    "map (t(b := p # t b)) [Suc b..<n] = map t [Suc b..<n]"
    by auto
  show ?thesis
    unfolding split map_append concat_append list.map concat.simps same by auto
qed

lemma distinct_hash_add:
  "distinct (hash_all (hash_add h k p t)) \<longleftrightarrow> p \<notin> set (hash_all t) \<and> distinct (hash_all t)"
  unfolding hash_all_def hash_add_def by (rule concat_upd_front) (rule hash_bucket_less)

lemma distinct_chain: "distinct (hash_all t) \<Longrightarrow> b < HTABLE_BUCKETS \<Longrightarrow> distinct (t b)"
  unfolding hash_all_def by (auto simp: distinct_concat_iff)

lemma distinct_concat_remove1:
  "distinct (concat (map t bs)) \<Longrightarrow> distinct (concat (map (\<lambda>b. remove1 p (t b)) bs))"
proof (induction bs)
  case (Cons a bs)
  have "set (remove1 p (t b)) \<subseteq> set (t b)" for b by (rule set_remove1_subset)
  with Cons show ?case by (fastforce simp: disjoint_iff)
qed simp

lemma set_hash_del:
  assumes "distinct (hash_all t)"
  shows "set (hash_all (hash_del p t)) = set (hash_all t) - {p}"
proof -
  have "set (remove1 p (t b)) = set (t b) - {p}" if "b < HTABLE_BUCKETS" for b
    using distinct_chain[OF assms that] by simp
  then show ?thesis by (auto simp: set_hash_all hash_del_def)
qed

lemma hash_del_add: "\<forall>b. p \<notin> set (t b) \<Longrightarrow> hash_del p (hash_add h k p t) = t"
  by (auto simp: hash_del_def hash_add_def remove1_idem)

interpretation chains: keyed_chains "hash_add h" hash_del "hash_possible h" hash_all for h
proof unfold_locales
  fix k k' p t
  show "hash_possible h k (hash_add h k p t) = p # hash_possible h k t"
    by (simp add: hash_possible_def hash_add_def)
  show "hash_possible h k' (hash_add h k p t) = hash_possible h k' t \<or>
      hash_possible h k' (hash_add h k p t) = p # hash_possible h k' t"
    by (simp add: hash_possible_def hash_add_def)
  show "hash_possible h k (hash_del p t) = remove1 p (hash_possible h k t)"
    by (simp add: hash_possible_def hash_del_def)
  show "set (hash_possible h k t) \<subseteq> set (hash_all t)"
    using hash_bucket_less[of h k] by (auto simp: hash_possible_def set_hash_all)
  show "set (hash_all (hash_add h k p t)) = insert p (set (hash_all t))"
    by (rule all_hash_add)
  show "distinct (hash_all (hash_add h k p t)) \<longleftrightarrow> p \<notin> set (hash_all t) \<and> distinct (hash_all t)"
    by (rule distinct_hash_add)
  show "distinct (hash_all t) \<Longrightarrow> set (hash_all (hash_del p t)) = set (hash_all t) - {p}"
    by (rule set_hash_del)
  show "distinct (hash_all t) \<Longrightarrow> distinct (hash_all (hash_del p t))"
    unfolding hash_all_def hash_del_def by (rule distinct_concat_remove1)
qed

section \<open>A table with one node\<close>

lemma well_keyed_init [simp]: "chains.well_keyed h key hash_init"
  by (simp add: chains.well_keyed_def)

lemma lookup_init [simp]: "chains.lookup h key hash_init k = None"
  by (simp add: chains.lookup_def hash_possible_def hash_init_def)

lemma well_keyed_one: "key p = k \<Longrightarrow> chains.well_keyed h key (hash_add h k p hash_init)"
  using chains.well_keyed_add[of h key hash_init p] by simp

lemma lookup_one: "key p = k \<Longrightarrow> chains.lookup h key (hash_add h k p hash_init) = [k \<mapsto> p]"
  using chains.lookup_add[of h key p hash_init] by (auto simp: fun_eq_iff)

lemma hash_all_one: "hash_all (hash_add h k p hash_init) = [p]"
proof -
  have "set (hash_all (hash_add h k p hash_init)) = {p}" by (simp add: all_hash_add)
  moreover have "distinct (hash_all (hash_add h k p hash_init))" by (simp add: distinct_hash_add)
  ultimately have "length (hash_all (hash_add h k p hash_init)) = 1"
    using distinct_card[of "hash_all (hash_add h k p hash_init)"] by simp
  then obtain q where "hash_all (hash_add h k p hash_init) = [q]"
    by (auto simp: length_Suc_conv)
  with \<open>set (hash_all (hash_add h k p hash_init)) = {p}\<close> show ?thesis by simp
qed

end
