(* ===== verification/Kernel_State.thy ===== *)
theory Kernel_State
  imports Hashtable
begin

text \<open>
  The state of the kernel module and the kernel services every component uses.

  Objects obtained from the allocator live in a heap from addresses to objects; releasing one
  removes it, so a dangling pointer is an address without an object and a second release or a
  later access is a fault.  What the kernel decides (whether an allocation succeeds, what
  \<open>cdev_add\<close> or \<open>nlmsg_unicast\<close> return) is read from two streams indexed
  by a clock that every such call advances, so theorems hold for every such decision.
  Effects outside the module (character devices, messages) are recorded in order in a trace.
\<close>

section \<open>Constants of the headers\<close>

definition NETDEV_MAX_DEVICES :: nat where [kexec]: "NETDEV_MAX_DEVICES = 32"
definition NETDEV_FO_QUEUE_SIZE :: nat where [kexec]: "NETDEV_FO_QUEUE_SIZE = 64"
definition NETDEV_MESSAGE_LIMIT :: nat where [kexec]: "NETDEV_MESSAGE_LIMIT = 213000"
definition NETDEV_PROTOCOL_VERSION :: i32 where [kexec]: "NETDEV_PROTOCOL_VERSION = 2"
definition NETDEV_REQ_POOL_NAME_LEN :: nat where [kexec]: "NETDEV_REQ_POOL_NAME_LEN = 15"

text \<open>Message types of \<open>protocol.h\<close>.\<close>

definition MSGT_CONTROL_START :: nat where [kexec]: "MSGT_CONTROL_START = 0"
definition MSGT_CONTROL_ECHO :: nat where [kexec]: "MSGT_CONTROL_ECHO = 1"
definition MSGT_CONTROL_VERSION :: nat where [kexec]: "MSGT_CONTROL_VERSION = 4"
definition MSGT_CONTROL_REG_DUMMY :: nat where [kexec]: "MSGT_CONTROL_REG_DUMMY = 5"
definition MSGT_CONTROL_REG_SERVER :: nat where [kexec]: "MSGT_CONTROL_REG_SERVER = 6"
definition MSGT_CONTROL_UNREGISTER :: nat where [kexec]: "MSGT_CONTROL_UNREGISTER = 7"
definition MSGT_CONTROL_END :: nat where [kexec]: "MSGT_CONTROL_END = 11"
definition MSGT_FO_START :: nat where [kexec]: "MSGT_FO_START = 100"
definition MSGT_FO_END :: nat where [kexec]: "MSGT_FO_END = 127"

definition MSGT_FO_LLSEEK :: nat where [kexec]: "MSGT_FO_LLSEEK = 101"
definition MSGT_FO_READ :: nat where [kexec]: "MSGT_FO_READ = 102"
definition MSGT_FO_WRITE :: nat where [kexec]: "MSGT_FO_WRITE = 103"
definition MSGT_FO_UNLOCKED_IOCTL :: nat where [kexec]: "MSGT_FO_UNLOCKED_IOCTL = 108"
definition MSGT_FO_COMPAT_IOCTL :: nat where [kexec]: "MSGT_FO_COMPAT_IOCTL = 109"
definition MSGT_FO_OPEN :: nat where [kexec]: "MSGT_FO_OPEN = 111"
definition MSGT_FO_FLUSH :: nat where [kexec]: "MSGT_FO_FLUSH = 112"
definition MSGT_FO_RELEASE :: nat where [kexec]: "MSGT_FO_RELEASE = 113"

text \<open>Error numbers, as the code returns them (negated at the point of use).\<close>

definition EIO :: "'a::len word" where [kexec]: "EIO = 5"
definition ENOMEM :: "'a::len word" where [kexec]: "ENOMEM = 12"
definition EBUSY :: "'a::len word" where [kexec]: "EBUSY = 16"
definition ENODEV :: "'a::len word" where [kexec]: "ENODEV = 19"
definition EINVAL :: "'a::len word" where [kexec]: "EINVAL = 22"
definition ENFILE :: "'a::len word" where [kexec]: "ENFILE = 23"
definition ENODATA :: "'a::len word" where [kexec]: "ENODATA = 61"
definition ECANCELED :: "'a::len word" where [kexec]: "ECANCELED = 125"

section \<open>Objects\<close>

text \<open>
  \<open>file_ops\<close> stands for the \<open>f_op\<close> table of an opened file, \<open>None\<close>
  for an operation the device does not have; what each operation answers is the device's business
  and depends on the clock.  A read answers its return value, the bytes it put into the buffer and
  the new offset.
\<close>

record file_ops =
  fop_llseek :: "(nat \<Rightarrow> i64 \<Rightarrow> i32 \<Rightarrow> i64) option"
  fop_read :: "(nat \<Rightarrow> i64 \<Rightarrow> i64 \<Rightarrow> i64 \<times> byte list \<times> i64) option"
  fop_write :: "(nat \<Rightarrow> byte list \<Rightarrow> i64 \<Rightarrow> i64 \<Rightarrow> i64 \<times> i64) option"
  fop_unlocked_ioctl :: "(nat \<Rightarrow> i32 \<Rightarrow> i64 \<Rightarrow> i64) option"
  fop_compat_ioctl :: "(nat \<Rightarrow> i32 \<Rightarrow> i64 \<Rightarrow> i64) option"
  fop_flush :: "(nat \<Rightarrow> i32) option"
  fop_close :: "nat \<Rightarrow> i32"

datatype filp = FNull | FErr i32 | FNoOps | FOpen file_ops

record netdev_data =
  nlpid :: i32
  active :: bool
  dummy :: bool
  devname :: addr
  users :: i32
  curseq :: i32
  nllock :: bool
  cdev :: addr
  device :: bool
  nd_sem :: rwsem
  queue_pool :: addr
  foacc_htable :: "addr htable"

record fo_access =
  access_id :: i32
  nddata :: addr
  acc_filp :: filp
  fo_queue :: "addr list"
  fifo_buf :: addr
  acc_sem :: rwsem

record fo_req =
  seq :: i64
  msgtype :: i16
  req_access_id :: i32
  args :: addr
  data :: addr
  size :: i64
  data_size :: i64
  rvalue :: i32
  comp_done :: bool

text \<open>Messages: a netlink header and its payload (also the form of an \<open>sk_buff\<close>).\<close>

record nlmsg =
  nlmsg_len :: i32
  nlmsg_type :: i16
  nlmsg_flags :: i16
  nlmsg_seq :: i32
  nlmsg_pid :: i32
  payload :: "byte list"

datatype obj =
    ODev netdev_data
  | OAcc fo_access
  | OReq fo_req
  | OBuf "byte list"
  | OCdev nat           \<comment> \<open>a \<open>struct cdev\<close> with its minor number\<close>
  | OPool
  | OSkb nlmsg

datatype kevent =
    CdevAdd nat | CdevDel nat | DeviceCreate nat | DeviceDestroy nat
  | Unicast i32 nlmsg     \<comment> \<open>to a process: the message delivered\<close>
  | Ack i32 i32 i32       \<comment> \<open>to a process: sequence number, error\<close>
  | Woken addr            \<comment> \<open>a thread of \<open>fo_recv\<close> was started on this message\<close>
  | Completed addr
  | ToUser "byte list"    \<comment> \<open>copied into the user's buffer\<close>
  | Overrun nat           \<comment> \<open>bytes written past the end of a buffer\<close>
  | RegionAlloc | RegionFree | ClassCreate | ClassDestroy | SockCreate | SockRelease

section \<open>The state\<close>

record kst =
  heap :: "addr \<Rightarrow> obj option"
  next_addr :: addr
  tick :: nat
  alloc_ok :: "nat \<Rightarrow> bool"
  ext_ret :: "nat \<Rightarrow> i32"
  open_ret :: "nat \<Rightarrow> byte list \<Rightarrow> filp"
  hash_min :: "i32 \<Rightarrow> nat"
  netdev_htable :: "addr htable"
  netdev_htable_sem :: rwsem
  netdev_minor_sem :: rwsem
  netdev_max_minor :: nat
  netdev_minors_used :: "i32 list option"
  netdev_class :: "i32 option"
  nl_sk :: bool
  trace :: "kevent list"

type_synonym 'a kprog = "(kst, 'a) prog"

definition ADDR_LIMIT :: nat where "ADDR_LIMIT = 9223372036854775808" \<comment> \<open>\<open>2 ^ 63\<close>\<close>

text \<open>Error pointers are the last 4095 addresses of the 64-bit space.\<close>

definition IS_ERR :: "addr \<Rightarrow> bool" where
  "IS_ERR p \<longleftrightarrow> 18446744073709547521 \<le> p" \<comment> \<open>\<open>2 ^ 64 - 4095\<close>\<close>

lemma not_IS_ERR: "p < ADDR_LIMIT \<Longrightarrow> \<not> IS_ERR p"
  by (simp add: IS_ERR_def ADDR_LIMIT_def)

section \<open>The allocator\<close>

definition can_alloc :: "kst \<Rightarrow> bool" where
  "can_alloc s \<longleftrightarrow> alloc_ok s (tick s) \<and> next_addr s < ADDR_LIMIT"

definition kalloc :: "obj \<Rightarrow> addr kprog" where
  [kexec]: "kalloc x s =
     (if can_alloc s
      then Inr (next_addr s, s\<lparr>heap := (heap s)(next_addr s \<mapsto> x), next_addr := Suc (next_addr s), tick := Suc (tick s)\<rparr>)
      else Inr (NULL, s\<lparr>tick := Suc (tick s)\<rparr>))"

definition kfree :: "addr \<Rightarrow> unit kprog" where
  [kexec]: "kfree p s =
     (if p = NULL then Inr ((), s)
      else case heap s p of None \<Rightarrow> Inl UseAfterFree | Some _ \<Rightarrow> Inr ((), s\<lparr>heap := (heap s)(p := None)\<rparr>))"

text \<open>\<open>kmem_cache_create\<close> and \<open>kmem_cache_destroy\<close> of a request pool;
  \<open>kmem_cache_alloc\<close> hands out uninitialised memory, so the sequence number of a new
  request is whatever the stream says.\<close>

definition kmem_cache_create :: "addr kprog" where
  [kexec]: "kmem_cache_create = kalloc OPool"

definition kmem_cache_destroy :: "addr \<Rightarrow> unit kprog" where
  [kexec]: "kmem_cache_destroy p = kfree p"

definition load :: "addr \<Rightarrow> obj kprog" where
  [kexec]: "load p s =
     (if p = NULL then Inl NullDeref
      else case heap s p of None \<Rightarrow> Inl UseAfterFree | Some x \<Rightarrow> Inr (x, s))"

definition store :: "addr \<Rightarrow> obj \<Rightarrow> unit kprog" where
  [kexec]: "store p x s =
     (if p = NULL then Inl NullDeref
      else case heap s p of None \<Rightarrow> Inl UseAfterFree | Some _ \<Rightarrow> Inr ((), s\<lparr>heap := (heap s)(p \<mapsto> x)\<rparr>))"

text \<open>Access to a structure through a pointer; a live object of another kind is memory that was
  released and handed out again.\<close>

definition get_dev :: "addr \<Rightarrow> netdev_data kprog" where
  [kexec]: "get_dev p = bindK (load p) (\<lambda>x. case x of ODev d \<Rightarrow> returnK d | _ \<Rightarrow> failK UseAfterFree)"

definition mod_dev :: "addr \<Rightarrow> (netdev_data \<Rightarrow> netdev_data) \<Rightarrow> unit kprog" where
  [kexec]: "mod_dev p f = bindK (get_dev p) (\<lambda>d. store p (ODev (f d)))"

definition get_acc :: "addr \<Rightarrow> fo_access kprog" where
  [kexec]: "get_acc p = bindK (load p) (\<lambda>x. case x of OAcc a \<Rightarrow> returnK a | _ \<Rightarrow> failK UseAfterFree)"

definition mod_acc :: "addr \<Rightarrow> (fo_access \<Rightarrow> fo_access) \<Rightarrow> unit kprog" where
  [kexec]: "mod_acc p f = bindK (get_acc p) (\<lambda>a. store p (OAcc (f a)))"

definition get_req :: "addr \<Rightarrow> fo_req kprog" where
  [kexec]: "get_req p = bindK (load p) (\<lambda>x. case x of OReq r \<Rightarrow> returnK r | _ \<Rightarrow> failK UseAfterFree)"

definition mod_req :: "addr \<Rightarrow> (fo_req \<Rightarrow> fo_req) \<Rightarrow> unit kprog" where
  [kexec]: "mod_req p f = bindK (get_req p) (\<lambda>r. store p (OReq (f r)))"

definition get_pool :: "addr \<Rightarrow> unit kprog" where
  [kexec]: "get_pool p = bindK (load p) (\<lambda>x. case x of OPool \<Rightarrow> returnK () | _ \<Rightarrow> failK UseAfterFree)"

definition get_skb :: "addr \<Rightarrow> nlmsg kprog" where
  [kexec]: "get_skb p = bindK (load p) (\<lambda>x. case x of OSkb m \<Rightarrow> returnK m | _ \<Rightarrow> failK UseAfterFree)"

definition mod_skb :: "addr \<Rightarrow> (nlmsg \<Rightarrow> nlmsg) \<Rightarrow> unit kprog" where
  [kexec]: "mod_skb p f = bindK (get_skb p) (\<lambda>m. store p (OSkb (f m)))"

definition get_buf :: "addr \<Rightarrow> byte list kprog" where
  [kexec]: "get_buf p = bindK (load p) (\<lambda>x. case x of OBuf b \<Rightarrow> returnK b | _ \<Rightarrow> failK UseAfterFree)"

text \<open>Requests from a pool.  \<open>kmem_cache_free\<close>, unlike \<open>kfree\<close>, does not
  accept NULL.\<close>

definition stale_req :: "i64 \<Rightarrow> fo_req" where
  "stale_req junk = \<lparr>seq = junk, msgtype = 0, req_access_id = 0, args = NULL, data = NULL, size = 0, data_size = 0,
     rvalue = 0, comp_done = False\<rparr>"

definition kmem_cache_alloc :: "addr \<Rightarrow> addr kprog" where
  [kexec]: "kmem_cache_alloc pool = thenK (get_pool pool)
     (bindK getK (\<lambda>s. kalloc (OReq (stale_req (scast (ext_ret s (tick s)))))))"

definition kmem_cache_free :: "addr \<Rightarrow> addr \<Rightarrow> unit kprog" where
  [kexec]: "kmem_cache_free pool p = thenK (get_pool pool) (if p = NULL then failK NullDeref else kfree p)"

section \<open>Outside calls and the trace\<close>

definition emit :: "kevent \<Rightarrow> unit kprog" where
  [kexec]: "emit e = modifyK (\<lambda>s. s\<lparr>trace := trace s @ [e]\<rparr>)"

definition ext_call :: "i32 kprog" where
  [kexec]: "ext_call s = Inr (ext_ret s (tick s), s\<lparr>tick := Suc (tick s)\<rparr>)"

text \<open>\<open>memcpy\<close> or \<open>sprintf\<close> into a buffer.  C does not stop at its end: what
  does not fit is recorded as an overrun, what fits is stored.\<close>

definition write_buf :: "addr \<Rightarrow> byte list \<Rightarrow> unit kprog" where
  [kexec]: "write_buf p bs = bindK (get_buf p) (\<lambda>b.
     thenK (store p (OBuf (take (length b) bs @ drop (length bs) b)))
       (if length bs \<le> length b then returnK () else emit (Overrun (length bs - length b))))"

definition write_stack :: "nat \<Rightarrow> nat \<Rightarrow> unit kprog" where
  [kexec]: "write_stack cap n = (if n \<le> cap then returnK () else emit (Overrun (n - cap)))"

section \<open>The two global semaphores and the one in each structure\<close>

definition htable_read_trylock :: "bool kprog" where
  [kexec]: "htable_read_trylock s = (case read_trylock (netdev_htable_sem s) of
     None \<Rightarrow> Inr (False, s) | Some l \<Rightarrow> Inr (True, s\<lparr>netdev_htable_sem := l\<rparr>))"

definition htable_up_read :: "unit kprog" where
  [kexec]: "htable_up_read s = (case read_unlock (netdev_htable_sem s) of
     None \<Rightarrow> Inl BadUnlock | Some l \<Rightarrow> Inr ((), s\<lparr>netdev_htable_sem := l\<rparr>))"

definition htable_write_trylock :: "bool kprog" where
  [kexec]: "htable_write_trylock s = (case write_trylock (netdev_htable_sem s) of
     None \<Rightarrow> Inr (False, s) | Some l \<Rightarrow> Inr (True, s\<lparr>netdev_htable_sem := l\<rparr>))"

definition htable_up_write :: "unit kprog" where
  [kexec]: "htable_up_write s = (case write_unlock (netdev_htable_sem s) of
     None \<Rightarrow> Inl BadUnlock | Some l \<Rightarrow> Inr ((), s\<lparr>netdev_htable_sem := l\<rparr>))"

definition minor_read_trylock :: "bool kprog" where
  [kexec]: "minor_read_trylock s = (case read_trylock (netdev_minor_sem s) of
     None \<Rightarrow> Inr (False, s) | Some l \<Rightarrow> Inr (True, s\<lparr>netdev_minor_sem := l\<rparr>))"

definition minor_up_read :: "unit kprog" where
  [kexec]: "minor_up_read s = (case read_unlock (netdev_minor_sem s) of
     None \<Rightarrow> Inl BadUnlock | Some l \<Rightarrow> Inr ((), s\<lparr>netdev_minor_sem := l\<rparr>))"

definition minor_write_trylock :: "bool kprog" where
  [kexec]: "minor_write_trylock s = (case write_trylock (netdev_minor_sem s) of
     None \<Rightarrow> Inr (False, s) | Some l \<Rightarrow> Inr (True, s\<lparr>netdev_minor_sem := l\<rparr>))"

definition minor_up_write :: "unit kprog" where
  [kexec]: "minor_up_write s = (case write_unlock (netdev_minor_sem s) of
     None \<Rightarrow> Inl BadUnlock | Some l \<Rightarrow> Inr ((), s\<lparr>netdev_minor_sem := l\<rparr>))"

definition dev_read_trylock :: "addr \<Rightarrow> bool kprog" where
  [kexec]: "dev_read_trylock p = bindK (get_dev p) (\<lambda>d. case read_trylock (nd_sem d) of
     None \<Rightarrow> returnK False | Some l \<Rightarrow> thenK (mod_dev p (\<lambda>d. d\<lparr>nd_sem := l\<rparr>)) (returnK True))"

definition dev_up_read :: "addr \<Rightarrow> unit kprog" where
  [kexec]: "dev_up_read p = bindK (get_dev p) (\<lambda>d. case read_unlock (nd_sem d) of
     None \<Rightarrow> failK BadUnlock | Some l \<Rightarrow> mod_dev p (\<lambda>d. d\<lparr>nd_sem := l\<rparr>))"

definition dev_write_trylock :: "addr \<Rightarrow> bool kprog" where
  [kexec]: "dev_write_trylock p = bindK (get_dev p) (\<lambda>d. case write_trylock (nd_sem d) of
     None \<Rightarrow> returnK False | Some l \<Rightarrow> thenK (mod_dev p (\<lambda>d. d\<lparr>nd_sem := l\<rparr>)) (returnK True))"

definition dev_down_write :: "addr \<Rightarrow> unit kprog" where
  [kexec]: "dev_down_write p = bindK (get_dev p) (\<lambda>d. case write_trylock (nd_sem d) of
     None \<Rightarrow> failK Blocked | Some l \<Rightarrow> mod_dev p (\<lambda>d. d\<lparr>nd_sem := l\<rparr>))"

definition dev_up_write :: "addr \<Rightarrow> unit kprog" where
  [kexec]: "dev_up_write p = bindK (get_dev p) (\<lambda>d. case write_unlock (nd_sem d) of
     None \<Rightarrow> failK BadUnlock | Some l \<Rightarrow> mod_dev p (\<lambda>d. d\<lparr>nd_sem := l\<rparr>))"

text \<open>The spin lock \<open>nllock\<close>.\<close>

definition dev_spin_lock :: "addr \<Rightarrow> unit kprog" where
  [kexec]: "dev_spin_lock p = bindK (get_dev p) (\<lambda>d.
     if nllock d then failK Blocked else mod_dev p (\<lambda>d. d\<lparr>nllock := True\<rparr>))"

definition dev_spin_unlock :: "addr \<Rightarrow> unit kprog" where
  [kexec]: "dev_spin_unlock p = bindK (get_dev p) (\<lambda>d.
     if nllock d then mod_dev p (\<lambda>d. d\<lparr>nllock := False\<rparr>) else failK BadUnlock)"

definition acc_write_trylock :: "addr \<Rightarrow> bool kprog" where
  [kexec]: "acc_write_trylock p = bindK (get_acc p) (\<lambda>a. case write_trylock (acc_sem a) of
     None \<Rightarrow> returnK False | Some l \<Rightarrow> thenK (mod_acc p (\<lambda>a. a\<lparr>acc_sem := l\<rparr>)) (returnK True))"

definition acc_down_write :: "addr \<Rightarrow> unit kprog" where
  [kexec]: "acc_down_write p = bindK (get_acc p) (\<lambda>a. case write_trylock (acc_sem a) of
     None \<Rightarrow> failK Blocked | Some l \<Rightarrow> mod_acc p (\<lambda>a. a\<lparr>acc_sem := l\<rparr>))"

definition acc_up_write :: "addr \<Rightarrow> unit kprog" where
  [kexec]: "acc_up_write p = bindK (get_acc p) (\<lambda>a. case write_unlock (acc_sem a) of
     None \<Rightarrow> failK BadUnlock | Some l \<Rightarrow> mod_acc p (\<lambda>a. a\<lparr>acc_sem := l\<rparr>))"

section \<open>Reference counter and sequence number of a device\<close>

definition ndmgm_get :: "addr \<Rightarrow> unit kprog" where
  [kexec]: "ndmgm_get p = mod_dev p (\<lambda>d. d\<lparr>users := users d + 1\<rparr>)"

definition ndmgm_put :: "addr \<Rightarrow> unit kprog" where
  [kexec]: "ndmgm_put p = mod_dev p (\<lambda>d. d\<lparr>users := users d - 1\<rparr>)"

definition ndmgm_refs :: "addr \<Rightarrow> i32 kprog" where
  [kexec]: "ndmgm_refs p = bindK (get_dev p) (\<lambda>d. returnK (users d))"

lemma few_refs [simp]: "\<not> 1 <s (0 :: i32)" "\<not> 1 <s (1 :: i32)"
  by (simp_all add: word_sless_alt)

definition ndmgm_incseq :: "addr \<Rightarrow> i32 kprog" where
  [kexec]: "ndmgm_incseq p = thenK (mod_dev p (\<lambda>d. d\<lparr>curseq := curseq d + 1\<rparr>))
     (bindK (get_dev p) (\<lambda>d. returnK (curseq d)))"

section \<open>Freshness of addresses\<close>

definition heap_ok :: "kst \<Rightarrow> bool" where
  "heap_ok s \<longleftrightarrow> 0 < next_addr s \<and> (\<forall>p. heap s p \<noteq> None \<longrightarrow> 0 < p \<and> p < next_addr s)"

lemma heap_ok_fresh: "heap_ok s \<Longrightarrow> next_addr s \<le> p \<Longrightarrow> heap s p = None"
  by (meson heap_ok_def not_less)

lemma heap_ok_pos: "heap_ok s \<Longrightarrow> heap s p = Some x \<Longrightarrow> 0 < p"
  by (auto simp: heap_ok_def)

lemma heap_ok_less: "heap_ok s \<Longrightarrow> heap s p = Some x \<Longrightarrow> p < next_addr s"
  by (auto simp: heap_ok_def)

lemma heap_ok_null [simp]: "heap_ok s \<Longrightarrow> heap s 0 = None"
  by (auto simp: heap_ok_def)

lemma get_dev_Some: "heap s p = Some (ODev d) \<Longrightarrow> 0 < p \<Longrightarrow> get_dev p s = Inr (d, s)"
  by (simp add: kexec)

lemma get_acc_Some: "heap s p = Some (OAcc a) \<Longrightarrow> 0 < p \<Longrightarrow> get_acc p s = Inr (a, s)"
  by (simp add: kexec)

lemma get_req_Some: "heap s p = Some (OReq r) \<Longrightarrow> 0 < p \<Longrightarrow> get_req p s = Inr (r, s)"
  by (simp add: kexec)

section \<open>Running the primitives on known objects\<close>

lemma dev_of [simp]: "0 < p \<Longrightarrow> heap s p = Some (ODev d) \<Longrightarrow> get_dev p s = Inr (d, s)"
  by (simp add: kexec)

lemma mod_dev_of [simp]:
  "0 < p \<Longrightarrow> heap s p = Some (ODev d) \<Longrightarrow> mod_dev p f s = Inr ((), s\<lparr>heap := (heap s)(p \<mapsto> ODev (f d))\<rparr>)"
  by (simp add: kexec)

lemma acc_of [simp]: "0 < p \<Longrightarrow> heap s p = Some (OAcc a) \<Longrightarrow> get_acc p s = Inr (a, s)"
  by (simp add: kexec)

lemma mod_acc_of [simp]:
  "0 < p \<Longrightarrow> heap s p = Some (OAcc a) \<Longrightarrow> mod_acc p f s = Inr ((), s\<lparr>heap := (heap s)(p \<mapsto> OAcc (f a))\<rparr>)"
  by (simp add: kexec)

lemma req_of [simp]: "0 < p \<Longrightarrow> heap s p = Some (OReq r) \<Longrightarrow> get_req p s = Inr (r, s)"
  by (simp add: kexec)

lemma mod_req_of [simp]:
  "0 < p \<Longrightarrow> heap s p = Some (OReq r) \<Longrightarrow> mod_req p f s = Inr ((), s\<lparr>heap := (heap s)(p \<mapsto> OReq (f r))\<rparr>)"
  by (simp add: kexec)

lemma buf_of [simp]: "0 < p \<Longrightarrow> heap s p = Some (OBuf b) \<Longrightarrow> get_buf p s = Inr (b, s)"
  by (simp add: kexec)

lemma skb_of [simp]: "0 < p \<Longrightarrow> heap s p = Some (OSkb m) \<Longrightarrow> get_skb p s = Inr (m, s)"
  by (simp add: kexec)

lemma mod_skb_of [simp]:
  "0 < p \<Longrightarrow> heap s p = Some (OSkb m) \<Longrightarrow> mod_skb p f s = Inr ((), s\<lparr>heap := (heap s)(p \<mapsto> OSkb (f m))\<rparr>)"
  by (simp add: kexec)

lemma pool_of [simp]: "0 < p \<Longrightarrow> heap s p = Some OPool \<Longrightarrow> get_pool p s = Inr ((), s)"
  by (simp add: kexec)

lemma store_of [simp]: "0 < p \<Longrightarrow> heap s p = Some y \<Longrightarrow> store p x s = Inr ((), s\<lparr>heap := (heap s)(p \<mapsto> x)\<rparr>)"
  by (simp add: kexec)

lemma kfree_of [simp]: "0 < p \<Longrightarrow> heap s p = Some y \<Longrightarrow> kfree p s = Inr ((), s\<lparr>heap := (heap s)(p := None)\<rparr>)"
  by (simp add: kexec)

lemma kfree_NULL [simp]: "kfree 0 s = Inr ((), s)"
  by (simp add: kexec)

text \<open>The plumbing without the heap primitives, to run code over the rules above.\<close>

lemmas kflow = returnK_def failK_def bindK_def thenK_def getK_def modifyK_def emit_def

lemmas lock_exec = read_trylock_def write_trylock_def read_unlock_def write_unlock_def

text \<open>The initial memory: nothing allocated.\<close>

definition kst0 :: kst where
  "kst0 = \<lparr>heap = (\<lambda>_. None), next_addr = 1, tick = 0, alloc_ok = (\<lambda>_. True), ext_ret = (\<lambda>_. 0),
     open_ret = (\<lambda>_ _. FErr (- 2)), hash_min = (\<lambda>k. unat k), netdev_htable = hash_init,
     netdev_htable_sem = sem_free, netdev_minor_sem = sem_free, netdev_max_minor = 0,
     netdev_minors_used = None, netdev_class = None, nl_sk = False, trace = []\<rparr>"

end
