(* ===== verification/Minors.thy ===== *)
theory Minors
  imports Kernel_State
begin

text \<open>
  The minor numbers of \<open>kernel/netdevmgm.c\<close>: the array \<open>netdev_minors_used\<close>
  maps a minor to the pid of the daemon process that owns the device, \<open>-1\<close> marking a
  free entry, and \<open>netdev_max_minor\<close> bounds the search for a free one.  Modelled are
  \<open>ndmgm_prepare\<close>, \<open>ndmgm_get_minor\<close>, \<open>ndmgm_put_minor\<close> and
  \<open>ndmgm_find_pid\<close>.
\<close>

section \<open>Operations\<close>

definition load_minors :: "i32 list kprog" where
  [kexec]: "load_minors s = (case netdev_minors_used s of None \<Rightarrow> Inl NullDeref | Some u \<Rightarrow> Inr (u, s))"

text \<open>
  \<open>ndmgm_prepare\<close>: the result of \<open>kcalloc\<close> is used unchecked by the loop that
  writes \<open>-1\<close> everywhere.
\<close>

fun minors_clear :: "nat \<Rightarrow> i32 list \<Rightarrow> i32 list" where
  "minors_clear 0 u = u"
| "minors_clear (Suc n) u = (minors_clear n u)[n := - 1]"

definition ndmgm_prepare :: "unit kprog" where
  "ndmgm_prepare = bindK getK (\<lambda>s.
     if alloc_ok s (tick s)
     then modifyK (\<lambda>s. s\<lparr>tick := Suc (tick s),
            netdev_minors_used := Some (minors_clear NETDEV_MAX_DEVICES (replicate NETDEV_MAX_DEVICES 0)),
            netdev_max_minor := 0, netdev_htable := hash_init\<rparr>)
     else failK NullDeref)"

text \<open>The loop \<open>for (i = 0; i <= netdev_max_minor+1; i++)\<close> up to its \<open>break\<close>;
  the value is the index of the free entry, or \<open>-1\<close> when the loop runs out.\<close>

function minor_scan :: "i32 list \<Rightarrow> nat \<Rightarrow> nat \<Rightarrow> fault + int" where
  "minor_scan u i hi =
     (if hi < i then Inr (- 1)
      else if length u \<le> i then Inl OutOfBounds
      else if u ! i = - 1 then Inr (int i)
      else minor_scan u (Suc i) hi)"
  by pat_completeness auto
termination
  by (relation "measure (\<lambda>(u, i, hi). Suc hi - i)") auto

declare minor_scan.simps [simp del]

definition ndmgm_get_minor :: "i32 \<Rightarrow> int kprog" where
  "ndmgm_get_minor pid = bindK minor_write_trylock (\<lambda>ok.
     if \<not> ok then returnK (- 1)
     else bindK getK (\<lambda>s.
       if netdev_max_minor s = NETDEV_MAX_DEVICES
       then thenK minor_up_read (returnK (- 1))
       else bindK load_minors (\<lambda>u.
         case minor_scan u 0 (netdev_max_minor s + 1) of
           Inl e \<Rightarrow> failK e
         | Inr minor \<Rightarrow>
             thenK (if minor \<ge> 0
                    then modifyK (\<lambda>s. s\<lparr>netdev_minors_used := Some (u[nat minor := pid]),
                                         netdev_max_minor := max (netdev_max_minor s) (nat minor)\<rparr>)
                    else returnK ())
             (thenK minor_up_write (returnK minor)))))"

text \<open>The loop \<open>for (i = minor; i > 0; i--)\<close> that recomputes the maximum.\<close>

fun minor_lower :: "i32 list \<Rightarrow> nat \<Rightarrow> nat \<Rightarrow> nat" where
  "minor_lower u 0 m = m"
| "minor_lower u (Suc i) m = minor_lower u i (if u ! Suc i \<noteq> - 1 then Suc i else m)"

definition ndmgm_put_minor :: "nat \<Rightarrow> unit kprog" where
  "ndmgm_put_minor minor = bindK minor_write_trylock (\<lambda>ok.
     if \<not> ok then returnK ()
     else bindK load_minors (\<lambda>u.
       if length u \<le> minor then failK OutOfBounds
       else let v = u[minor := - 1] in
         thenK (modifyK (\<lambda>s. s\<lparr>netdev_minors_used := Some v,
                  netdev_max_minor := (if minor = netdev_max_minor s then minor_lower v minor (netdev_max_minor s)
                                       else netdev_max_minor s)\<rparr>))
         minor_up_write))"

definition ndmgm_find_pid :: "nat \<Rightarrow> i32 kprog" where
  "ndmgm_find_pid minor = bindK minor_read_trylock (\<lambda>ok.
     if \<not> ok then returnK (- 1)
     else bindK load_minors (\<lambda>u.
       if length u \<le> minor then failK OutOfBounds
       else thenK minor_up_read (returnK (u ! minor))))"

section \<open>The search loop\<close>

lemma minor_scan_found:
  assumes "u ! i = - 1" and "i < length u" and "i \<le> hi" and "\<forall>j. k \<le> j \<and> j < i \<longrightarrow> u ! j \<noteq> - 1" and "k \<le> i"
  shows "minor_scan u k hi = Inr (int i)"
  using assms(4,5)
proof (induction "i - k" arbitrary: k)
  case 0
  then have "k = i" by simp
  with assms(1-3) show ?case by (subst minor_scan.simps) simp
next
  case (Suc n)
  then have "k < i" by simp
  with Suc have "minor_scan u (Suc k) hi = Inr (int i)" by simp
  moreover have "u ! k \<noteq> - 1" using Suc.prems \<open>k < i\<close> by simp
  ultimately show ?case using assms(2,3) \<open>k < i\<close> by (subst minor_scan.simps) simp
qed

lemma minor_scan_none:
  assumes "\<forall>j. k \<le> j \<and> j \<le> hi \<longrightarrow> u ! j \<noteq> - 1" and "hi < length u"
  shows "minor_scan u k hi = Inr (- 1)"
  using assms(1)
proof (induction "Suc hi - k" arbitrary: k)
  case 0
  then show ?case by (subst minor_scan.simps) simp
next
  case (Suc n)
  then have "minor_scan u (Suc k) hi = Inr (- 1)" by simp
  with Suc assms(2) show ?case by (subst minor_scan.simps) auto
qed

lemma minor_scan_past_end:
  assumes "\<forall>j. k \<le> j \<and> j < length u \<longrightarrow> u ! j \<noteq> - 1" and "length u \<le> hi" and "k \<le> length u"
  shows "minor_scan u k hi = Inl OutOfBounds"
  using assms(1,3)
proof (induction "length u - k" arbitrary: k)
  case 0
  then show ?case using assms(2) by (subst minor_scan.simps) simp
next
  case (Suc n)
  then have "k < length u" by simp
  with Suc have "minor_scan u (Suc k) hi = Inl OutOfBounds" by simp
  with Suc \<open>k < length u\<close> assms(2) show ?case by (subst minor_scan.simps) auto
qed

lemma minor_scan_SomeD:
  "minor_scan u k hi = Inr m \<Longrightarrow> 0 \<le> m \<Longrightarrow> k \<le> nat m \<and> nat m \<le> hi \<and> nat m < length u \<and> u ! nat m = - 1"
proof (induction u k hi rule: minor_scan.induct)
  case (1 u i hi)
  from "1.prems" show ?case
    by (subst (asm) minor_scan.simps) (auto split: if_splits dest: "1.IH" Suc_leD)
qed

lemma minor_lower_least:
  assumes "\<forall>j. 0 < j \<and> j \<le> i \<longrightarrow> u ! j = - 1"
  shows "minor_lower u i m = m"
  using assms by (induction i arbitrary: m) auto

lemma minor_lower_le: "i \<le> k \<Longrightarrow> m \<le> k \<Longrightarrow> minor_lower u i m \<le> k"
  by (induction i arbitrary: m) auto

lemma minor_lower_found:
  assumes "u ! k \<noteq> - 1" and "0 < k" and "k \<le> i" and "\<forall>j. 0 < j \<and> j < k \<longrightarrow> u ! j = - 1"
  shows "minor_lower u i m = k"
  using assms(3)
proof (induction i arbitrary: m)
  case 0
  then show ?case using assms(2) by simp
next
  case (Suc i)
  show ?case
  proof (cases "k = Suc i")
    case True
    with assms(1,4) show ?thesis by (simp add: minor_lower_least)
  next
    case False
    with Suc show ?thesis by simp
  qed
qed

section \<open>The operations on a free lock\<close>

lemma minor_scan_lowest:
  "minor_scan u k hi = Inr m \<Longrightarrow> 0 \<le> m \<Longrightarrow> k \<le> j \<Longrightarrow> j < nat m \<Longrightarrow> u ! j \<noteq> - 1"
proof (induction u k hi rule: minor_scan.induct)
  case (1 u i hi)
  show ?case
  proof (cases "j = i")
    case True
    with "1.prems" show ?thesis by (subst (asm) minor_scan.simps) (auto split: if_splits)
  next
    case False
    with "1.prems" have "Suc i \<le> j" and "minor_scan u (Suc i) hi = Inr m"
      and "\<not> hi < i" and "\<not> length u \<le> i" and "u ! i \<noteq> - 1"
      by (subst (asm) minor_scan.simps, auto split: if_splits)+
    with "1.IH" "1.prems" show ?thesis by blast
  qed
qed

lemma sem_free_write: "sem_free\<lparr>writer := False\<rparr> = sem_free"
  by (simp add: sem_free_def)

lemma sem_free_read: "sem_free\<lparr>readers := 0\<rparr> = sem_free"
  by (simp add: sem_free_def)

lemmas minor_exec = kexec sem_free_write sem_free_read

lemma get_minor_locked:
  "netdev_minor_sem s \<noteq> sem_free \<Longrightarrow> ndmgm_get_minor pid s = Inr (- 1, s)"
  by (cases "netdev_minor_sem s") (auto simp: ndmgm_get_minor_def kexec sem_free_def)

lemma get_minor_run:
  assumes "netdev_minor_sem s = sem_free" and "netdev_minors_used s = Some u"
    and "netdev_max_minor s \<noteq> NETDEV_MAX_DEVICES"
  shows "ndmgm_get_minor pid s =
    (case minor_scan u 0 (netdev_max_minor s + 1) of
       Inl e \<Rightarrow> Inl e
     | Inr m \<Rightarrow> Inr (m, if 0 \<le> m
         then s\<lparr>netdev_minors_used := Some (u[nat m := pid]),
                netdev_max_minor := max (netdev_max_minor s) (nat m)\<rparr>
         else s))"
  using assms
  by (auto simp: ndmgm_get_minor_def minor_exec split: sum.split intro!: kst.equality)

lemma get_minor_scan:
  assumes "netdev_minor_sem s = sem_free" and "netdev_minors_used s = Some u"
    and "netdev_max_minor s \<noteq> NETDEV_MAX_DEVICES" and "hi = netdev_max_minor s + 1"
  shows "minor_scan u 0 hi = Inl e \<Longrightarrow> ndmgm_get_minor pid s = Inl e"
    and "minor_scan u 0 hi = Inr (- 1) \<Longrightarrow> ndmgm_get_minor pid s = Inr (- 1, s)"
    and "minor_scan u 0 hi = Inr (int i) \<Longrightarrow> ndmgm_get_minor pid s = Inr (int i,
      s\<lparr>netdev_minors_used := Some (u[i := pid]), netdev_max_minor := max (netdev_max_minor s) i\<rparr>)"
  using assms(4) by (simp_all add: get_minor_run[OF assms(1-3)])

lemma get_minor_found:
  assumes "netdev_minor_sem s = sem_free" and "netdev_minors_used s = Some u"
    and "netdev_max_minor s < NETDEV_MAX_DEVICES" and "length u = NETDEV_MAX_DEVICES"
    and "i \<le> netdev_max_minor s + 1" and "i < NETDEV_MAX_DEVICES" and "u ! i = - 1"
    and "\<forall>j<i. u ! j \<noteq> - 1"
  shows "ndmgm_get_minor pid s = Inr (int i,
    s\<lparr>netdev_minors_used := Some (u[i := pid]), netdev_max_minor := max (netdev_max_minor s) i\<rparr>)"
  using assms minor_scan_found[of u i "netdev_max_minor s + 1" 0]
  by (simp add: get_minor_run)

lemma put_minor_run:
  assumes "netdev_minor_sem s = sem_free" and "netdev_minors_used s = Some u" and "i < length u"
  shows "ndmgm_put_minor i s = Inr ((), s\<lparr>netdev_minors_used := Some (u[i := - 1]),
    netdev_max_minor := (if i = netdev_max_minor s then minor_lower (u[i := - 1]) i i else netdev_max_minor s)\<rparr>)"
  using assms
  by (auto simp: ndmgm_put_minor_def minor_exec Let_def intro!: kst.equality)

lemma find_pid_run:
  assumes "netdev_minor_sem s = sem_free" and "netdev_minors_used s = Some u" and "i < length u"
  shows "ndmgm_find_pid i s = Inr (u ! i, s)"
  using assms by (auto simp: ndmgm_find_pid_def minor_exec intro!: kst.equality)

lemma put_minor_frame [kframe]:
  "ndmgm_put_minor i s = Inr (x, t) \<Longrightarrow>
     heap t = heap s \<and> netdev_htable t = netdev_htable s \<and> trace t = trace s \<and>
     netdev_htable_sem t = netdev_htable_sem s \<and> next_addr t = next_addr s"
  by (auto simp: ndmgm_put_minor_def kexec Let_def split: if_splits option.splits)

text \<open>What a successful reservation says about the state it started from.\<close>

lemma get_minor_SomeE:
  assumes "ndmgm_get_minor pid s = Inr (m, t)" and "0 \<le> m"
  obtains u where "netdev_minor_sem s = sem_free" and "netdev_minors_used s = Some u"
    and "nat m < length u" and "u ! nat m = - 1" and "\<forall>j<nat m. u ! j \<noteq> - 1"
    and "t = s\<lparr>netdev_minors_used := Some (u[nat m := pid]), netdev_max_minor := max (netdev_max_minor s) (nat m)\<rparr>"
proof -
  from assms have free: "netdev_minor_sem s = sem_free"
    using get_minor_locked[of s pid] by fastforce
  from assms free have lim: "netdev_max_minor s \<noteq> NETDEV_MAX_DEVICES"
    by (auto simp: ndmgm_get_minor_def kexec)
  from assms free lim obtain u where u: "netdev_minors_used s = Some u"
    by (cases "netdev_minors_used s") (auto simp: ndmgm_get_minor_def minor_exec)
  from assms get_minor_run[OF free u lim, of pid]
  have scan: "minor_scan u 0 (netdev_max_minor s + 1) = Inr m"
    and t: "t = s\<lparr>netdev_minors_used := Some (u[nat m := pid]), netdev_max_minor := max (netdev_max_minor s) (nat m)\<rparr>"
    by (auto split: sum.splits)
  show thesis
    using that[OF free u _ _ _ t] minor_scan_SomeD[OF scan assms(2)] minor_scan_lowest[OF scan assms(2)] by auto
qed

lemma minor_scan_ge: "minor_scan u k hi = Inr m \<Longrightarrow> - 1 \<le> m"
proof (induction u k hi rule: minor_scan.induct)
  case (1 u i hi)
  from "1.prems" show ?case
    by (subst (asm) minor_scan.simps) (auto split: if_splits dest: "1.IH")
qed

lemma get_minor_none:
  assumes "ndmgm_get_minor pid s = Inr (m, t)" and "m < 0"
  shows "m = - 1 \<and> t = s"
proof (cases "netdev_minor_sem s = sem_free")
  case False
  with assms get_minor_locked[OF False, of pid] show ?thesis by simp
next
  case True
  with assms have lim: "netdev_max_minor s \<noteq> NETDEV_MAX_DEVICES"
    by (auto simp: ndmgm_get_minor_def kexec)
  with assms True obtain u where u: "netdev_minors_used s = Some u"
    by (cases "netdev_minors_used s") (auto simp: ndmgm_get_minor_def minor_exec)
  from assms get_minor_run[OF True u lim, of pid]
  have "minor_scan u 0 (netdev_max_minor s + 1) = Inr m" "t = s" by (auto split: sum.splits if_splits)
  with assms(2) minor_scan_ge show ?thesis by fastforce
qed

text \<open>A state with the minors 0 and 1 taken, for the examples.\<close>

definition minors_ready :: kst where
  "minors_ready = kst0\<lparr>netdev_minors_used := Some ([7, 9] @ replicate 30 (- 1)), netdev_max_minor := 1\<rparr>"

lemma minors_ready_run:
  "ndmgm_get_minor 11 minors_ready = Inr (2,
     minors_ready\<lparr>netdev_minors_used := Some (([7, 9] @ replicate 30 (- 1))[2 := 11]), netdev_max_minor := 2\<rparr>)"
proof -
  have scan: "minor_scan ([7, 9] @ replicate 30 (- 1)) 0 2 = Inr 2"
    by code_simp
  have "ndmgm_get_minor 11 minors_ready = Inr (int 2,
     minors_ready\<lparr>netdev_minors_used := Some (([7, 9] @ replicate 30 (- 1))[2 := 11]),
                  netdev_max_minor := max (netdev_max_minor minors_ready) 2\<rparr>)"
    using scan by (intro get_minor_scan(3)[where hi = 2])
      (simp_all add: minors_ready_def kst0_def NETDEV_MAX_DEVICES_def)
  then show ?thesis by (simp add: minors_ready_def)
qed

text \<open>The array of a driver with every minor in use, and one whose first \<open>n + 1\<close> are.\<close>

definition minors_prefix :: "nat \<Rightarrow> i32 list" where
  "minors_prefix n = replicate n 7 @ replicate (NETDEV_MAX_DEVICES - n) (- 1)"

lemma length_minors_prefix [simp]: "n \<le> NETDEV_MAX_DEVICES \<Longrightarrow> length (minors_prefix n) = NETDEV_MAX_DEVICES"
  by (simp add: minors_prefix_def)

lemma nth_minors_prefix:
  "n \<le> NETDEV_MAX_DEVICES \<Longrightarrow> i < NETDEV_MAX_DEVICES \<Longrightarrow> minors_prefix n ! i = (if i < n then 7 else - 1)"
  by (simp add: minors_prefix_def nth_append)

text \<open>A driver whose minors \<open>0..n-1\<close> are in use.\<close>

definition minors_state :: "nat \<Rightarrow> kst" where
  "minors_state n = kst0\<lparr>netdev_minors_used := Some (minors_prefix n), netdev_max_minor := n - 1\<rparr>"

lemma minors_state_simps [simp]:
  "netdev_minor_sem (minors_state n) = sem_free"
  "netdev_minors_used (minors_state n) = Some (minors_prefix n)"
  "netdev_max_minor (minors_state n) = n - 1"
  by (simp_all add: minors_state_def kst0_def)

section \<open>Properties\<close>

text \<open>
  C20.  A minor that \<open>ndmgm_get_minor\<close> hands out was free: the call reserves the lowest
  free entry of \<open>netdev_minors_used\<close> for the caller's pid, changes no other entry, keeps
  the bound an upper bound of the entry, and releases the lock.  No assumption is made on the
  state, so this also covers a bound left wrong by \<open>ndmgm_put_minor\<close>.
\<close>

theorem get_minor_reserves_lowest_free:
  assumes "ndmgm_get_minor pid s = Inr (m, t)" and "0 \<le> m"
  shows "\<exists>u. netdev_minors_used s = Some u \<and> nat m < length u \<and> u ! nat m = - 1 \<and>
    (\<forall>j<nat m. u ! j \<noteq> - 1) \<and>
    t = s\<lparr>netdev_minors_used := Some (u[nat m := pid]), netdev_max_minor := max (netdev_max_minor s) (nat m)\<rparr>"
  using assms by (elim get_minor_SomeE) auto

lemma get_minor_reserves_lowest_free_witness:
  "\<exists>t. ndmgm_get_minor 11 minors_ready = Inr (2, t) \<and> netdev_max_minor t = 2 \<and>
    netdev_minors_used t = Some (([7, 9] @ replicate 30 (- 1))[2 := 11])"
  using get_minor_reserves_lowest_free[OF minors_ready_run] minors_ready_run
  by (auto simp: minors_ready_def)

text \<open>
  C21.  Reserving a minor and looking it up agree: right after \<open>ndmgm_get_minor\<close> succeeds,
  \<open>ndmgm_find_pid\<close> answers the pid it was reserved for, and giving it back with
  \<open>ndmgm_put_minor\<close> restores every entry of the array.
\<close>

theorem get_minor_find_put_roundtrip:
  assumes "ndmgm_get_minor pid s = Inr (m, t)" and "0 \<le> m"
  shows "ndmgm_find_pid (nat m) t = Inr (pid, t) \<and>
    (\<exists>v. ndmgm_put_minor (nat m) t = Inr ((), v) \<and> netdev_minors_used v = netdev_minors_used s)"
  using assms
proof (rule get_minor_SomeE)
  fix u
  assume u: "netdev_minor_sem s = sem_free" "netdev_minors_used s = Some u" "nat m < length u" "u ! nat m = - 1"
    and t: "t = s\<lparr>netdev_minors_used := Some (u[nat m := pid]), netdev_max_minor := max (netdev_max_minor s) (nat m)\<rparr>"
  have "u[nat m := pid, nat m := - 1] = u" using u by (simp add: list_update_same_conv)
  then show ?thesis
    using u t find_pid_run[of t "u[nat m := pid]" "nat m"] put_minor_run[of t "u[nat m := pid]" "nat m"]
    by simp
qed

lemma get_minor_find_put_roundtrip_witness:
  "\<exists>t. ndmgm_get_minor 11 minors_ready = Inr (2, t) \<and> ndmgm_find_pid 2 t = Inr (11, t)"
  using get_minor_find_put_roundtrip[OF minors_ready_run] minors_ready_run by auto

text \<open>
  When the device limit is reached the search does not report it: with all 32 entries
  taken the guard \<open>netdev_max_minor == NETDEV_MAX_DEVICES\<close> is still false (the largest
  minor is 31), and the loop goes on to read \<open>netdev_minors_used[32]\<close>, one past the end.
\<close>

theorem get_minor_full_reads_past_end:
  assumes "netdev_minor_sem s = sem_free" and "netdev_minors_used s = Some u"
    and "length u = NETDEV_MAX_DEVICES" and "\<forall>j<NETDEV_MAX_DEVICES. u ! j \<noteq> - 1"
    and "netdev_max_minor s = NETDEV_MAX_DEVICES - 1"
  shows "ndmgm_get_minor pid s = Inl OutOfBounds"
proof -
  have "minor_scan u 0 (netdev_max_minor s + 1) = Inl OutOfBounds"
    using assms by (intro minor_scan_past_end) (auto simp: NETDEV_MAX_DEVICES_def)
  with assms show ?thesis
    by (intro get_minor_scan(1)[where u = u and hi = "netdev_max_minor s + 1"]) (auto simp: NETDEV_MAX_DEVICES_def)
qed

lemma get_minor_full_reads_past_end_witness:
  "ndmgm_get_minor 11 (minors_state 32) = Inl OutOfBounds"
  by (rule get_minor_full_reads_past_end[where u = "minors_prefix 32"])
    (auto simp: NETDEV_MAX_DEVICES_def nth_minors_prefix)

text \<open>
  Releasing the highest minor can hide free ones.  The loop of \<open>ndmgm_put_minor\<close>
  has no \<open>break\<close>, so it leaves the bound at the \<open>lowest\<close> used minor above 0 instead
  of the highest.  With the minors \<open>0..n\<close> in use (\<open>n >= 3\<close>), giving back \<open>n\<close>
  sets the bound to 1, and the next \<open>ndmgm_get_minor\<close>, which then only looks at 0, 1 and
  2, fails although the minors \<open>n..31\<close> are free.
\<close>

theorem put_minor_hides_free_minors:
  assumes "netdev_minor_sem s = sem_free" and "netdev_minors_used s = Some u"
    and "length u = NETDEV_MAX_DEVICES" and "3 \<le> n" and "n < NETDEV_MAX_DEVICES"
    and "\<forall>j<n. u ! j \<noteq> - 1" and "netdev_max_minor s = n"
  shows "\<exists>t. ndmgm_put_minor n s = Inr ((), t) \<and> netdev_minors_used t = Some (u[n := - 1]) \<and>
    netdev_max_minor t = 1 \<and> ndmgm_get_minor pid t = Inr (- 1, t)"
proof -
  let ?v = "u[n := - 1]"
  let ?t = "s\<lparr>netdev_minors_used := Some ?v, netdev_max_minor := 1\<rparr>"
  have "minor_lower ?v n n = 1"
    using assms by (intro minor_lower_found) auto
  then have put: "ndmgm_put_minor n s = Inr ((), ?t)"
    using assms by (simp add: put_minor_run)
  have "minor_scan ?v 0 2 = Inr (- 1)"
    using assms by (intro minor_scan_none) (auto simp: NETDEV_MAX_DEVICES_def)
  then have "ndmgm_get_minor pid ?t = Inr (- 1, ?t)"
    using assms by (intro get_minor_scan(2)[where u = ?v and hi = 2]) (simp_all add: NETDEV_MAX_DEVICES_def)
  with put show ?thesis by simp
qed

lemma put_minor_hides_free_minors_witness:
  "\<exists>t. ndmgm_put_minor 3 (minors_state 4) = Inr ((), t) \<and> netdev_max_minor t = 1 \<and>
    ndmgm_get_minor 11 t = Inr (- 1, t)"
proof -
  have "\<forall>j<3. minors_prefix 4 ! j \<noteq> - 1"
    by (simp add: nth_minors_prefix NETDEV_MAX_DEVICES_def)
  then show ?thesis
    using put_minor_hides_free_minors[of "minors_state 4" "minors_prefix 4" 3 11]
    by (auto simp: NETDEV_MAX_DEVICES_def)
qed

end
