(* ===== verification/Access.thy ===== *)
theory Access
  imports Minors
begin

text \<open>
  The open files of \<open>kernel/fo_access.c\<close>: one \<open>fo_access\<close> per process and
  device, kept in the device's table, and in it the queue of requests that wait for a reply.
  \<open>ndmgm_find_acc\<close> of \<open>kernel/netdevmgm.c\<close>, which looks an open file up,
  is here too.
\<close>

section \<open>The request queue\<close>

text \<open>
  \<open>kfifo_alloc\<close> is given \<open>NETDEV_FO_QUEUE_SIZE\<close> bytes, and a request is
  queued as one pointer of 8 bytes, so the queue holds 8 requests; \<open>kfifo_in\<close> copies
  nothing into a full queue.
\<close>

definition kfifo_capacity :: nat where
  "kfifo_capacity = NETDEV_FO_QUEUE_SIZE div 8"

definition kfifo_in :: "'a list \<Rightarrow> 'a \<Rightarrow> 'a list" where
  "kfifo_in q x = (if length q < kfifo_capacity then q @ [x] else q)"

definition kfifo_out :: "'a list \<Rightarrow> ('a \<times> 'a list) option" where
  "kfifo_out q = (case q of [] \<Rightarrow> None | x # xs \<Rightarrow> Some (x, xs))"

locale bounded_queue =
  fixes qin :: "'q \<Rightarrow> 'a \<Rightarrow> 'q" and qout :: "'q \<Rightarrow> ('a \<times> 'q) option"
    and items :: "'q \<Rightarrow> 'a list" and cap :: nat
  assumes items_in: "items (qin q x) = (if length (items q) < cap then items q @ [x] else items q)"
    and out_None: "qout q = None \<longleftrightarrow> items q = []"
    and out_Some: "qout q = Some (x, q') \<Longrightarrow> items q = x # items q'"
begin

lemma in_full: "cap \<le> length (items q) \<Longrightarrow> items (qin q x) = items q"
  by (simp add: items_in)

lemma in_bound: "length (items q) \<le> cap \<Longrightarrow> length (items (qin q x)) \<le> cap"
  by (simp add: items_in)

text \<open>Taking the head and putting it back turns the queue by one.\<close>

lemma out_in_rotate:
  assumes "qout q = Some (x, q')" and "length (items q) \<le> cap"
  shows "items (qin q' x) = rotate1 (items q)"
  using out_Some[OF assms(1)] assms(2) by (auto simp: items_in)

lemma out_hd: "items q = x # xs \<Longrightarrow> \<exists>q'. qout q = Some (x, q') \<and> items q' = xs"
  by (metis list.distinct(1) list.inject not_None_eq out_None out_Some surj_pair)

end

interpretation kfifo: bounded_queue kfifo_in kfifo_out "\<lambda>q. q" kfifo_capacity
  by unfold_locales (auto simp: kfifo_in_def kfifo_out_def split: list.splits)

section \<open>Walking a chain\<close>

text \<open>\<open>hash_for_each_possible\<close> with a test that returns from the loop.\<close>

fun chain_find :: "(addr \<Rightarrow> bool kprog) \<Rightarrow> addr list \<Rightarrow> addr kprog" where
  "chain_find test [] = returnK NULL"
| "chain_find test (p # ps) = bindK (test p) (\<lambda>b. if b then returnK p else chain_find test ps)"

lemma chain_find_run:
  assumes "\<forall>p \<in> set ps. test p s = Inr (key p = k, s)"
  shows "chain_find test ps s = Inr (case find (\<lambda>p. key p = k) ps of None \<Rightarrow> NULL | Some p \<Rightarrow> p, s)"
  using assms by (induction ps) (auto simp: kexec)

section \<open>Operations\<close>

definition complete_req :: "addr \<Rightarrow> unit kprog" where
  [kexec]: "complete_req p = thenK (mod_req p (\<lambda>r. r\<lparr>comp_done := True\<rparr>)) (emit (Completed p))"

definition zero_acc :: fo_access where
  "zero_acc = \<lparr>access_id = 0, nddata = NULL, acc_filp = FNull, fo_queue = [], fifo_buf = NULL, acc_sem = sem_free\<rparr>"

definition ndmgm_find_acc :: "addr \<Rightarrow> i32 \<Rightarrow> addr kprog" where
  "ndmgm_find_acc nd aid = bindK (dev_read_trylock nd) (\<lambda>ok.
     if \<not> ok then returnK NULL
     else bindK getK (\<lambda>s. bindK (get_dev nd) (\<lambda>d.
       bindK (chain_find (\<lambda>p. bindK (get_acc p) (\<lambda>a. returnK (access_id a = aid)))
                (hash_possible (hash_min s) aid (foacc_htable d))) (\<lambda>acc.
       thenK (dev_up_read nd) (returnK acc)))))"

text \<open>The label \<open>err\<close> of \<open>fo_acc_start\<close>.\<close>

definition fo_acc_start_err :: "addr \<Rightarrow> addr \<Rightarrow> addr kprog" where
  "fo_acc_start_err nd acc = bindK (get_dev nd) (\<lambda>d. bindK (get_acc acc) (\<lambda>a.
     thenK (if dummy d then kfree (fifo_buf a) else returnK ())
     (thenK (kfree acc) (returnK NULL))))"

definition fo_acc_start :: "addr \<Rightarrow> i32 \<Rightarrow> addr kprog" where
  "fo_acc_start nd pid =
    (if nd = NULL then returnK NULL
     else bindK (kalloc (OAcc zero_acc)) (\<lambda>acc.
       if acc = NULL then returnK NULL
       else bindK (get_dev nd) (\<lambda>d.
         bindK (if dummy d
                then bindK (kalloc (OBuf (replicate NETDEV_FO_QUEUE_SIZE 0))) (\<lambda>b.
                       thenK (mod_acc acc (\<lambda>a. a\<lparr>fifo_buf := b\<rparr>)) (returnK (b \<noteq> NULL)))
                else returnK True) (\<lambda>queue_ok.
         if \<not> queue_ok then fo_acc_start_err nd acc
         else thenK (mod_acc acc (\<lambda>a. a\<lparr>acc_sem := sem_free, access_id := pid, nddata := nd\<rparr>))
           (bindK (dev_write_trylock nd) (\<lambda>ok.
              if \<not> ok then fo_acc_start_err nd acc
              else bindK getK (\<lambda>s.
                thenK (mod_dev nd (\<lambda>d. d\<lparr>foacc_htable := hash_add (hash_min s) pid acc (foacc_htable d)\<rparr>))
                (thenK (ndmgm_get nd)
                (thenK (dev_up_write nd) (returnK acc))))))))))"

definition fo_acc_destroy :: "addr \<Rightarrow> unit kprog" where
  "fo_acc_destroy acc = bindK (get_acc acc) (\<lambda>a.
     thenK (dev_down_write (nddata a))
     (thenK (mod_dev (nddata a) (\<lambda>d. d\<lparr>foacc_htable := hash_del acc (foacc_htable d)\<rparr>))
     (thenK (ndmgm_put (nddata a))
     (thenK (dev_up_write (nddata a))
     (bindK (get_dev (nddata a)) (\<lambda>d.
        thenK (if dummy d then kfree (fifo_buf a) else returnK ())
        (kfree acc)))))))"

text \<open>The loop of \<open>fo_acc_free_queue\<close>; the failing exit leaves the lock held.\<close>

fun acc_drain :: "addr \<Rightarrow> addr list \<Rightarrow> i32 kprog" where
  "acc_drain acc [] = thenK (acc_up_write acc) (returnK 0)"
| "acc_drain acc (req # q) = thenK (mod_acc acc (\<lambda>a. a\<lparr>fo_queue := q\<rparr>))
     (if IS_ERR req then returnK 1
      else thenK (mod_req req (\<lambda>r. r\<lparr>rvalue := - ENODATA\<rparr>))
        (thenK (complete_req req) (acc_drain acc q)))"

definition fo_acc_free_queue :: "addr \<Rightarrow> i32 kprog" where
  "fo_acc_free_queue acc = thenK (acc_down_write acc)
     (bindK (get_acc acc) (\<lambda>a. acc_drain acc (fo_queue a)))"

text \<open>
  The loop of \<open>fo_acc_foreq_find\<close>, with the local variables \<open>req\<close> (the first
  element taken, the intended stopper) and \<open>tmp\<close>.  Nothing in its text bounds the number
  of rounds, so it is a partial function; \<open>seq_of\<close> reads a queued request's number.
\<close>

partial_function (option) foreq_loop ::
  "(addr \<Rightarrow> fault + i64) \<Rightarrow> i64 \<Rightarrow> addr \<Rightarrow> addr \<Rightarrow> addr list \<Rightarrow> (addr list \<times> (fault + addr)) option" where
  "foreq_loop seq_of sq req tmp q =
     (case kfifo_out q of
        None \<Rightarrow> Some (q, Inr tmp)
      | Some (tmp', q') \<Rightarrow>
          if IS_ERR tmp' then Some (q', Inr NULL)
          else (case seq_of tmp' of
              Inl e \<Rightarrow> Some (q', Inl e)
            | Inr v \<Rightarrow>
                if v = sq then Some (q', Inr tmp')
                else if (if req = NULL then tmp' else req) = tmp' then Some (kfifo_in q' tmp', Inr NULL)
                else foreq_loop seq_of sq (if req = NULL then tmp' else req) tmp' (kfifo_in q' tmp')))"

definition seq_at :: "kst \<Rightarrow> addr \<Rightarrow> fault + i64" where
  "seq_at s p = (case get_req p s of Inl e \<Rightarrow> Inl e | Inr (r, _) \<Rightarrow> Inr (seq r))"

definition fo_acc_foreq_find :: "addr \<Rightarrow> i32 \<Rightarrow> addr kprog" where
  "fo_acc_foreq_find acc sq = bindK (acc_write_trylock acc) (\<lambda>ok.
     if \<not> ok then returnK NULL
     else bindK getK (\<lambda>s. bindK (get_acc acc) (\<lambda>a.
       case foreq_loop (seq_at s) (scast sq) NULL NULL (fo_queue a) of
         None \<Rightarrow> failK Diverges
       | Some (q, Inl e) \<Rightarrow> failK e
       | Some (q, Inr p) \<Rightarrow> thenK (mod_acc acc (\<lambda>a. a\<lparr>fo_queue := q\<rparr>))
           (thenK (acc_up_write acc) (returnK p)))))"

definition fo_acc_foreq_add :: "addr \<Rightarrow> addr \<Rightarrow> i32 kprog" where
  "fo_acc_foreq_add acc req = bindK (acc_write_trylock acc) (\<lambda>ok.
     if \<not> ok then returnK 1
     else thenK (mod_acc acc (\<lambda>a. a\<lparr>fo_queue := kfifo_in (fo_queue a) req\<rparr>))
       (thenK (acc_up_write acc) (returnK 0)))"

section \<open>Finding the request of a reply\<close>

lemma foreq_loop_empty: "foreq_loop f sq req tmp [] = Some ([], Inr tmp)"
  by (simp add: foreq_loop.simps kfifo_out_def)

lemma foreq_loop_cons:
  assumes "f p = Inr v" and "p < ADDR_LIMIT"
  shows "foreq_loop f sq NULL tmp (p # ps) =
    Some (if v = sq then (ps, Inr p) else (kfifo_in ps p, Inr NULL))"
  using assms by (subst foreq_loop.simps) (simp add: kfifo_out_def not_IS_ERR)

definition pending_ok :: "kst \<Rightarrow> addr list \<Rightarrow> bool" where
  "pending_ok s q \<longleftrightarrow> length q \<le> kfifo_capacity \<and>
     (\<forall>p \<in> set q. 0 < p \<and> p < ADDR_LIMIT \<and> (\<exists>r. heap s p = Some (OReq r)))"

definition req_at :: "kst \<Rightarrow> addr \<Rightarrow> fo_req" where
  "req_at s p = (case heap s p of Some (OReq r) \<Rightarrow> r)"

lemma seq_at_req: "0 < p \<Longrightarrow> heap s p = Some (OReq r) \<Longrightarrow> seq_at s p = Inr (seq r)"
  by (simp add: seq_at_def)

text \<open>The state with the queue of \<open>acc\<close> replaced.\<close>

definition with_queue :: "kst \<Rightarrow> addr \<Rightarrow> fo_access \<Rightarrow> addr list \<Rightarrow> kst" where
  "with_queue s acc a q = s\<lparr>heap := (heap s)(acc \<mapsto> OAcc (a\<lparr>fo_queue := q\<rparr>))\<rparr>"

lemma acc_eqI: "acc_sem a = sem_free \<Longrightarrow> a\<lparr>acc_sem := sem_free\<rparr> = a"
  by simp

lemma acc_free_cycle: "acc_sem a = sem_free \<Longrightarrow> acc_sem_update (\<lambda>_. sem_free\<lparr>writer := False\<rparr>) a = a"
  by (simp add: sem_free_write)

lemma foreq_find_run:
  assumes acc: "0 < acc" "heap s acc = Some (OAcc a)" and sem: "acc_sem a = sem_free"
    and ok: "pending_ok s (fo_queue a)"
  shows "fo_acc_foreq_find acc sq s =
    (case fo_queue a of
       [] \<Rightarrow> Inr (NULL, s)
     | p # ps \<Rightarrow> if seq (req_at s p) = scast sq then Inr (p, with_queue s acc a ps)
                 else Inr (NULL, with_queue s acc a (ps @ [p])))"
proof (cases "fo_queue a")
  case Nil
  then show ?thesis
    using acc sem by (simp add: fo_acc_foreq_find_def kflow acc_write_trylock_def acc_up_write_def lock_exec
        foreq_loop_empty fun_upd_idem sem_free_write acc_eqI)
next
  case (Cons p ps)
  with ok obtain r where p: "0 < p" "p < ADDR_LIMIT" "heap s p = Some (OReq r)"
    by (auto simp: pending_ok_def)
  then have "p \<noteq> acc" using acc by auto
  from Cons ok have room: "kfifo_in ps p = ps @ [p]"
    by (simp add: kfifo_in_def pending_ok_def)
  have r: "req_at s p = r" using p by (simp add: req_at_def)
  show ?thesis
    using acc sem p \<open>p \<noteq> acc\<close>
    by (simp add: fo_acc_foreq_find_def kflow acc_write_trylock_def acc_up_write_def lock_exec Cons
        foreq_loop_cons[where v = "seq r"] seq_at_req room r with_queue_def sem_free_write acc_eqI)
qed

lemma foreq_add_run:
  assumes "0 < acc" "heap s acc = Some (OAcc a)" "acc_sem a = sem_free"
  shows "fo_acc_foreq_add acc req s = Inr (0, with_queue s acc a (kfifo_in (fo_queue a) req))"
  using assms by (simp add: fo_acc_foreq_add_def kflow acc_write_trylock_def acc_up_write_def lock_exec
      with_queue_def sem_free_write acc_eqI)

lemma foreq_add_locked:
  "0 < acc \<Longrightarrow> heap s acc = Some (OAcc a) \<Longrightarrow> acc_sem a \<noteq> sem_free \<Longrightarrow> fo_acc_foreq_add acc req s = Inr (1, s)"
  by (cases "acc_sem a") (auto simp: fo_acc_foreq_add_def kflow acc_write_trylock_def lock_exec sem_free_def)

section \<open>Starting and destroying an open file\<close>

text \<open>What a started \<open>fo_access\<close> looks like, and the device it was added to.\<close>

definition new_acc :: "addr \<Rightarrow> i32 \<Rightarrow> addr \<Rightarrow> fo_access" where
  "new_acc nd pid b = zero_acc\<lparr>fifo_buf := b, access_id := pid, nddata := nd\<rparr>"

definition dev_with_acc :: "kst \<Rightarrow> i32 \<Rightarrow> addr \<Rightarrow> netdev_data \<Rightarrow> netdev_data" where
  "dev_with_acc s pid acc d = d\<lparr>foacc_htable := hash_add (hash_min s) pid acc (foacc_htable d), users := users d + 1\<rparr>"

lemma zero_acc_sem [simp]: "acc_sem zero_acc = sem_free"
  by (simp add: zero_acc_def)

lemma nd_free_cycle: "nd_sem d = sem_free \<Longrightarrow> d\<lparr>nd_sem := sem_free\<rparr> = d"
  by simp

lemma dev_sem_same:
  "nd_sem d = l \<Longrightarrow> d\<lparr>foacc_htable := x, users := u, nd_sem := l\<rparr> = d\<lparr>foacc_htable := x, users := u\<rparr>"
  by simp

lemma acc_start_server:
  assumes "heap_ok s" "heap s nd = Some (ODev d)" "nd_sem d = sem_free" "\<not> dummy d" "can_alloc s"
  shows "fo_acc_start nd pid s = Inr (next_addr s, s\<lparr>heap := (heap s)(next_addr s \<mapsto> OAcc (new_acc nd pid NULL),
      nd \<mapsto> ODev (dev_with_acc s pid (next_addr s) d)), next_addr := Suc (next_addr s), tick := Suc (tick s)\<rparr>)"
proof -
  have "0 < nd" "nd \<noteq> next_addr s" "0 < next_addr s"
    using assms heap_ok_fresh[of s "next_addr s"] by (auto simp: heap_ok_def)
  with assms show ?thesis
    by (simp add: fo_acc_start_def kflow kalloc_def dev_write_trylock_def dev_up_write_def lock_exec ndmgm_get_def
        new_acc_def dev_with_acc_def sem_free_write fun_upd_twist dev_sem_same zero_acc_def)
qed

lemma acc_start_dummy:
  assumes "heap_ok s" "heap s nd = Some (ODev d)" "nd_sem d = sem_free" "dummy d" "can_alloc s"
    and "alloc_ok s (Suc (tick s))" "Suc (next_addr s) < ADDR_LIMIT"
  shows "fo_acc_start nd pid s = Inr (next_addr s, s\<lparr>heap := (heap s)(next_addr s \<mapsto> OAcc (new_acc nd pid (Suc (next_addr s))),
      Suc (next_addr s) \<mapsto> OBuf (replicate NETDEV_FO_QUEUE_SIZE 0),
      nd \<mapsto> ODev (dev_with_acc s pid (next_addr s) d)), next_addr := Suc (Suc (next_addr s)), tick := Suc (Suc (tick s))\<rparr>)"
proof -
  have "0 < nd" "nd \<noteq> next_addr s" "nd \<noteq> Suc (next_addr s)" "0 < next_addr s"
    using assms heap_ok_fresh[of s "next_addr s"] heap_ok_fresh[of s "Suc (next_addr s)"] by (auto simp: heap_ok_def)
  with assms show ?thesis
    by (simp add: fo_acc_start_def kflow kalloc_def can_alloc_def dev_write_trylock_def dev_up_write_def lock_exec ndmgm_get_def
        new_acc_def dev_with_acc_def sem_free_write fun_upd_twist dev_sem_same zero_acc_def)
qed

text \<open>Every other outcome: nothing is registered and everything allocated on the way is released.\<close>

lemma acc_start_fails:
  assumes ok: "heap_ok s" "heap s nd = Some (ODev d)"
    and bad: "\<not> can_alloc s \<or> dummy d \<and> \<not> (alloc_ok s (Suc (tick s)) \<and> Suc (next_addr s) < ADDR_LIMIT) \<or> nd_sem d \<noteq> sem_free"
  shows "\<exists>t. fo_acc_start nd pid s = Inr (NULL, t) \<and> heap t = heap s"
proof -
  have nd: "0 < nd" "nd \<noteq> next_addr s" "nd \<noteq> Suc (next_addr s)" "0 < next_addr s"
    "heap s (next_addr s) = None" "heap s (Suc (next_addr s)) = None"
    using ok heap_ok_fresh[of s "next_addr s"] heap_ok_fresh[of s "Suc (next_addr s)"] by (auto simp: heap_ok_def)
  have nofree: "write_trylock (nd_sem d) = None" if "nd_sem d \<noteq> sem_free"
    using that by (simp add: write_trylock_free)
  show ?thesis
  proof (cases "can_alloc s")
    case False
    with ok nd show ?thesis by (simp add: fo_acc_start_def kflow kalloc_def)
  next
    case True
    show ?thesis
    proof (cases "dummy d \<and> \<not> (alloc_ok s (Suc (tick s)) \<and> Suc (next_addr s) < ADDR_LIMIT)")
      case True
      with \<open>can_alloc s\<close> ok nd show ?thesis
        by (auto simp: fo_acc_start_def fo_acc_start_err_def kflow kalloc_def can_alloc_def kfree_def zero_acc_def fun_upd_idem)
    next
      case False
      with bad True have "nd_sem d \<noteq> sem_free" by blast
      with False True ok nd show ?thesis
        by (cases "dummy d") (auto simp: fo_acc_start_def fo_acc_start_err_def kflow kalloc_def can_alloc_def kfree_def
            zero_acc_def dev_write_trylock_def nofree fun_upd_idem fun_upd_twist)
    qed
  qed
qed

lemma acc_destroy_run:
  assumes "0 < acc" "heap s acc = Some (OAcc a)" "nddata a = nd" "0 < nd" "heap s nd = Some (ODev d)"
    and "nd_sem d = sem_free" "dummy d \<Longrightarrow> fifo_buf a \<noteq> 0 \<and> heap s (fifo_buf a) \<noteq> None"
    and "fifo_buf a \<noteq> acc" "fifo_buf a \<noteq> nd"
  shows "fo_acc_destroy acc s = Inr ((), s\<lparr>heap := (if dummy d then (heap s)(fifo_buf a := None) else heap s)
      (nd \<mapsto> ODev (d\<lparr>foacc_htable := hash_del acc (foacc_htable d), users := users d - 1\<rparr>), acc := None)\<rparr>)"
proof -
  have "acc \<noteq> nd" using assms by auto
  with assms show ?thesis
    by (auto simp: fo_acc_destroy_def kflow dev_down_write_def dev_up_write_def lock_exec ndmgm_put_def kfree_def
        sem_free_write fun_upd_twist dev_sem_same)
qed

section \<open>The table of open files as a map\<close>

text \<open>
  The abstract view of a device's table: which \<open>fo_access\<close> a process id is mapped to.
  It is the lookup of the chain contract at the key stored in the objects.
\<close>

definition acc_key :: "kst \<Rightarrow> addr \<Rightarrow> i32" where
  "acc_key s p = (case heap s p of Some (OAcc a) \<Rightarrow> access_id a | _ \<Rightarrow> 0)"

definition open_files :: "kst \<Rightarrow> netdev_data \<Rightarrow> i32 \<Rightarrow> addr option" where
  "open_files s d = chains.lookup (hash_min s) (acc_key s) (foacc_htable d)"

definition accs_ok :: "kst \<Rightarrow> netdev_data \<Rightarrow> bool" where
  "accs_ok s d \<longleftrightarrow> (\<forall>b. \<forall>p \<in> set (foacc_htable d b). \<exists>a. heap s p = Some (OAcc a))"

lemma accs_okD: "accs_ok s d \<Longrightarrow> p \<in> set (foacc_htable d b) \<Longrightarrow> \<exists>a. heap s p = Some (OAcc a)"
  by (auto simp: accs_ok_def)

lemma accs_ok_all: "accs_ok s d \<Longrightarrow> p \<in> set (hash_all (foacc_htable d)) \<Longrightarrow> \<exists>a. heap s p = Some (OAcc a)"
  by (auto simp: accs_ok_def set_hash_all)

lemma accs_ok_fresh: "accs_ok s d \<Longrightarrow> heap s q = None \<Longrightarrow> q \<notin> set (foacc_htable d b)"
  by (fastforce simp: accs_ok_def)

lemma find_acc_run:
  assumes ok: "heap_ok s" "heap s nd = Some (ODev d)" "\<not> writer (nd_sem d)" "accs_ok s d"
  shows "ndmgm_find_acc nd aid s =
    Inr (case open_files s d aid of None \<Rightarrow> NULL | Some p \<Rightarrow> p, s)"
proof -
  let ?d = "d\<lparr>nd_sem := nd_sem d\<lparr>readers := Suc (readers (nd_sem d))\<rparr>\<rparr>"
  let ?s = "s\<lparr>heap := (heap s)(nd \<mapsto> ODev ?d)\<rparr>"
  let ?test = "\<lambda>p. bindK (get_acc p) (\<lambda>a. returnK (access_id a = aid))"
  let ?chain = "hash_possible (hash_min s) aid (foacc_htable d)"
  have nd: "0 < nd" using ok(1,2) by (rule heap_ok_pos)
  have "?test p ?s = Inr (acc_key s p = aid, ?s)" if "p \<in> set ?chain" for p
  proof -
    from that ok(4) obtain a where a: "heap s p = Some (OAcc a)"
      by (auto simp: hash_possible_def dest: accs_okD)
    moreover from this ok(1) have "0 < p" by (rule heap_ok_pos[rotated])
    moreover from a ok(2) have "p \<noteq> nd" by auto
    ultimately show ?thesis by (simp add: kflow acc_key_def)
  qed
  then have walk: "chain_find ?test ?chain ?s = Inr (case open_files s d aid of None \<Rightarrow> NULL | Some p \<Rightarrow> p, ?s)"
    by (subst chain_find_run[where key = "acc_key s"]) (simp_all add: open_files_def chains.lookup_def)
  show ?thesis
    using ok nd walk
    by (simp add: ndmgm_find_acc_def bindK_def thenK_def getK_def returnK_def dev_read_trylock_def dev_up_read_def
        read_trylock_def read_unlock_def fun_upd_idem)
qed

lemma open_files_start:
  assumes "accs_ok s d" and "\<And>p a. heap s p = Some (OAcc a) \<Longrightarrow> heap t p = Some (OAcc a)"
    and "hash_min t = hash_min s" and "heap t acc = Some (OAcc a)" and "access_id a = pid"
  shows "open_files t (dev_with_acc s pid acc d) = (open_files s d)(pid \<mapsto> acc)"
proof -
  have key: "acc_key t acc = pid" using assms(4,5) by (simp add: acc_key_def)
  have "acc_key t p = acc_key s p" if p: "p \<in> set (hash_all (foacc_htable d))" for p
    using accs_ok_all[OF assms(1) p] assms(2) by (auto simp: acc_key_def)
  then have "chains.lookup (hash_min s) (acc_key t) (foacc_htable d) = chains.lookup (hash_min s) (acc_key s) (foacc_htable d)"
    by (intro chains.lookup_cong) blast
  then show ?thesis
    using chains.lookup_add[of "hash_min s" "acc_key t" acc "foacc_htable d"] key assms(3)
    by (simp add: open_files_def dev_with_acc_def)
qed

text \<open>Both kinds of success in one statement: \<open>b\<close> is the queue buffer, if there is one.\<close>

lemma acc_start_SomeE:
  assumes ok: "heap_ok s" "heap s nd = Some (ODev d)"
    and run: "fo_acc_start nd pid s = Inr (acc, t)" and "acc \<noteq> NULL"
  obtains b where "acc = next_addr s" "nd_sem d = sem_free" "can_alloc s"
    "\<not> dummy d \<Longrightarrow> b = NULL \<and> heap t = (heap s)(acc \<mapsto> OAcc (new_acc nd pid b), nd \<mapsto> ODev (dev_with_acc s pid acc d))"
    "dummy d \<Longrightarrow> b = Suc acc \<and> heap t = (heap s)(acc \<mapsto> OAcc (new_acc nd pid b),
        b \<mapsto> OBuf (replicate NETDEV_FO_QUEUE_SIZE 0), nd \<mapsto> ODev (dev_with_acc s pid acc d))"
    "hash_min t = hash_min s"
proof -
  from acc_start_fails[OF ok, of pid] assms(3,4)
  have good: "can_alloc s" "dummy d \<Longrightarrow> alloc_ok s (Suc (tick s)) \<and> Suc (next_addr s) < ADDR_LIMIT" "nd_sem d = sem_free"
    by force+
  show thesis
  proof (cases "dummy d")
    case True
    with ok good acc_start_dummy[of s nd d pid] run that[of "Suc acc"] show ?thesis by simp
  next
    case False
    with ok good acc_start_server[of s nd d pid] run that[of NULL] show ?thesis by simp
  qed
qed

section \<open>Draining the queue\<close>

definition failed_req :: "fo_req \<Rightarrow> fo_req" where
  "failed_req r = r\<lparr>rvalue := - ENODATA, comp_done := True\<rparr>"

definition drained :: "kst \<Rightarrow> addr list \<Rightarrow> addr \<Rightarrow> obj option" where
  "drained s q p = (if p \<in> set q then map_option (\<lambda>_. OReq (failed_req (req_at s p))) (heap s p) else heap s p)"

lemma drained_Nil [simp]: "drained s [] = heap s"
  by (simp add: drained_def fun_eq_iff)

lemma acc_queue_same: "fo_queue a = [] \<Longrightarrow> a\<lparr>fo_queue := [], acc_sem := l\<rparr> = a\<lparr>acc_sem := l\<rparr>"
  by simp

lemma acc_sem_same: "acc_sem a = l \<Longrightarrow> a\<lparr>fo_queue := q, acc_sem := l\<rparr> = a\<lparr>fo_queue := q\<rparr>"
  by simp

lemma acc_drain_run:
  assumes "0 < acc" "heap s acc = Some (OAcc a)" "acc_sem a = sem_free\<lparr>writer := True\<rparr>" "fo_queue a = q"
    and "distinct q" "\<forall>p \<in> set q. 0 < p \<and> p < ADDR_LIMIT \<and> (\<exists>r. heap s p = Some (OReq r))"
  shows "acc_drain acc q s = Inr (0, s\<lparr>heap := (drained s q)(acc \<mapsto> OAcc (a\<lparr>fo_queue := [], acc_sem := sem_free\<rparr>)),
    trace := trace s @ map Completed q\<rparr>)"
  using assms
proof (induction q arbitrary: s a)
  case Nil
  then show ?case
    by (simp add: kflow acc_up_write_def lock_exec sem_free_write fun_upd_def acc_queue_same)
next
  case (Cons p q)
  then obtain r where r: "0 < p" "p < ADDR_LIMIT" "heap s p = Some (OReq r)" "p \<notin> set q" by auto
  then have "p \<noteq> acc" using Cons.prems(2) by auto
  let ?a = "a\<lparr>fo_queue := q\<rparr>"
  let ?s = "s\<lparr>heap := (heap s)(acc \<mapsto> OAcc ?a, p \<mapsto> OReq (failed_req r)), trace := trace s @ [Completed p]\<rparr>"
  have step: "acc_drain acc (p # q) s = acc_drain acc q ?s"
    using Cons.prems(1,2) r \<open>p \<noteq> acc\<close>
    by (simp add: kflow complete_req_def not_IS_ERR failed_req_def)
  have accq: "acc \<notin> set q" using Cons.prems(2,6) by auto
  have "acc_drain acc q ?s = Inr (0, ?s\<lparr>heap := (drained ?s q)(acc \<mapsto> OAcc (?a\<lparr>fo_queue := [], acc_sem := sem_free\<rparr>)),
      trace := trace ?s @ map Completed q\<rparr>)"
    using Cons.prems \<open>p \<noteq> acc\<close> r(4) accq by (intro Cons.IH) auto
  moreover have "(drained ?s q)(acc \<mapsto> x) = (drained s (p # q))(acc \<mapsto> x)" for x
    using r \<open>p \<noteq> acc\<close> accq by (auto simp: drained_def fun_eq_iff req_at_def)
  ultimately show ?case using step by (simp add: fun_upd_def)
qed

lemma free_queue_run:
  assumes "0 < acc" "heap s acc = Some (OAcc a)" "acc_sem a = sem_free"
    and "distinct (fo_queue a)" "pending_ok s (fo_queue a)"
  shows "fo_acc_free_queue acc s = Inr (0, s\<lparr>heap := (drained s (fo_queue a))(acc \<mapsto> OAcc (a\<lparr>fo_queue := []\<rparr>)),
    trace := trace s @ map Completed (fo_queue a)\<rparr>)"
proof -
  let ?a = "a\<lparr>acc_sem := sem_free\<lparr>writer := True\<rparr>\<rparr>"
  let ?s = "s\<lparr>heap := (heap s)(acc \<mapsto> OAcc ?a)\<rparr>"
  have accq: "acc \<notin> set (fo_queue a)" using assms(2,5) by (auto simp: pending_ok_def)
  have "fo_acc_free_queue acc s = acc_drain acc (fo_queue a) ?s"
    using assms(1-3) by (simp add: fo_acc_free_queue_def kflow acc_down_write_def lock_exec)
  also have "\<dots> = Inr (0, ?s\<lparr>heap := (drained ?s (fo_queue a))(acc \<mapsto> OAcc (?a\<lparr>fo_queue := [], acc_sem := sem_free\<rparr>)),
      trace := trace ?s @ map Completed (fo_queue a)\<rparr>)"
    using assms accq by (intro acc_drain_run) (auto simp: pending_ok_def)
  also have "(drained ?s (fo_queue a))(acc \<mapsto> x) = (drained s (fo_queue a))(acc \<mapsto> x)" for x
    using accq by (auto simp: drained_def fun_eq_iff req_at_def)
  finally show ?thesis using assms(3) by (simp add: fun_upd_def acc_sem_same)
qed

section \<open>Properties\<close>

text \<open>
  C34.  \<open>fo_acc_foreq_find\<close> only ever looks at the request at the head of the queue: if
  that is the one a reply is for, it is taken out and returned; if not, it is put at the end of the
  queue and the search gives up, whatever else is queued.  (The first element is remembered
  as a stopper and compared in the same round in which it was taken.)
\<close>

theorem foreq_find_examines_head_only:
  assumes "0 < acc" "heap s acc = Some (OAcc a)" "acc_sem a = sem_free" "pending_ok s (fo_queue a)"
  shows "fo_acc_foreq_find acc sq s =
    (case fo_queue a of
       [] \<Rightarrow> Inr (NULL, s)
     | p # ps \<Rightarrow> if seq (req_at s p) = scast sq then Inr (p, with_queue s acc a ps)
                 else Inr (NULL, with_queue s acc a (rotate1 (p # ps))))"
  using foreq_find_run[OF assms, of sq] by (simp split: list.split)

text \<open>Two requests, numbered 1 and 2, in the queue of an open file.\<close>

definition req0 :: fo_req where
  "req0 = \<lparr>seq = 0, msgtype = 0, req_access_id = 0, args = NULL, data = NULL, size = 0, data_size = 0,
     rvalue = - 1, comp_done = False\<rparr>"

definition two_pending :: kst where
  "two_pending = kst0\<lparr>heap := [1 \<mapsto> OAcc (zero_acc\<lparr>fo_queue := [2, 3]\<rparr>), 2 \<mapsto> OReq (req0\<lparr>seq := 1\<rparr>),
     3 \<mapsto> OReq (req0\<lparr>seq := 2\<rparr>)], next_addr := 4\<rparr>"

lemma two_pending_ok:
  "heap two_pending 1 = Some (OAcc (zero_acc\<lparr>fo_queue := [2, 3]\<rparr>))" "pending_ok two_pending [2, 3]"
  "seq (req_at two_pending 2) = 1" "seq (req_at two_pending 3) = 2"
  by (simp_all add: two_pending_def pending_ok_def kfifo_capacity_def NETDEV_FO_QUEUE_SIZE_def ADDR_LIMIT_def req_at_def)

lemma foreq_find_examines_head_only_witness:
  "\<exists>t. fo_acc_foreq_find 1 2 two_pending = Inr (NULL, t) \<and>
    heap t 1 = Some (OAcc (zero_acc\<lparr>fo_queue := [3, 2]\<rparr>)) \<and> seq (req_at two_pending 3) = 2"
  using foreq_find_examines_head_only[of 1 two_pending "zero_acc\<lparr>fo_queue := [2, 3]\<rparr>" 2] two_pending_ok
  by (simp add: with_queue_def)

text \<open>
  A request added to an empty queue is the one the next search for its number returns, and
  the pair leaves the state as it was.
\<close>

theorem foreq_add_then_find:
  assumes "0 < acc" "heap s acc = Some (OAcc a)" "acc_sem a = sem_free" "fo_queue a = []"
    and "0 < req" "req < ADDR_LIMIT" "heap s req = Some (OReq r)" "seq r = scast sq"
  shows "\<exists>t. fo_acc_foreq_add acc req s = Inr (0, t) \<and> fo_acc_foreq_find acc sq t = Inr (req, s)"
proof -
  let ?a = "a\<lparr>fo_queue := [req]\<rparr>"
  let ?t = "s\<lparr>heap := (heap s)(acc \<mapsto> OAcc ?a)\<rparr>"
  have "req \<noteq> acc" using assms(2,7) by auto
  have add: "fo_acc_foreq_add acc req s = Inr (0, ?t)"
    using foreq_add_run[OF assms(1-3), of req] assms(4)
    by (simp add: with_queue_def kfifo_in_def kfifo_capacity_def NETDEV_FO_QUEUE_SIZE_def)
  have "pending_ok ?t (fo_queue ?a)" "req_at ?t req = r"
    using assms \<open>req \<noteq> acc\<close> by (auto simp: pending_ok_def req_at_def kfifo_capacity_def NETDEV_FO_QUEUE_SIZE_def)
  then have "fo_acc_foreq_find acc sq ?t = Inr (req, with_queue ?t acc ?a [])"
    using assms foreq_find_run[of acc ?t ?a sq] by simp
  moreover have "with_queue ?t acc ?a [] = s"
  proof -
    have "a\<lparr>fo_queue := []\<rparr> = a" using assms(4) by simp
    then show ?thesis using assms(2) by (simp add: with_queue_def fun_upd_idem)
  qed
  ultimately show ?thesis using add by simp
qed

definition none_pending :: kst where
  "none_pending = kst0\<lparr>heap := [1 \<mapsto> OAcc zero_acc, 2 \<mapsto> OReq (req0\<lparr>seq := 1\<rparr>)], next_addr := 3\<rparr>"

lemma foreq_add_then_find_witness:
  "\<exists>t. fo_acc_foreq_add 1 2 none_pending = Inr (0, t) \<and> fo_acc_foreq_find 1 1 t = Inr (2, none_pending)"
proof -
  have "fo_queue zero_acc = []" by (simp add: zero_acc_def)
  then show ?thesis
    using foreq_add_then_find[of 1 none_pending zero_acc 2 "req0\<lparr>seq := 1\<rparr>" 1]
    by (simp add: none_pending_def ADDR_LIMIT_def)
qed

text \<open>
  C35.  The queue holds 8 requests.  With 8 pending, \<open>fo_acc_foreq_add\<close> reports success
  but the request is not queued (the result of \<open>kfifo_in\<close> is not looked at), and no search
  returns it, whatever the reply's number.
\<close>

theorem foreq_add_full_drops_request:
  assumes "0 < acc" "heap s acc = Some (OAcc a)" "acc_sem a = sem_free" "pending_ok s (fo_queue a)"
    and "length (fo_queue a) = 8" "req \<notin> set (fo_queue a)" "req \<noteq> NULL"
  shows "fo_acc_foreq_add acc req s = Inr (0, s) \<and>
    (\<forall>sq p t. fo_acc_foreq_find acc sq s = Inr (p, t) \<longrightarrow> p \<noteq> req)"
proof
  have "with_queue s acc a (fo_queue a) = s"
    using assms(2) by (simp add: with_queue_def fun_upd_idem)
  then show "fo_acc_foreq_add acc req s = Inr (0, s)"
    using foreq_add_run[OF assms(1-3), of req] assms(5)
    by (simp add: kfifo_in_def kfifo_capacity_def NETDEV_FO_QUEUE_SIZE_def)
  show "\<forall>sq p t. fo_acc_foreq_find acc sq s = Inr (p, t) \<longrightarrow> p \<noteq> req"
    using foreq_find_run[OF assms(1-4)] assms(6,7) by (auto split: list.splits if_splits)
qed

definition eight_pending :: kst where
  "eight_pending = kst0\<lparr>heap := (\<lambda>p. if p = 1 then Some (OAcc (zero_acc\<lparr>fo_queue := [2..<10]\<rparr>))
     else if p \<in> {2..10} then Some (OReq (req0\<lparr>seq := of_nat p\<rparr>)) else None), next_addr := 11\<rparr>"

lemma foreq_add_full_drops_request_witness:
  "fo_acc_foreq_add 1 10 eight_pending = Inr (0, eight_pending) \<and>
    heap eight_pending 10 = Some (OReq (req0\<lparr>seq := 10\<rparr>))"
  using foreq_add_full_drops_request[of 1 eight_pending "zero_acc\<lparr>fo_queue := [2..<10]\<rparr>" 10]
  by (simp add: eight_pending_def pending_ok_def kfifo_capacity_def NETDEV_FO_QUEUE_SIZE_def ADDR_LIMIT_def)

text \<open>
  C33.  \<open>fo_acc_free_queue\<close> wakes every waiting operation with \<open>-ENODATA\<close>, in
  queue order, empties the queue and releases the lock.
\<close>

theorem free_queue_completes_all:
  assumes "0 < acc" "heap s acc = Some (OAcc a)" "acc_sem a = sem_free"
    and "distinct (fo_queue a)" "pending_ok s (fo_queue a)"
  shows "\<exists>t. fo_acc_free_queue acc s = Inr (0, t) \<and> heap t acc = Some (OAcc (a\<lparr>fo_queue := []\<rparr>)) \<and>
    trace t = trace s @ map Completed (fo_queue a) \<and>
    (\<forall>p. p \<in> set (fo_queue a) \<longrightarrow> rvalue (req_at t p) = - ENODATA \<and> comp_done (req_at t p))"
proof -
  let ?h = "(drained s (fo_queue a))(acc \<mapsto> OAcc (a\<lparr>fo_queue := []\<rparr>))"
  have "\<exists>r. ?h p = Some (OReq r) \<and> rvalue r = - ENODATA \<and> comp_done r" if "p \<in> set (fo_queue a)" for p
    using that assms(2,5) by (force simp: pending_ok_def drained_def failed_req_def)
  then show ?thesis
    using free_queue_run[OF assms] by (fastforce simp: req_at_def)
qed

lemma free_queue_completes_all_witness:
  "\<exists>t. fo_acc_free_queue 1 two_pending = Inr (0, t) \<and> trace t = [Completed 2, Completed 3]"
  using free_queue_completes_all[of 1 two_pending "zero_acc\<lparr>fo_queue := [2, 3]\<rparr>"] two_pending_ok
  by (auto simp: two_pending_def kst0_def)

text \<open>
  C18.  \<open>fo_acc_start\<close> is all or nothing.  Whatever fails (either allocation, or the
  device lock), it returns NULL and the heap is as before; otherwise the process id is mapped to the
  new \<open>fo_access\<close>, every other entry of the table is kept, and the device has one more
  user.
\<close>

theorem acc_start_all_or_nothing:
  assumes "heap_ok s" "heap s nd = Some (ODev d)" "accs_ok s d" "fo_acc_start nd pid s = Inr (acc, t)"
  shows "if acc = NULL then heap t = heap s
    else \<exists>d'. heap s acc = None \<and> heap t nd = Some (ODev d') \<and> users d' = users d + 1 \<and>
      open_files t d' = (open_files s d)(pid \<mapsto> acc)"
proof (cases "acc = NULL")
  case True
  have "heap t = heap s"
  proof (rule ccontr)
    assume "heap t \<noteq> heap s"
    with acc_start_fails[OF assms(1,2), of pid] assms(4)
    have good: "can_alloc s" "dummy d \<Longrightarrow> alloc_ok s (Suc (tick s)) \<and> Suc (next_addr s) < ADDR_LIMIT" "nd_sem d = sem_free"
      by force+
    moreover have "0 < next_addr s" using assms(1) by (simp add: heap_ok_def)
    ultimately show False
      using acc_start_dummy[OF assms(1,2), of pid] acc_start_server[OF assms(1,2), of pid] assms(4) True
      by (cases "dummy d") auto
  qed
  with True show ?thesis by simp
next
  case False
  from assms(1,2,4) False show ?thesis
  proof (rule acc_start_SomeE)
    fix b
    assume a: "acc = next_addr s" "can_alloc s" "hash_min t = hash_min s"
      and srv: "\<not> dummy d \<Longrightarrow> b = NULL \<and> heap t = (heap s)(acc \<mapsto> OAcc (new_acc nd pid b), nd \<mapsto> ODev (dev_with_acc s pid acc d))"
      and dum: "dummy d \<Longrightarrow> b = Suc acc \<and> heap t = (heap s)(acc \<mapsto> OAcc (new_acc nd pid b),
        b \<mapsto> OBuf (replicate NETDEV_FO_QUEUE_SIZE 0), nd \<mapsto> ODev (dev_with_acc s pid acc d))"
    have fresh: "heap s acc = None" "heap s (Suc acc) = None" "acc \<noteq> nd" "Suc acc \<noteq> nd"
      using assms(1,2) a(1) heap_ok_fresh[of s acc] heap_ok_fresh[of s "Suc acc"] by auto
    have "open_files t (dev_with_acc s pid acc d) = (open_files s d)(pid \<mapsto> acc)"
    proof (rule open_files_start[OF assms(3) _ a(3)])
      show "heap t acc = Some (OAcc (new_acc nd pid b))"
        using srv dum fresh by (cases "dummy d") auto
      show "access_id (new_acc nd pid b) = pid" by (simp add: new_acc_def)
      fix p x
      assume p: "heap s p = Some (OAcc x)"
      with fresh assms(2) have "p \<noteq> acc" "p \<noteq> Suc acc" "p \<noteq> nd" by auto
      with srv dum p show "heap t p = Some (OAcc x)" by (cases "dummy d") auto
    qed
    with fresh srv dum show ?thesis using False
      by (cases "dummy d") (auto simp: dev_with_acc_def)
  qed
qed

text \<open>A driver with one dummy device (owner pid 7, minor 0) and no open file.\<close>

definition dev0 :: netdev_data where
  "dev0 = \<lparr>nlpid = 7, active = True, dummy = True, devname = 2, users = 1, curseq = 0, nllock = False, cdev = 3, device = True,
     nd_sem = sem_free, queue_pool = 4, foacc_htable = hash_init\<rparr>"

definition one_device :: kst where
  "one_device = kst0\<lparr>heap := [1 \<mapsto> ODev dev0, 2 \<mapsto> OBuf (replicate 10 0), 3 \<mapsto> OCdev 0, 4 \<mapsto> OPool], next_addr := 5,
     netdev_htable := hash_add (\<lambda>k. unat k) (7 :: i32) 1 hash_init,
     netdev_minors_used := Some (7 # replicate 31 (- 1))\<rparr>"

lemma dev0_simps [simp]:
  "dummy dev0" "active dev0" "users dev0 = 1" "nd_sem dev0 = sem_free" "nlpid dev0 = 7" "devname dev0 = 2"
  "cdev dev0 = 3" "queue_pool dev0 = 4" "foacc_htable dev0 = hash_init" "curseq dev0 = 0"
  by (simp_all add: dev0_def)

lemma one_device_ok:
  "heap_ok one_device" "heap one_device 1 = Some (ODev dev0)" "accs_ok one_device dev0"
  "can_alloc one_device" "alloc_ok one_device 1" "tick one_device = 0" "next_addr one_device = 5"
  by (auto simp: one_device_def kst0_def heap_ok_def accs_ok_def dev0_def hash_init_def can_alloc_def ADDR_LIMIT_def
      split: if_splits)

lemma one_device_start:
  "fo_acc_start 1 42 one_device = Inr (5, one_device\<lparr>heap := (heap one_device)(5 \<mapsto> OAcc (new_acc 1 42 6),
      6 \<mapsto> OBuf (replicate NETDEV_FO_QUEUE_SIZE 0),
      1 \<mapsto> ODev (dev_with_acc one_device 42 5 dev0)), next_addr := 7, tick := Suc (Suc 0)\<rparr>)"
  using acc_start_dummy[OF one_device_ok(1,2), of 42] one_device_ok(4-7)
  by (simp add: ADDR_LIMIT_def)

lemma acc_start_all_or_nothing_witness:
  "\<exists>t d'. fo_acc_start 1 42 one_device = Inr (5, t) \<and> heap t 1 = Some (ODev d') \<and> users d' = 2 \<and>
    open_files t d' = (open_files one_device dev0)(42 \<mapsto> 5)"
  using acc_start_all_or_nothing[OF one_device_ok(1-3) one_device_start] one_device_start by auto

text \<open>
  \<open>ndmgm_find_acc\<close> is the lookup of the map, for any hash function: it answers the
  \<open>fo_access\<close> of the process id, or NULL when there is none, and changes nothing.
\<close>

theorem find_acc_is_map_lookup:
  assumes "heap_ok s" "heap s nd = Some (ODev d)" "\<not> writer (nd_sem d)" "accs_ok s d"
  shows "ndmgm_find_acc nd aid s = Inr (case open_files s d aid of None \<Rightarrow> NULL | Some p \<Rightarrow> p, s)"
  by (rule find_acc_run[OF assms])

lemma find_acc_is_map_lookup_witness:
  "ndmgm_find_acc 1 42 one_device = Inr (NULL, one_device)"
proof -
  have "open_files one_device dev0 42 = None"
    by (simp add: open_files_def chains.lookup_def hash_possible_def hash_init_def)
  then show ?thesis
    using find_acc_is_map_lookup[OF one_device_ok(1,2) _ one_device_ok(3), of 42] by simp
qed

text \<open>
  C19.  Opening and releasing a file leaves nothing behind: when \<open>fo_acc_start\<close> has
  succeeded, \<open>fo_acc_destroy\<close> on its result runs without a fault, and the heap
  (the reference count, the table, every allocation) is again what it was before.
\<close>

theorem acc_start_destroy_roundtrip:
  assumes "heap_ok s" "heap s nd = Some (ODev d)" "accs_ok s d" "fo_acc_start nd pid s = Inr (acc, t)" "acc \<noteq> NULL"
  shows "\<exists>v. fo_acc_destroy acc t = Inr ((), v) \<and> heap v = heap s"
  using assms(1,2,4,5)
proof (rule acc_start_SomeE)
  fix b
  assume a: "acc = next_addr s" "nd_sem d = sem_free"
    and srv: "\<not> dummy d \<Longrightarrow> b = NULL \<and> heap t = (heap s)(acc \<mapsto> OAcc (new_acc nd pid b), nd \<mapsto> ODev (dev_with_acc s pid acc d))"
    and dum: "dummy d \<Longrightarrow> b = Suc acc \<and> heap t = (heap s)(acc \<mapsto> OAcc (new_acc nd pid b),
      b \<mapsto> OBuf (replicate NETDEV_FO_QUEUE_SIZE 0), nd \<mapsto> ODev (dev_with_acc s pid acc d))"
  have fresh: "heap s acc = None" "heap s (Suc acc) = None" "acc \<noteq> nd" "Suc acc \<noteq> nd" "0 < acc" "0 < nd"
    using assms(1,2) a(1) heap_ok_fresh[of s acc] heap_ok_fresh[of s "Suc acc"] by (auto simp: heap_ok_def)
  have unlink: "hash_del acc (foacc_htable (dev_with_acc s pid acc d)) = foacc_htable d"
    using accs_ok_fresh[OF assms(3) fresh(1)] by (simp add: dev_with_acc_def hash_del_add)
  have same: "(dev_with_acc s pid acc d)\<lparr>foacc_htable := foacc_htable d, users := users d\<rparr> = d"
    by (simp add: dev_with_acc_def)
  have "fo_acc_destroy acc t = Inr ((), t\<lparr>heap := (if dummy d then (heap t)(b := None) else heap t)
      (nd \<mapsto> ODev d, acc := None)\<rparr>)"
    using acc_destroy_run[of acc t "new_acc nd pid b" nd "dev_with_acc s pid acc d"] srv dum fresh a(2) unlink same
    by (cases "dummy d") (auto simp: new_acc_def zero_acc_def dev_with_acc_def)
  moreover have "(if dummy d then (heap t)(b := None) else heap t)(nd \<mapsto> ODev d, acc := None) = heap s"
    using srv dum fresh assms(2) by (cases "dummy d") (auto simp: fun_eq_iff)
  ultimately show ?thesis by simp
qed

lemma acc_start_destroy_roundtrip_witness:
  "\<exists>t v. fo_acc_start 1 42 one_device = Inr (5, t) \<and> fo_acc_destroy 5 t = Inr ((), v) \<and> heap v = heap one_device"
  using acc_start_destroy_roundtrip[OF one_device_ok(1-3) one_device_start] one_device_start by auto

end
