(* ===== verification/Devices.thy ===== *)
theory Devices
  imports Access
begin

text \<open>
  Creation, lookup and destruction of devices (\<open>kernel/netdevmgm.c\<close>).  A device belongs to
  the daemon process that registered it and is found by that process's pid in
  \<open>netdev_htable\<close>.  A dummy device is the local end the user opens; a server device
  stands for a real device that is served to a remote machine.
\<close>

section \<open>Allocation and registration\<close>

definition zero_dev :: netdev_data where
  "zero_dev = \<lparr>nlpid = 0, active = False, dummy = False, devname = NULL, users = 0, curseq = 0, nllock = False, cdev = NULL,
     device = False, nd_sem = sem_free, queue_pool = NULL, foacc_htable = hash_init\<rparr>"

text \<open>The length of \<open>%d\<close> and the bytes of \<open>"/dev/"\<close>.\<close>

fun dec_digits :: "nat \<Rightarrow> nat" where
  "dec_digits n = (if n < 10 then 1 else Suc (dec_digits (n div 10)))"

declare dec_digits.simps [simp del]

definition DEV_PREFIX :: "byte list" where
  "DEV_PREFIX = [47, 100, 101, 118, 47]"

definition pool_name_cap :: nat where
  "pool_name_cap = 30"

text \<open>The three labels at the end of \<open>ndmgm_alloc_data\<close>, which fall through in this order.\<close>

definition alloc_free_nddata :: "addr \<Rightarrow> addr kprog" where
  "alloc_free_nddata nd = thenK (kfree nd) (returnK NULL)"

definition alloc_free_devname :: "addr \<Rightarrow> addr kprog" where
  "alloc_free_devname nd = bindK (get_dev nd) (\<lambda>d. thenK (kfree (devname d)) (alloc_free_nddata nd))"

definition alloc_free_cdev :: "addr \<Rightarrow> addr kprog" where
  "alloc_free_cdev nd = bindK (get_dev nd) (\<lambda>d. thenK (kfree (cdev d)) (alloc_free_devname nd))"

definition ndmgm_alloc_data :: "i32 \<Rightarrow> byte list \<Rightarrow> nat \<Rightarrow> addr kprog" where
  "ndmgm_alloc_data pid name minor =
     thenK (write_stack pool_name_cap (NETDEV_REQ_POOL_NAME_LEN + 1 + length name + dec_digits minor + 1))
     (bindK (kalloc (ODev zero_dev)) (\<lambda>nd.
      if nd = NULL then returnK NULL
      else bindK (kalloc (OBuf (replicate (length name + 1) 0))) (\<lambda>dn.
        thenK (mod_dev nd (\<lambda>d. d\<lparr>devname := dn\<rparr>))
        (if dn = NULL then alloc_free_devname nd
         else bindK (kalloc (OCdev 0)) (\<lambda>cd.
           thenK (mod_dev nd (\<lambda>d. d\<lparr>cdev := cd\<rparr>))
           (if cd = NULL then alloc_free_nddata nd
            else bindK kmem_cache_create (\<lambda>qp.
              thenK (mod_dev nd (\<lambda>d. d\<lparr>queue_pool := qp\<rparr>))
              (if qp = NULL then alloc_free_cdev nd
               else thenK (write_buf dn (DEV_PREFIX @ name @ [0]))
                 (thenK (mod_dev nd (\<lambda>d. d\<lparr>foacc_htable := hash_init, nd_sem := sem_free, nllock := False,
                                         curseq := 0, nlpid := pid, active := True\<rparr>))
                  (returnK nd))))))))))"

definition ndmgm_free_data :: "addr \<Rightarrow> unit kprog" where
  "ndmgm_free_data nd = bindK (get_dev nd) (\<lambda>d.
     thenK (kmem_cache_destroy (queue_pool d))
     (thenK (kfree (cdev d))
     (thenK (kfree (devname d))
     (kfree nd))))"

text \<open>\<open>hash_add\<close> and \<open>hash_del\<close> on the global table.\<close>

definition register_dev :: "i32 \<Rightarrow> addr \<Rightarrow> unit kprog" where
  [kexec]: "register_dev pid nd = modifyK (\<lambda>s. s\<lparr>netdev_htable := hash_add (hash_min s) pid nd (netdev_htable s)\<rparr>)"

definition unlink_dev :: "addr \<Rightarrow> unit kprog" where
  [kexec]: "unlink_dev nd = modifyK (\<lambda>s. s\<lparr>netdev_htable := hash_del nd (netdev_htable s)\<rparr>)"

definition get_cdev :: "addr \<Rightarrow> nat kprog" where
  [kexec]: "get_cdev p = bindK (load p) (\<lambda>x. case x of OCdev m \<Rightarrow> returnK m | _ \<Rightarrow> failK UseAfterFree)"

text \<open>
  \<open>ndmgm_create_dummy\<close>.  \<open>cdev_add\<close> answers an error number;
  \<open>device_create\<close> answers a device or an error pointer, here its error number or 0.
\<close>

definition ndmgm_create_dummy :: "i32 \<Rightarrow> byte list \<Rightarrow> i32 kprog" where
  "ndmgm_create_dummy pid name = bindK (ndmgm_get_minor pid) (\<lambda>minor.
     if minor = - 1 then returnK 1
     else bindK (ndmgm_alloc_data pid name (nat minor)) (\<lambda>nd.
       if nd = NULL then returnK 1
       else bindK (get_dev nd) (\<lambda>d.
         thenK (store (cdev d) (OCdev (nat minor)))
         (thenK (mod_dev nd (\<lambda>d. d\<lparr>dummy := True\<rparr>))
         (bindK ext_call (\<lambda>err.
            if err \<noteq> 0 then thenK (ndmgm_free_data nd) (returnK err)
            else thenK (emit (CdevAdd (nat minor)))
              (bindK ext_call (\<lambda>err.
                 if err \<noteq> 0
                 then thenK (emit (CdevDel (nat minor))) (thenK (ndmgm_free_data nd) (returnK err))
                 else thenK (emit (DeviceCreate (nat minor)))
                   (thenK (mod_dev nd (\<lambda>d. d\<lparr>device := True\<rparr>))
                   (thenK (ndmgm_get nd)
                   (thenK (register_dev pid nd)
                   (returnK 0))))))))))))"

definition ndmgm_create_server :: "i32 \<Rightarrow> byte list \<Rightarrow> i32 kprog" where
  "ndmgm_create_server pid name =
     thenK (write_stack pool_name_cap (NETDEV_REQ_POOL_NAME_LEN + 1 + length name + 1))
     (bindK (kalloc (ODev zero_dev)) (\<lambda>nd.
      if nd = NULL then returnK 1
      else bindK (kalloc (OBuf (replicate (length name + 1) 0))) (\<lambda>dn.
        thenK (mod_dev nd (\<lambda>d. d\<lparr>devname := dn\<rparr>))
        (if dn = NULL then thenK (kfree nd) (returnK 1)
         else bindK kmem_cache_create (\<lambda>qp.
           thenK (mod_dev nd (\<lambda>d. d\<lparr>queue_pool := qp\<rparr>))
           (if qp = NULL then thenK (kfree dn) (thenK (kfree nd) (returnK 1))
            else thenK (write_buf dn (name @ [0]))
              (thenK (mod_dev nd (\<lambda>d. d\<lparr>nd_sem := sem_free, nllock := False, curseq := 0,
                                      nlpid := pid, active := True, dummy := False\<rparr>))
              (thenK (ndmgm_get nd)
              (thenK (register_dev pid nd)
              (returnK 0))))))))))"

section \<open>Lookup\<close>

definition ndmgm_find :: "i32 \<Rightarrow> addr kprog" where
  "ndmgm_find pid =
    (if pid = - 1 then returnK NULL
     else bindK htable_read_trylock (\<lambda>ok.
       if \<not> ok then returnK NULL
       else bindK getK (\<lambda>s.
         bindK (chain_find (\<lambda>p. bindK (get_dev p) (\<lambda>d. returnK (nlpid d = pid)))
                  (hash_possible (hash_min s) pid (netdev_htable s))) (\<lambda>nd.
         thenK htable_up_read (returnK nd)))))"

section \<open>Destruction\<close>

text \<open>The loop of \<open>ndmgm_destroy_allacc\<close>; it unlinks the device's node, not the file's.\<close>

fun destroy_accs :: "addr \<Rightarrow> addr list \<Rightarrow> i32 kprog" where
  "destroy_accs nd [] = thenK htable_up_write (returnK 0)"
| "destroy_accs nd (acc # accs) = thenK (unlink_dev nd)
     (bindK (fo_acc_free_queue acc) (\<lambda>r.
        if r \<noteq> 0 then returnK 1
        else thenK (fo_acc_destroy acc) (destroy_accs nd accs)))"

definition ndmgm_destroy_allacc :: "addr \<Rightarrow> i32 kprog" where
  "ndmgm_destroy_allacc nd = bindK htable_write_trylock (\<lambda>ok.
     if \<not> ok then returnK 1
     else bindK (get_dev nd) (\<lambda>d. destroy_accs nd (hash_all (foacc_htable d))))"

definition ndmgm_destroy_dummy :: "addr \<Rightarrow> i32 kprog" where
  "ndmgm_destroy_dummy nd = bindK (dev_write_trylock nd) (\<lambda>ok.
     if \<not> ok then returnK 1
     else thenK (mod_dev nd (\<lambda>d. d\<lparr>active := False\<rparr>))
       (bindK (ndmgm_destroy_allacc nd) (\<lambda>r.
          if r \<noteq> 0 then thenK (dev_up_write nd) (returnK 1)
          else bindK (ndmgm_refs nd) (\<lambda>n.
            if 1 <s n then thenK (dev_up_write nd) (returnK 1)
            else bindK (get_dev nd) (\<lambda>d. bindK (get_cdev (cdev d)) (\<lambda>minor.
              thenK (emit (DeviceDestroy minor))
              (thenK (emit (CdevDel minor))
              (thenK (dev_up_write nd)
              (thenK (ndmgm_put_minor minor)
              (thenK (ndmgm_free_data nd)
              (returnK 0))))))))))) "

definition ndmgm_destroy_server :: "addr \<Rightarrow> i32 kprog" where
  "ndmgm_destroy_server nd = bindK (dev_write_trylock nd) (\<lambda>ok.
     if \<not> ok then returnK 1
     else thenK (mod_dev nd (\<lambda>d. d\<lparr>active := False\<rparr>))
       (bindK (ndmgm_refs nd) (\<lambda>n.
          if 1 <s n then thenK (dev_up_write nd) (returnK 1)
          else thenK (dev_up_write nd)
            (bindK (get_dev nd) (\<lambda>d.
               thenK (kmem_cache_destroy (queue_pool d))
               (thenK (kfree (devname d))
               (thenK (kfree nd)
               (returnK 0))))))))"

definition ndmgm_destroy :: "addr \<Rightarrow> i32 kprog" where
  "ndmgm_destroy nd =
    (if nd = NULL then returnK 1
     else bindK (get_dev nd) (\<lambda>d. if dummy d then ndmgm_destroy_dummy nd else ndmgm_destroy_server nd))"

definition ndmgm_find_destroy :: "i32 \<Rightarrow> i32 kprog" where
  "ndmgm_find_destroy pid = bindK (ndmgm_find pid) (\<lambda>nd.
     if nd = NULL then returnK 1
     else bindK htable_read_trylock (\<lambda>ok.
       thenK (if ok then thenK (unlink_dev nd) (thenK (ndmgm_put nd) htable_up_read) else returnK ())
       (ndmgm_destroy nd)))"

text \<open>The loop of \<open>ndmgm_end\<close>: a device that cannot be destroyed is only reported.\<close>

fun end_devices :: "addr list \<Rightarrow> unit kprog" where
  "end_devices [] = returnK ()"
| "end_devices (nd # nds) = thenK (unlink_dev nd)
     (thenK (ndmgm_put nd)
     (bindK (ndmgm_destroy nd) (\<lambda>_. end_devices nds)))"

definition ndmgm_end :: "i32 kprog" where
  "ndmgm_end = bindK htable_write_trylock (\<lambda>ok.
     if \<not> ok then returnK 1
     else bindK getK (\<lambda>s. thenK (end_devices (hash_all (netdev_htable s)))
       (thenK (modifyK (\<lambda>s. s\<lparr>netdev_minors_used := None\<rparr>))
       (thenK htable_up_write (returnK 0)))))"

section \<open>The allocation of a dummy device\<close>

definition alloc4 :: "kst \<Rightarrow> bool" where
  "alloc4 s \<longleftrightarrow> (\<forall>i<4. alloc_ok s (tick s + i)) \<and> next_addr s + 3 < ADDR_LIMIT"

lemma all_less_4: "(\<forall>i<4. P i) \<longleftrightarrow> P 0 \<and> P (Suc 0) \<and> P (Suc (Suc 0)) \<and> P (Suc (Suc (Suc 0)))"
  for P :: "nat \<Rightarrow> bool"
  by (auto simp: numeral_eq_Suc less_Suc_eq)

lemma alloc4_iff: "alloc4 s \<longleftrightarrow> alloc_ok s (tick s) \<and> alloc_ok s (Suc (tick s)) \<and> alloc_ok s (Suc (Suc (tick s))) \<and>
    alloc_ok s (Suc (Suc (Suc (tick s)))) \<and> Suc (Suc (Suc (next_addr s))) < ADDR_LIMIT"
  by (auto simp: alloc4_def all_less_4 numeral_3_eq_3)

text \<open>What the writes of \<open>ndmgm_alloc_data\<close> put past the end of their buffers.\<close>

definition stack_overrun :: "nat \<Rightarrow> kevent list" where
  "stack_overrun n = (if n \<le> pool_name_cap then [] else [Overrun (n - pool_name_cap)])"

definition alloc_name_len :: "byte list \<Rightarrow> nat \<Rightarrow> nat" where
  "alloc_name_len name m = NETDEV_REQ_POOL_NAME_LEN + 1 + length name + dec_digits m + 1"

definition fresh_dev :: "i32 \<Rightarrow> addr \<Rightarrow> netdev_data" where
  "fresh_dev pid nd = zero_dev\<lparr>active := True, nlpid := pid, devname := Suc nd, cdev := Suc (Suc nd), queue_pool := Suc (Suc (Suc nd))\<rparr>"

definition devname_buf :: "byte list \<Rightarrow> byte list" where
  "devname_buf name = take (length name + 1) (DEV_PREFIX @ name @ [0])"

lemma write_stack_run: "write_stack pool_name_cap n s = Inr ((), s\<lparr>trace := trace s @ stack_overrun n\<rparr>)"
  by (simp add: write_stack_def stack_overrun_def kflow)

lemma DEV_PREFIX_len [simp]: "length DEV_PREFIX = 5"
  by (simp add: DEV_PREFIX_def)

lemma fresh_heap:
  assumes "heap_ok s"
  shows "heap s (next_addr s) = None" "heap s (Suc (next_addr s)) = None" "heap s (Suc (Suc (next_addr s))) = None"
    "heap s (Suc (Suc (Suc (next_addr s)))) = None" "0 < next_addr s"
  using heap_ok_fresh[OF assms] assms by (auto simp: heap_ok_def)

lemma alloc_data_ok:
  assumes "heap_ok s" "alloc4 s" "nd = next_addr s"
  shows "ndmgm_alloc_data pid name m s = Inr (nd, s\<lparr>heap := (heap s)(nd \<mapsto> ODev (fresh_dev pid nd),
      Suc nd \<mapsto> OBuf (devname_buf name), Suc (Suc nd) \<mapsto> OCdev 0, Suc (Suc (Suc nd)) \<mapsto> OPool),
      next_addr := Suc (Suc (Suc (Suc nd))), tick := Suc (Suc (Suc (Suc (tick s)))),
      trace := trace s @ stack_overrun (alloc_name_len name m) @ [Overrun 5]\<rparr>)"
  using assms fresh_heap[OF assms(1)]
  by (simp add: ndmgm_alloc_data_def kflow kalloc_def can_alloc_def alloc4_iff kmem_cache_create_def write_stack_run
      write_buf_def alloc_name_len_def fresh_dev_def devname_buf_def fun_upd_twist zero_dev_def)

text \<open>
  The failing outcomes: NULL, and every allocation undone except when the third one (the
  \<open>struct cdev\<close>) fails, where the device name stays allocated.
\<close>

definition alloc_leak :: "kst \<Rightarrow> byte list \<Rightarrow> addr \<Rightarrow> obj option" where
  "alloc_leak s name = (if alloc_ok s (tick s) \<and> alloc_ok s (Suc (tick s)) \<and> Suc (next_addr s) < ADDR_LIMIT \<and>
      \<not> (alloc_ok s (Suc (Suc (tick s))) \<and> Suc (Suc (next_addr s)) < ADDR_LIMIT)
    then (heap s)(Suc (next_addr s) \<mapsto> OBuf (replicate (length name + 1) 0)) else heap s)"

text \<open>Everything but the memory, the clock and the trace is the same.\<close>

definition same_globals :: "kst \<Rightarrow> kst \<Rightarrow> bool" where
  "same_globals s t \<longleftrightarrow> netdev_htable t = netdev_htable s \<and> netdev_htable_sem t = netdev_htable_sem s \<and>
     netdev_minor_sem t = netdev_minor_sem s \<and> netdev_max_minor t = netdev_max_minor s \<and>
     netdev_minors_used t = netdev_minors_used s \<and> hash_min t = hash_min s"

lemma alloc_data_fails:
  assumes "heap_ok s" "\<not> alloc4 s"
  shows "\<exists>t. ndmgm_alloc_data pid name m s = Inr (NULL, t) \<and> heap t = alloc_leak s name \<and> same_globals s t"
proof -
  note fresh = fresh_heap[OF assms(1)]
  note code = ndmgm_alloc_data_def alloc_free_cdev_def alloc_free_devname_def alloc_free_nddata_def kflow kalloc_def
    can_alloc_def kmem_cache_create_def write_stack_run alloc_leak_def zero_dev_def same_globals_def
  consider (first) "\<not> can_alloc s"
    | (second) "can_alloc s" "\<not> (alloc_ok s (Suc (tick s)) \<and> Suc (next_addr s) < ADDR_LIMIT)"
    | (third) "can_alloc s" "alloc_ok s (Suc (tick s)) \<and> Suc (next_addr s) < ADDR_LIMIT"
        "\<not> (alloc_ok s (Suc (Suc (tick s))) \<and> Suc (Suc (next_addr s)) < ADDR_LIMIT)"
    | (fourth) "can_alloc s" "alloc_ok s (Suc (tick s)) \<and> Suc (next_addr s) < ADDR_LIMIT"
        "alloc_ok s (Suc (Suc (tick s))) \<and> Suc (Suc (next_addr s)) < ADDR_LIMIT"
        "\<not> (alloc_ok s (Suc (Suc (Suc (tick s)))) \<and> Suc (Suc (Suc (next_addr s))) < ADDR_LIMIT)"
    using assms(2) by (auto simp: alloc4_iff can_alloc_def)
  then show ?thesis
  proof cases
    case first
    then show ?thesis using fresh by (auto simp: code)
  next
    case second
    then show ?thesis using fresh by (auto simp: code fun_upd_idem)
  next
    case third
    then show ?thesis using fresh by (auto simp: code fun_upd_idem fun_upd_twist)
  next
    case fourth
    then show ?thesis using fresh by (auto simp: code fun_upd_idem fun_upd_twist)
  qed
qed

lemma free_data_run:
  assumes "heap s nd = Some (ODev d)" "0 < nd"
    and "heap s (queue_pool d) = Some x" "0 < queue_pool d" "heap s (devname d) = Some y" "0 < devname d"
    and "heap s (cdev d) = Some z" "0 < cdev d" "distinct [nd, queue_pool d, devname d, cdev d]"
  shows "ndmgm_free_data nd s = Inr ((), s\<lparr>heap := (heap s)
      (queue_pool d := None, cdev d := None, devname d := None, nd := None)\<rparr>)"
  using assms by (simp add: ndmgm_free_data_def kflow kmem_cache_destroy_def)

section \<open>Registration of a dummy device\<close>

definition dummy_dev :: "i32 \<Rightarrow> addr \<Rightarrow> netdev_data" where
  "dummy_dev pid nd = (fresh_dev pid nd)\<lparr>dummy := True, device := True, users := 1\<rparr>"

lemma fresh_dev_simps [simp]:
  "nlpid (fresh_dev pid nd) = pid" "devname (fresh_dev pid nd) = Suc nd" "cdev (fresh_dev pid nd) = Suc (Suc nd)"
  "queue_pool (fresh_dev pid nd) = Suc (Suc (Suc nd))" "users (fresh_dev pid nd) = 0"
  "foacc_htable (fresh_dev pid nd) = hash_init" "nd_sem (fresh_dev pid nd) = sem_free"
  by (simp_all add: fresh_dev_def zero_dev_def)

lemma create_dummy_ok:
  assumes "ndmgm_get_minor pid s = Inr (int m, s1)" "heap_ok s1" "alloc4 s1" "nd = next_addr s1"
    and "ext_ret s1 (Suc (Suc (Suc (Suc (tick s1))))) = 0" "ext_ret s1 (Suc (Suc (Suc (Suc (Suc (tick s1)))))) = 0"
  shows "ndmgm_create_dummy pid name s = Inr (0, s1\<lparr>heap := (heap s1)(nd \<mapsto> ODev (dummy_dev pid nd),
      Suc nd \<mapsto> OBuf (devname_buf name), Suc (Suc nd) \<mapsto> OCdev m, Suc (Suc (Suc nd)) \<mapsto> OPool),
      next_addr := Suc (Suc (Suc (Suc nd))), tick := Suc (Suc (Suc (Suc (Suc (Suc (tick s1)))))),
      netdev_htable := hash_add (hash_min s1) pid nd (netdev_htable s1),
      trace := trace s1 @ stack_overrun (alloc_name_len name m) @ [Overrun 5, CdevAdd m, DeviceCreate m]\<rparr>)"
  using assms fresh_heap[OF assms(2)] alloc_data_ok[OF assms(2,3,4), of pid name m]
  by (simp add: ndmgm_create_dummy_def kflow ext_call_def ndmgm_get_def register_dev_def dummy_dev_def fun_upd_twist
      fresh_dev_def zero_dev_def)

lemma create_dummy_fails:
  assumes "ndmgm_get_minor pid s = Inr (int m, s1)" "heap_ok s1"
    and bad: "\<not> (alloc4 s1 \<and> ext_ret s1 (Suc (Suc (Suc (Suc (tick s1))))) = 0 \<and>
      ext_ret s1 (Suc (Suc (Suc (Suc (Suc (tick s1)))))) = 0)"
  shows "\<exists>r t. ndmgm_create_dummy pid name s = Inr (r, t) \<and> r \<noteq> 0 \<and> heap t = alloc_leak s1 name \<and> same_globals s1 t"
proof (cases "alloc4 s1")
  case False
  from alloc_data_fails[OF assms(2) False, of pid name m] assms(1) show ?thesis
    by (auto simp: ndmgm_create_dummy_def kflow)
next
  case True
  then have noleak: "alloc_leak s1 name = heap s1" by (simp add: alloc_leak_def alloc4_iff)
  let ?nd = "next_addr s1"
  let ?d = "fresh_dev pid ?nd\<lparr>dummy := True\<rparr>"
  note fresh = fresh_heap[OF assms(2)]
  have free: "ndmgm_free_data ?nd v = Inr ((), v\<lparr>heap := heap s1\<rparr>)"
    if "heap v = (heap s1)(Suc ?nd \<mapsto> OBuf (devname_buf name), Suc (Suc ?nd) \<mapsto> OCdev m,
      Suc (Suc (Suc ?nd)) \<mapsto> OPool, ?nd \<mapsto> ODev ?d)" for v
    using fresh that by (subst free_data_run[where d = ?d]) (auto simp: fun_upd_idem fun_upd_twist)
  show ?thesis
    using assms(1) bad True fresh alloc_data_ok[OF assms(2) True refl, of pid name m] free noleak
    by (auto simp: ndmgm_create_dummy_def kflow ext_call_def fun_upd_twist same_globals_def)
qed

section \<open>Registration of a server device\<close>

definition alloc3 :: "kst \<Rightarrow> bool" where
  "alloc3 s \<longleftrightarrow> alloc_ok s (tick s) \<and> alloc_ok s (Suc (tick s)) \<and> alloc_ok s (Suc (Suc (tick s))) \<and>
    Suc (Suc (next_addr s)) < ADDR_LIMIT"

definition server_dev :: "i32 \<Rightarrow> addr \<Rightarrow> netdev_data" where
  "server_dev pid nd = zero_dev\<lparr>active := True, nlpid := pid, users := 1, devname := Suc nd, queue_pool := Suc (Suc nd)\<rparr>"

definition server_name_len :: "byte list \<Rightarrow> nat" where
  "server_name_len name = NETDEV_REQ_POOL_NAME_LEN + 1 + length name + 1"

lemma create_server_ok:
  assumes "heap_ok s" "alloc3 s" "nd = next_addr s"
  shows "ndmgm_create_server pid name s = Inr (0, s\<lparr>heap := (heap s)(nd \<mapsto> ODev (server_dev pid nd),
      Suc nd \<mapsto> OBuf (name @ [0]), Suc (Suc nd) \<mapsto> OPool),
      next_addr := Suc (Suc (Suc nd)), tick := Suc (Suc (Suc (tick s))),
      netdev_htable := hash_add (hash_min s) pid nd (netdev_htable s),
      trace := trace s @ stack_overrun (server_name_len name)\<rparr>)"
  using assms fresh_heap[OF assms(1)]
  by (simp add: ndmgm_create_server_def kflow kalloc_def can_alloc_def alloc3_def kmem_cache_create_def write_stack_run
      write_buf_def server_name_len_def server_dev_def fun_upd_twist zero_dev_def ndmgm_get_def register_dev_def)

lemma create_server_fails:
  assumes "heap_ok s" "\<not> alloc3 s"
  shows "\<exists>t. ndmgm_create_server pid name s = Inr (1, t) \<and> heap t = heap s \<and> same_globals s t \<and>
    trace t = trace s @ stack_overrun (server_name_len name)"
proof -
  note fresh = fresh_heap[OF assms(1)]
  note code = ndmgm_create_server_def kflow kalloc_def can_alloc_def kmem_cache_create_def write_stack_run
    zero_dev_def same_globals_def server_name_len_def
  consider (first) "\<not> can_alloc s"
    | (second) "can_alloc s" "\<not> (alloc_ok s (Suc (tick s)) \<and> Suc (next_addr s) < ADDR_LIMIT)"
    | (third) "can_alloc s" "alloc_ok s (Suc (tick s)) \<and> Suc (next_addr s) < ADDR_LIMIT"
        "\<not> (alloc_ok s (Suc (Suc (tick s))) \<and> Suc (Suc (next_addr s)) < ADDR_LIMIT)"
    using assms(2) by (auto simp: alloc3_def can_alloc_def)
  then show ?thesis
  proof cases
    case first
    then show ?thesis using fresh by (auto simp: code)
  next
    case second
    then show ?thesis using fresh by (auto simp: code fun_upd_idem)
  next
    case third
    then show ?thesis using fresh by (auto simp: code fun_upd_idem fun_upd_twist)
  qed
qed

section \<open>The table of devices as a map\<close>

definition dev_key :: "kst \<Rightarrow> addr \<Rightarrow> i32" where
  "dev_key s p = (case heap s p of Some (ODev d) \<Rightarrow> nlpid d | _ \<Rightarrow> 0)"

definition device_of :: "kst \<Rightarrow> i32 \<Rightarrow> addr option" where
  "device_of s = chains.lookup (hash_min s) (dev_key s) (netdev_htable s)"

definition devs_ok :: "kst \<Rightarrow> bool" where
  "devs_ok s \<longleftrightarrow> (\<forall>b. \<forall>p \<in> set (netdev_htable s b). \<exists>d. heap s p = Some (ODev d))"

lemma devs_ok_all: "devs_ok s \<Longrightarrow> p \<in> set (hash_all (netdev_htable s)) \<Longrightarrow> \<exists>d. heap s p = Some (ODev d)"
  by (auto simp: devs_ok_def set_hash_all)

lemma find_run:
  assumes ok: "heap_ok s" "devs_ok s" "\<not> writer (netdev_htable_sem s)" "pid \<noteq> - 1"
  shows "ndmgm_find pid s = Inr (case device_of s pid of None \<Rightarrow> NULL | Some p \<Rightarrow> p, s)"
proof -
  let ?s = "s\<lparr>netdev_htable_sem := netdev_htable_sem s\<lparr>readers := Suc (readers (netdev_htable_sem s))\<rparr>\<rparr>"
  let ?test = "\<lambda>p. bindK (get_dev p) (\<lambda>d. returnK (nlpid d = pid))"
  let ?chain = "hash_possible (hash_min s) pid (netdev_htable s)"
  have "?test p ?s = Inr (dev_key s p = pid, ?s)" if "p \<in> set ?chain" for p
  proof -
    from that ok(2) obtain d where d: "heap s p = Some (ODev d)"
      by (fastforce simp: hash_possible_def devs_ok_def)
    moreover from this ok(1) have "0 < p" by (rule heap_ok_pos[rotated])
    ultimately show ?thesis by (simp add: kflow dev_key_def)
  qed
  then have walk: "chain_find ?test ?chain ?s = Inr (case device_of s pid of None \<Rightarrow> NULL | Some p \<Rightarrow> p, ?s)"
    by (subst chain_find_run[where key = "dev_key s"]) (simp_all add: device_of_def chains.lookup_def)
  show ?thesis
    using ok walk
    by (simp add: ndmgm_find_def bindK_def thenK_def getK_def returnK_def htable_read_trylock_def htable_up_read_def
        read_trylock_def read_unlock_def)
qed

lemma device_of_register:
  assumes "devs_ok s" "\<And>p d. heap s p = Some (ODev d) \<Longrightarrow> heap t p = Some (ODev d)"
    and "hash_min t = hash_min s" "netdev_htable t = hash_add (hash_min s) pid nd (netdev_htable s)"
    and "heap t nd = Some (ODev d)" "nlpid d = pid"
  shows "device_of t = (device_of s)(pid \<mapsto> nd)"
proof -
  have key: "dev_key t nd = pid" using assms(5,6) by (simp add: dev_key_def)
  have "dev_key t p = dev_key s p" if "p \<in> set (hash_all (netdev_htable s))" for p
    using devs_ok_all[OF assms(1) that] assms(2) by (auto simp: dev_key_def)
  then have "chains.lookup (hash_min s) (dev_key t) (netdev_htable s) = chains.lookup (hash_min s) (dev_key s) (netdev_htable s)"
    by (intro chains.lookup_cong) blast
  then show ?thesis
    using chains.lookup_add[of "hash_min s" "dev_key t" nd "netdev_htable s"] key assms(3,4)
    by (simp add: device_of_def)
qed

section \<open>Both ways a dummy registration can end\<close>

lemma dummy_dev_simps [simp]:
  "nlpid (dummy_dev pid nd) = pid" "dummy (dummy_dev pid nd)" "users (dummy_dev pid nd) = 1"
  "foacc_htable (dummy_dev pid nd) = hash_init" "nd_sem (dummy_dev pid nd) = sem_free"
  "devname (dummy_dev pid nd) = Suc nd" "cdev (dummy_dev pid nd) = Suc (Suc nd)"
  "queue_pool (dummy_dev pid nd) = Suc (Suc (Suc nd))"
  by (simp_all add: dummy_dev_def)

lemma create_dummy_zeroE:
  assumes "heap_ok s" "ndmgm_create_dummy pid name s = Inr (0, t)"
  obtains m s1 nd where "ndmgm_get_minor pid s = Inr (int m, s1)" "heap s1 = heap s" "nd = next_addr s"
    "hash_min s1 = hash_min s" "netdev_htable s1 = netdev_htable s" "netdev_minor_sem s1 = sem_free"
    "heap t = (heap s)(nd \<mapsto> ODev (dummy_dev pid nd), Suc nd \<mapsto> OBuf (devname_buf name), Suc (Suc nd) \<mapsto> OCdev m,
      Suc (Suc (Suc nd)) \<mapsto> OPool)"
    "netdev_htable t = hash_add (hash_min s) pid nd (netdev_htable s)" "hash_min t = hash_min s"
    "trace t = trace s @ stack_overrun (alloc_name_len name m) @ [Overrun 5, CdevAdd m, DeviceCreate m]"
    "netdev_minors_used t = netdev_minors_used s1" "netdev_minor_sem t = sem_free"
    "netdev_htable_sem t = netdev_htable_sem s" "netdev_max_minor t = netdev_max_minor s1"
proof -
  from assms(2) obtain mi s1 where gm: "ndmgm_get_minor pid s = Inr (mi, s1)"
    by (auto simp: ndmgm_create_dummy_def bindK_eq_Inr)
  have pos: "0 \<le> mi"
    using get_minor_none[OF gm] assms(2) gm by (force simp: ndmgm_create_dummy_def kflow)
  then obtain m where m: "mi = int m" by (metis nonneg_int_cases)
  from gm pos obtain u where s1: "netdev_minor_sem s = sem_free"
    "s1 = s\<lparr>netdev_minors_used := Some (u[nat mi := pid]), netdev_max_minor := max (netdev_max_minor s) (nat mi)\<rparr>"
    by (elim get_minor_SomeE) simp
  from s1 assms(1) have ok: "heap_ok s1" by (simp add: heap_ok_def)
  from create_dummy_fails[OF gm[unfolded m] ok, of name] assms(2)
  have good: "alloc4 s1" "ext_ret s1 (Suc (Suc (Suc (Suc (tick s1))))) = 0"
      "ext_ret s1 (Suc (Suc (Suc (Suc (Suc (tick s1)))))) = 0"
    by fastforce+
  from create_dummy_ok[OF gm[unfolded m] ok good(1) refl good(2,3), of name] assms(2) s1
  show thesis by (intro that[of m s1 "next_addr s"]) (auto simp: gm[unfolded m])
qed

lemma create_dummy_nonzeroE:
  assumes "heap_ok s" "ndmgm_create_dummy pid name s = Inr (r, t)" "r \<noteq> 0"
  obtains (nominor) "t = s" "ndmgm_get_minor pid s = Inr (- 1, s)"
    | (minor) m s1 where "ndmgm_get_minor pid s = Inr (int m, s1)" "heap s1 = heap s"
        "netdev_htable s1 = netdev_htable s" "heap t = alloc_leak s1 name" "same_globals s1 t"
proof -
  from assms(2) obtain mi s1 where gm: "ndmgm_get_minor pid s = Inr (mi, s1)"
    by (auto simp: ndmgm_create_dummy_def bindK_eq_Inr)
  show thesis
  proof (cases "0 \<le> mi")
    case False
    with get_minor_none[OF gm] gm assms(2) show thesis
      by (intro nominor) (auto simp: ndmgm_create_dummy_def kflow)
  next
    case True
    then obtain m where m: "mi = int m" by (metis nonneg_int_cases)
    from gm True obtain u where s1:
      "s1 = s\<lparr>netdev_minors_used := Some (u[nat mi := pid]), netdev_max_minor := max (netdev_max_minor s) (nat mi)\<rparr>"
      by (elim get_minor_SomeE) simp
    from s1 assms(1) have ok: "heap_ok s1" by (simp add: heap_ok_def)
    have "\<not> (alloc4 s1 \<and> ext_ret s1 (Suc (Suc (Suc (Suc (tick s1))))) = 0 \<and>
      ext_ret s1 (Suc (Suc (Suc (Suc (Suc (tick s1)))))) = 0)"
      using create_dummy_ok[OF gm[unfolded m] ok _ refl, of name] assms(2,3) by auto
    from create_dummy_fails[OF gm[unfolded m] ok this, of name] assms(2) s1 gm m show thesis
      by (intro minor[of m s1]) auto
  qed
qed

lemma alloc_leak_keeps: "heap_ok s \<Longrightarrow> heap s p = Some x \<Longrightarrow> alloc_leak s name p = Some x"
  using fresh_heap[of s] by (auto simp: alloc_leak_def)

section \<open>Properties: registration and lookup\<close>

text \<open>
  C9.  \<open>ndmgm_create_dummy\<close> answers 0 exactly when the device is there: then the pid is
  mapped to a new active dummy device with one reference (and to nothing else than before for other
  pids), with a name, a character device and a pool of its own and a minor that is reserved for the
  pid, and the character device was added before the device node was created.  Any other answer
  leaves the table of devices as it was: either nothing at all has changed, because there was no
  minor; or the minor stays reserved, and memory is as before but for one leak, the block of the name
  when the \<open>struct cdev\<close> could not be allocated (\<open>alloc_leak\<close>).
\<close>

theorem create_dummy_registers_or_not:
  assumes "heap_ok s" "devs_ok s" "ndmgm_create_dummy pid name s = Inr (r, t)"
  shows "if r = 0
    then \<exists>nd m. heap s nd = None \<and> heap t = (heap s)(nd \<mapsto> ODev (dummy_dev pid nd), Suc nd \<mapsto> OBuf (devname_buf name),
        Suc (Suc nd) \<mapsto> OCdev m, Suc (Suc (Suc nd)) \<mapsto> OPool) \<and>
      device_of t = (device_of s)(pid \<mapsto> nd) \<and> ndmgm_find_pid m t = Inr (pid, t) \<and>
      trace t = trace s @ stack_overrun (alloc_name_len name m) @ [Overrun 5, CdevAdd m, DeviceCreate m]
    else netdev_htable t = netdev_htable s \<and>
      (ndmgm_get_minor pid s = Inr (- 1, s) \<and> t = s \<or>
       (\<exists>m s1. ndmgm_get_minor pid s = Inr (int m, s1) \<and> heap s1 = heap s \<and>
         netdev_minors_used t = netdev_minors_used s1 \<and> heap t = alloc_leak s1 name))"
proof (cases "r = 0")
  case True
  with assms(3) have run: "ndmgm_create_dummy pid name s = Inr (0, t)" by simp
  from assms(1) run show ?thesis
  proof (rule create_dummy_zeroE)
    fix m s1 nd
    assume gm: "ndmgm_get_minor pid s = Inr (int m, s1)" and nd: "nd = next_addr s"
      and h: "heap t = (heap s)(nd \<mapsto> ODev (dummy_dev pid nd), Suc nd \<mapsto> OBuf (devname_buf name), Suc (Suc nd) \<mapsto> OCdev m,
      Suc (Suc (Suc nd)) \<mapsto> OPool)"
      and t: "netdev_htable t = hash_add (hash_min s) pid nd (netdev_htable s)" "hash_min t = hash_min s"
        "trace t = trace s @ stack_overrun (alloc_name_len name m) @ [Overrun 5, CdevAdd m, DeviceCreate m]"
        "netdev_minors_used t = netdev_minors_used s1" "netdev_minor_sem t = sem_free"
    note fresh = fresh_heap[OF assms(1), folded nd]
    have "device_of t = (device_of s)(pid \<mapsto> nd)"
      using fresh h t by (intro device_of_register[OF assms(2)]) auto
    moreover have "ndmgm_find_pid m t = Inr (pid, t)"
      using gm t(4,5) by (elim get_minor_SomeE) (auto simp: find_pid_run)
    ultimately show ?thesis
      using True fresh(1) h t(3) by (intro iffD2[OF if_P] exI[of _ nd] exI[of _ m]) simp_all
  qed
next
  case False
  from assms(1,3) False show ?thesis
  proof (rule create_dummy_nonzeroE)
    fix m s1
    assume "heap s1 = heap s" "netdev_htable s1 = netdev_htable s" "heap t = alloc_leak s1 name" "same_globals s1 t"
      "ndmgm_get_minor pid s = Inr (int m, s1)"
    with False show ?thesis by (auto simp: same_globals_def)
  qed (use False in simp)
qed

text \<open>
  A freshly prepared driver, on which \<open>netdev_urandom\<close> (a name of the sample
  configuration) is registered by the daemon with pid 7.
\<close>

definition urandom_name :: "byte list" where
  "urandom_name = [110, 101, 116, 100, 101, 118, 95, 117, 114, 97, 110, 100, 111, 109]"

lemma boot_ok: "heap_ok (minors_state 0)" "devs_ok (minors_state 0)" "next_addr (minors_state 0) = 1"
  "tick (minors_state 0) = 0" "hash_min (minors_state 0) = unat" "trace (minors_state 0) = []"
  "netdev_htable (minors_state 0) = hash_init" "heap (minors_state 0) = (\<lambda>_. None)" "netdev_htable_sem (minors_state 0) = sem_free"
  "alloc_ok (minors_state 0) i" "ext_ret (minors_state 0) i = 0"
  by (simp_all add: minors_state_def kst0_def heap_ok_def devs_ok_def hash_init_def)

definition boot_minor :: kst where
  "boot_minor = (minors_state 0)\<lparr>netdev_minors_used := Some ((minors_prefix 0)[0 := 7]), netdev_max_minor := 0\<rparr>"

lemma boot_get_minor: "ndmgm_get_minor 7 (minors_state 0) = Inr (int 0, boot_minor)"
  using get_minor_found[of "minors_state 0" "minors_prefix 0" 0 7]
  by (simp add: NETDEV_MAX_DEVICES_def nth_minors_prefix boot_minor_def)

lemma boot_minor_ok: "heap_ok boot_minor" "alloc4 boot_minor" "ext_ret boot_minor i = 0" "next_addr boot_minor = 1"
  "hash_min boot_minor = unat" "trace boot_minor = []" "netdev_htable boot_minor = hash_init" "heap boot_minor = (\<lambda>_. None)"
  "tick boot_minor = 0" "netdev_htable_sem boot_minor = sem_free" "netdev_minor_sem boot_minor = sem_free"
  using boot_ok by (simp_all add: boot_minor_def alloc4_iff heap_ok_def ADDR_LIMIT_def)

definition one_dummy :: kst where
  "one_dummy = boot_minor\<lparr>heap := [1 \<mapsto> ODev (dummy_dev 7 1), 2 \<mapsto> OBuf (devname_buf urandom_name), 3 \<mapsto> OCdev 0, 4 \<mapsto> OPool],
     next_addr := 5, tick := 6, netdev_htable := hash_add unat (7 :: i32) 1 hash_init,
     trace := [Overrun 2, Overrun 5, CdevAdd 0, DeviceCreate 0]\<rparr>"

lemma boot_create_dummy: "ndmgm_create_dummy 7 urandom_name (minors_state 0) = Inr (0, one_dummy)"
proof -
  have "stack_overrun (alloc_name_len urandom_name 0) = [Overrun 2]"
    by (simp add: stack_overrun_def alloc_name_len_def urandom_name_def pool_name_cap_def NETDEV_REQ_POOL_NAME_LEN_def
        dec_digits.simps)
  then show ?thesis
    using create_dummy_ok[OF boot_get_minor boot_minor_ok(1,2) refl boot_minor_ok(3) boot_minor_ok(3), of urandom_name]
      boot_minor_ok
    by (simp add: one_dummy_def eval_nat_numeral)
qed

lemma create_dummy_registers_or_not_witness:
  "\<exists>t. ndmgm_create_dummy 7 urandom_name (minors_state 0) = Inr (0, t) \<and> (\<exists>nd. device_of t 7 = Some nd)"
  using create_dummy_registers_or_not[OF boot_ok(1,2) boot_create_dummy] boot_create_dummy by auto

text \<open>
  A registration that fails after its minor was reserved does not give the minor back:
  the entry of \<open>netdev_minors_used\<close> stays with the pid although there is no device
  (every error exit of \<open>ndmgm_create_dummy\<close> lacks the \<open>ndmgm_put_minor\<close>).
\<close>

theorem create_dummy_failure_keeps_minor:
  assumes "heap_ok s" "ndmgm_create_dummy pid name s = Inr (r, t)" "r \<noteq> 0"
    and "ndmgm_get_minor pid s = Inr (m, s1)" "0 \<le> m" "pid \<noteq> - 1"
  shows "netdev_htable t = netdev_htable s \<and> ndmgm_find_pid (nat m) t = Inr (pid, t) \<and>
    netdev_minors_used t \<noteq> netdev_minors_used s"
  using assms(1-3)
proof (rule create_dummy_nonzeroE)
  assume "ndmgm_get_minor pid s = Inr (- 1, s)"
  with assms(4,5) show ?thesis by simp
next
  fix k s2
  assume a: "ndmgm_get_minor pid s = Inr (int k, s2)" "netdev_htable s2 = netdev_htable s" "same_globals s2 t"
  with assms(4) have eq: "m = int k" "s2 = s1" by auto
  obtain u where u: "nat m < length u" "u ! nat m = - 1" "netdev_minors_used s = Some u" "netdev_minor_sem s = sem_free"
    "s1 = s\<lparr>netdev_minors_used := Some (u[nat m := pid]), netdev_max_minor := max (netdev_max_minor s) (nat m)\<rparr>"
    using assms(4,5) by (elim get_minor_SomeE)
  with a eq have t: "netdev_minors_used t = Some (u[nat m := pid])" "netdev_minor_sem t = sem_free"
    by (simp_all add: same_globals_def)
  with u assms(6) have "netdev_minors_used t \<noteq> netdev_minors_used s"
    by (auto dest!: arg_cong[where f = "\<lambda>l. l ! nat m"])
  moreover have "ndmgm_find_pid (nat m) t = Inr (pid, t)"
    using find_pid_run[OF t(2) t(1), of "nat m"] u(1) by simp
  ultimately show ?thesis using a by (simp add: same_globals_def)
qed

text \<open>The same driver where \<open>cdev_add\<close> answers \<open>-ENOMEM\<close>.\<close>

definition boot_cdev_fails :: kst where
  "boot_cdev_fails = (minors_state 0)\<lparr>ext_ret := (\<lambda>_. - 12)\<rparr>"

lemma boot_cdev_fails_minor:
  "ndmgm_get_minor 7 boot_cdev_fails = Inr (int 0, boot_minor\<lparr>ext_ret := (\<lambda>_. - 12)\<rparr>)"
  using get_minor_found[of boot_cdev_fails "minors_prefix 0" 0 7]
  by (simp add: NETDEV_MAX_DEVICES_def nth_minors_prefix boot_minor_def boot_cdev_fails_def)

lemma create_dummy_failure_keeps_minor_witness:
  "\<exists>r t. ndmgm_create_dummy 7 urandom_name boot_cdev_fails = Inr (r, t) \<and> r \<noteq> 0 \<and>
    ndmgm_find_pid 0 t = Inr (7, t)"
proof -
  have ok: "heap_ok boot_cdev_fails" "heap_ok (boot_minor\<lparr>ext_ret := (\<lambda>_. - 12)\<rparr>)"
    using boot_ok(1) boot_minor_ok(1) by (simp_all add: boot_cdev_fails_def heap_ok_def)
  obtain r t where run: "ndmgm_create_dummy 7 urandom_name boot_cdev_fails = Inr (r, t)" and "r \<noteq> 0"
    using create_dummy_fails[OF boot_cdev_fails_minor ok(2), of urandom_name] by auto
  with create_dummy_failure_keeps_minor[OF ok(1) run _ boot_cdev_fails_minor] show ?thesis by auto
qed

text \<open>
  Every successful registration of a dummy device writes past two kinds of buffers: 5 bytes
  past the end of the heap buffer of the device name (\<open>strlen(name)+1\<close> bytes are
  allocated and \<open>"/dev/"\<close> plus the name is printed into it), and, for names of 13 or more
  characters (or fewer, with a two-digit minor), past the 30 bytes of \<open>pool_name\<close> on
  the stack.
\<close>

theorem create_dummy_overruns:
  assumes "heap_ok s" "ndmgm_create_dummy pid name s = Inr (0, t)"
  shows "\<exists>m. trace t = trace s @ stack_overrun (16 + length name + dec_digits m + 1) @
      [Overrun 5, CdevAdd m, DeviceCreate m] \<and>
    (13 \<le> length name \<longrightarrow> (\<exists>k>0. Overrun k \<in> set (stack_overrun (16 + length name + dec_digits m + 1))))"
  using assms
proof (rule create_dummy_zeroE)
  fix m
  assume t: "trace t = trace s @ stack_overrun (alloc_name_len name m) @ [Overrun 5, CdevAdd m, DeviceCreate m]"
  have len: "alloc_name_len name m = 16 + length name + dec_digits m + 1"
    by (simp add: alloc_name_len_def NETDEV_REQ_POOL_NAME_LEN_def)
  have "0 < dec_digits m" by (subst dec_digits.simps) simp
  then have "13 \<le> length name \<longrightarrow> (\<exists>k>0. Overrun k \<in> set (stack_overrun (16 + length name + dec_digits m + 1)))"
    by (auto simp: stack_overrun_def pool_name_cap_def)
  with t len show ?thesis by auto
qed

lemma create_dummy_overruns_witness:
  "ndmgm_create_dummy 7 urandom_name (minors_state 0) = Inr (0, one_dummy) \<and> Overrun 5 \<in> set (trace one_dummy)"
  using create_dummy_overruns[OF boot_ok(1) boot_create_dummy] boot_create_dummy by auto

text \<open>
  C15.  \<open>ndmgm_create_server\<close> answers 0 or 1, and is all or nothing: on 0 the pid is mapped
  to a new active server device with one reference; on 1 the memory and the table are as before.
\<close>

theorem create_server_all_or_nothing:
  assumes "heap_ok s" "devs_ok s" "ndmgm_create_server pid name s = Inr (r, t)"
  shows "r = 0 \<and> (\<exists>nd. heap s nd = None \<and> heap t nd = Some (ODev (server_dev pid nd)) \<and>
        device_of t = (device_of s)(pid \<mapsto> nd)) \<or>
    r = 1 \<and> heap t = heap s \<and> netdev_htable t = netdev_htable s"
proof (cases "alloc3 s")
  case True
  let ?nd = "next_addr s"
  note fresh = fresh_heap[OF assms(1)]
  from create_server_ok[OF assms(1) True refl, of pid name] assms(3)
  have t: "r = 0" "heap t = (heap s)(?nd \<mapsto> ODev (server_dev pid ?nd), Suc ?nd \<mapsto> OBuf (name @ [0]), Suc (Suc ?nd) \<mapsto> OPool)"
    "netdev_htable t = hash_add (hash_min s) pid ?nd (netdev_htable s)" "hash_min t = hash_min s"
    by auto
  have "device_of t = (device_of s)(pid \<mapsto> ?nd)"
    using fresh t by (intro device_of_register[OF assms(2), where d = "server_dev pid ?nd"])
      (auto simp: server_dev_def)
  with t fresh show ?thesis by auto
next
  case False
  from create_server_fails[OF assms(1) False, of pid name] assms(3) show ?thesis
    by (auto simp: same_globals_def)
qed

lemma create_server_all_or_nothing_witness:
  "\<exists>t nd. ndmgm_create_server 7 urandom_name (minors_state 0) = Inr (0, t) \<and> device_of t 7 = Some nd"
proof -
  have "alloc3 (minors_state 0)" using boot_ok by (simp add: alloc3_def ADDR_LIMIT_def)
  then obtain t where run: "ndmgm_create_server 7 urandom_name (minors_state 0) = Inr (0, t)"
    using create_server_ok[OF boot_ok(1) _ refl, of 7 urandom_name] by blast
  from create_server_all_or_nothing[OF boot_ok(1,2) run] run show ?thesis by auto
qed

text \<open>
  C17.  \<open>ndmgm_find\<close> is the lookup of the map from pids to devices, for any hash function:
  it answers the device registered for the pid, NULL when there is none, and changes nothing.  While
  a writer holds the table it answers NULL at once.
\<close>

theorem find_is_map_lookup:
  assumes "heap_ok s" "devs_ok s"
  shows "ndmgm_find pid s = Inr (if pid = - 1 \<or> writer (netdev_htable_sem s) then NULL
      else case device_of s pid of None \<Rightarrow> NULL | Some p \<Rightarrow> p, s)"
  using find_run[OF assms, of pid]
  by (auto simp: ndmgm_find_def kflow htable_read_trylock_def read_trylock_def)

lemma one_dummy_ok: "heap_ok one_dummy" "devs_ok one_dummy" "netdev_htable_sem one_dummy = sem_free"
  "device_of one_dummy 7 = Some 1"
  by (auto simp: one_dummy_def heap_ok_def devs_ok_def hash_add_def hash_init_def boot_minor_ok device_of_def
      chains.lookup_def hash_possible_def dev_key_def split: if_splits)

lemma find_is_map_lookup_witness:
  "ndmgm_find 7 one_dummy = Inr (1, one_dummy)"
  using find_is_map_lookup[OF one_dummy_ok(1,2), of 7] one_dummy_ok(3,4) by simp

section \<open>Destroying a device\<close>

definition buffers_ok :: "kst \<Rightarrow> addr \<Rightarrow> netdev_data \<Rightarrow> bool" where
  "buffers_ok s nd d \<longleftrightarrow> 0 < nd \<and> heap s nd = Some (ODev d) \<and>
     0 < queue_pool d \<and> heap s (queue_pool d) = Some OPool \<and>
     0 < devname d \<and> (\<exists>b. heap s (devname d) = Some (OBuf b))"

lemma sem_put_back: "nd_sem d = l \<Longrightarrow> d\<lparr>active := False, nd_sem := l\<rparr> = d\<lparr>active := False\<rparr>"
  by simp

lemma destroy_server_run:
  assumes "buffers_ok s nd d" "\<not> dummy d" "nd_sem d = sem_free" "\<not> 1 <s users d"
  shows "ndmgm_destroy nd s = Inr (0, s\<lparr>heap := (heap s)(queue_pool d := None, devname d := None, nd := None)\<rparr>)"
proof -
  have "queue_pool d \<noteq> nd" "devname d \<noteq> nd" "devname d \<noteq> queue_pool d" "0 < nd"
    using assms(1) by (auto simp: buffers_ok_def)
  with assms show ?thesis
    by (auto simp: ndmgm_destroy_def ndmgm_destroy_server_def kflow dev_write_trylock_def dev_up_write_def lock_exec
        ndmgm_refs_def kmem_cache_destroy_def buffers_ok_def fun_upd_twist)
qed

lemma destroy_server_busy:
  assumes "buffers_ok s nd d" "\<not> dummy d" "nd_sem d = sem_free" "1 <s users d"
  shows "ndmgm_destroy nd s = Inr (1, s\<lparr>heap := (heap s)(nd \<mapsto> ODev (d\<lparr>active := False\<rparr>))\<rparr>)"
  using assms
  by (auto simp: ndmgm_destroy_def ndmgm_destroy_server_def kflow dev_write_trylock_def dev_up_write_def lock_exec
      ndmgm_refs_def buffers_ok_def sem_free_write sem_put_back)

text \<open>Unlinking a device takes it out of the map.\<close>

definition devs_keyed :: "kst \<Rightarrow> bool" where
  "devs_keyed s \<longleftrightarrow> chains.well_keyed (hash_min s) (dev_key s) (netdev_htable s)"

lemma device_of_in_table: "device_of s pid = Some nd \<Longrightarrow> nd \<in> set (hash_all (netdev_htable s)) \<and> dev_key s nd = pid"
  by (auto simp: device_of_def dest: chains.lookup_SomeD)

lemma set_all_del:
  assumes "devs_keyed s"
  shows "set (hash_all (hash_del nd (netdev_htable s))) = set (hash_all (netdev_htable s)) - {nd}"
  using assms by (simp add: devs_keyed_def chains.well_keyed_def set_hash_del)

lemma device_of_unlink:
  assumes "devs_keyed s" "device_of s pid = Some nd"
    and "\<And>p. p \<noteq> nd \<Longrightarrow> p \<in> set (hash_all (netdev_htable s)) \<Longrightarrow> dev_key t p = dev_key s p"
    and "hash_min t = hash_min s" "netdev_htable t = hash_del nd (netdev_htable s)"
  shows "device_of t = (device_of s)(pid := None)"
proof -
  from device_of_in_table[OF assms(2)] have nd: "nd \<in> set (hash_all (netdev_htable s))" "dev_key s nd = pid" by auto
  have "chains.lookup (hash_min s) (dev_key t) (netdev_htable t) = chains.lookup (hash_min s) (dev_key s) (netdev_htable t)"
    using assms(3) by (intro chains.lookup_cong) (simp add: assms(5) set_all_del[OF assms(1)])
  also have "\<dots> = (device_of s)(pid := None)"
    using chains.lookup_del[of "hash_min s" "dev_key s" "netdev_htable s" nd] assms(1,5) nd
    by (simp add: device_of_def devs_keyed_def)
  finally show ?thesis by (simp add: device_of_def assms(4))
qed

text \<open>The state in which \<open>ndmgm_find_destroy\<close> calls \<open>ndmgm_destroy\<close>.\<close>

definition unlinked :: "kst \<Rightarrow> addr \<Rightarrow> netdev_data \<Rightarrow> kst" where
  "unlinked s nd d = s\<lparr>netdev_htable := hash_del nd (netdev_htable s),
     heap := (heap s)(nd \<mapsto> ODev (d\<lparr>users := users d - 1\<rparr>))\<rparr>"

lemma find_destroy_unlinks:
  assumes "heap_ok s" "devs_ok s" "\<not> writer (netdev_htable_sem s)" "pid \<noteq> - 1"
    and "device_of s pid = Some nd" "heap s nd = Some (ODev d)"
  shows "ndmgm_find_destroy pid s = ndmgm_destroy nd (unlinked s nd d)"
proof -
  have "0 < nd" using assms(1,6) by (rule heap_ok_pos)
  then show ?thesis
    using assms find_run[OF assms(1-4)]
    by (simp add: ndmgm_find_destroy_def bindK_def thenK_def returnK_def htable_read_trylock_def htable_up_read_def
        unlink_dev_def modifyK_def ndmgm_put_def read_trylock_def read_unlock_def unlinked_def)
qed

lemma find_destroy_missing:
  "heap_ok s \<Longrightarrow> devs_ok s \<Longrightarrow> \<not> writer (netdev_htable_sem s) \<Longrightarrow> pid \<noteq> - 1 \<Longrightarrow> device_of s pid = None \<Longrightarrow>
     ndmgm_find_destroy pid s = Inr (1, s)"
  using find_run[of s pid] by (simp add: ndmgm_find_destroy_def kflow)

lemma unlinked_simps [simp]:
  "heap (unlinked s nd d) nd = Some (ODev (d\<lparr>users := users d - 1\<rparr>))"
  "p \<noteq> nd \<Longrightarrow> heap (unlinked s nd d) p = heap s p" "trace (unlinked s nd d) = trace s"
  "netdev_htable (unlinked s nd d) = hash_del nd (netdev_htable s)" "hash_min (unlinked s nd d) = hash_min s"
  "netdev_minor_sem (unlinked s nd d) = netdev_minor_sem s" "netdev_minors_used (unlinked s nd d) = netdev_minors_used s"
  "netdev_htable_sem (unlinked s nd d) = netdev_htable_sem s"
  by (simp_all add: unlinked_def)

lemma buffers_ok_unlinked: "buffers_ok s nd d \<Longrightarrow> buffers_ok (unlinked s nd d) nd (d\<lparr>users := users d - 1\<rparr>)"
  by (auto simp: buffers_ok_def unlinked_def)

text \<open>With the table locked by a writer a dummy device cannot be destroyed.\<close>

lemma destroy_allacc_locked:
  "netdev_htable_sem s \<noteq> sem_free \<Longrightarrow> ndmgm_destroy_allacc nd s = Inr (1, s)"
  using write_trylock_free[of "netdev_htable_sem s"]
  by (auto simp: ndmgm_destroy_allacc_def kflow htable_write_trylock_def split: option.split)

lemma destroy_dummy_locked:
  assumes "0 < nd" "heap s nd = Some (ODev d)" "dummy d" "netdev_htable_sem s \<noteq> sem_free"
  shows "ndmgm_destroy nd s = Inr (1, if nd_sem d = sem_free
     then s\<lparr>heap := (heap s)(nd \<mapsto> ODev (d\<lparr>active := False\<rparr>))\<rparr> else s)"
proof (cases "nd_sem d = sem_free")
  case True
  with assms show ?thesis
    by (auto simp: ndmgm_destroy_def ndmgm_destroy_dummy_def kflow dev_write_trylock_def dev_up_write_def lock_exec
        destroy_allacc_locked sem_free_write sem_put_back)
next
  case False
  then have "write_trylock (nd_sem d) = None" by (simp add: write_trylock_free)
  with False assms show ?thesis
    by (auto simp: ndmgm_destroy_def ndmgm_destroy_dummy_def kflow dev_write_trylock_def)
qed

lemma destroy_dummy_run:
  assumes "buffers_ok s nd d" "dummy d" "nd_sem d = sem_free" "\<not> 1 <s users d" "hash_all (foacc_htable d) = []"
    and "netdev_htable_sem s = sem_free" "0 < cdev d" "heap s (cdev d) = Some (OCdev m)"
    and "netdev_minor_sem s = sem_free" "netdev_minors_used s = Some u" "m < length u"
  shows "\<exists>t. ndmgm_destroy nd s = Inr (0, t) \<and>
    heap t = (heap s)(queue_pool d := None, cdev d := None, devname d := None, nd := None) \<and>
    netdev_minors_used t = Some (u[m := - 1]) \<and> trace t = trace s @ [DeviceDestroy m, CdevDel m] \<and>
    netdev_htable t = netdev_htable s \<and> hash_min t = hash_min s \<and> netdev_htable_sem t = sem_free \<and>
    netdev_minor_sem t = sem_free \<and> netdev_max_minor t \<le> netdev_max_minor s \<and> next_addr t = next_addr s"
proof -
  obtain b where b: "0 < nd" "heap s nd = Some (ODev d)" "0 < queue_pool d" "heap s (queue_pool d) = Some OPool"
    "0 < devname d" "heap s (devname d) = Some (OBuf b)"
    using assms(1) by (auto simp: buffers_ok_def)
  have dist: "cdev d \<noteq> nd" "distinct [nd, queue_pool d, devname d, cdev d]" using b assms(8) by auto
  let ?h = "(heap s)(nd \<mapsto> ODev (d\<lparr>active := False\<rparr>))"
  let ?v = "s\<lparr>netdev_htable_sem := sem_free, trace := trace s @ [DeviceDestroy m, CdevDel m], heap := ?h\<rparr>"
  obtain v where put: "ndmgm_put_minor m ?v = Inr ((), v)"
    using put_minor_run[of ?v u m] assms(9-11) by simp
  have v: "heap v = ?h" "netdev_minors_used v = Some (u[m := - 1])" "trace v = trace s @ [DeviceDestroy m, CdevDel m]"
    "netdev_htable v = netdev_htable s" "hash_min v = hash_min s" "netdev_htable_sem v = sem_free"
    "netdev_minor_sem v = sem_free" "netdev_max_minor v \<le> netdev_max_minor s" "next_addr v = next_addr s"
    using put put_minor_run[of ?v u m] assms(9-11) minor_lower_le[of m m m "u[m := - 1]"] by auto
  have "ndmgm_destroy nd s = (case ndmgm_free_data nd v of Inl e \<Rightarrow> Inl e | Inr (x, t) \<Rightarrow> Inr (0, t))"
    using assms b dist put
    by (simp add: ndmgm_destroy_def ndmgm_destroy_dummy_def ndmgm_destroy_allacc_def kflow dev_write_trylock_def
        dev_up_write_def htable_write_trylock_def htable_up_write_def lock_exec ndmgm_refs_def get_cdev_def load_def
        sem_free_write sem_put_back)
  then show ?thesis
    using v b dist assms(7,8)
    by (subst (asm) free_data_run[where d = "d\<lparr>active := False\<rparr>"]) auto
qed

text \<open>The lock held across the loop is the one the loop body waits for.\<close>

lemma acc_destroy_blocks:
  assumes "0 < acc" "heap s acc = Some (OAcc a)" "0 < nddata a" "heap s (nddata a) = Some (ODev d)" "nd_sem d \<noteq> sem_free"
  shows "fo_acc_destroy acc s = Inl Blocked"
  using assms write_trylock_free[of "nd_sem d"]
  by (auto simp: fo_acc_destroy_def kflow dev_down_write_def split: option.split)

lemma destroy_dummy_open_blocks:
  assumes nd: "0 < nd" "heap s nd = Some (ODev d)" "dummy d" "nd_sem d = sem_free" "netdev_htable_sem s = sem_free"
    and accs: "hash_all (foacc_htable d) = acc # accs"
    and acc: "0 < acc" "heap s acc = Some (OAcc a)" "nddata a = nd" "acc_sem a = sem_free"
    and q: "distinct (fo_queue a)" "pending_ok s (fo_queue a)"
  shows "ndmgm_destroy nd s = Inl Blocked"
proof -
  have "acc \<noteq> nd" using nd(2) acc(2) by auto
  let ?d = "d\<lparr>nd_sem := sem_free\<lparr>writer := True\<rparr>, active := False\<rparr>"
  let ?v = "s\<lparr>heap := (heap s)(nd \<mapsto> ODev ?d), netdev_htable_sem := sem_free\<lparr>writer := True\<rparr>,
    netdev_htable := hash_del nd (netdev_htable s)\<rparr>"
  let ?w = "?v\<lparr>heap := (drained ?v (fo_queue a))(acc \<mapsto> OAcc (a\<lparr>fo_queue := []\<rparr>)),
    trace := trace ?v @ map Completed (fo_queue a)\<rparr>"
  have "p \<noteq> nd" if "p \<in> set (fo_queue a)" for p
    using q(2) nd(2) that by (auto simp: pending_ok_def)
  then have "pending_ok ?v (fo_queue a)" "drained ?v (fo_queue a) nd = Some (ODev ?d)"
    using q(2) by (auto simp: pending_ok_def drained_def)
  with q(1) acc \<open>acc \<noteq> nd\<close> have free: "fo_acc_free_queue acc ?v = Inr (0, ?w)"
    by (intro free_queue_run) auto
  have blocked: "fo_acc_destroy acc ?w = Inl Blocked"
    by (rule acc_destroy_blocks[of _ _ "a\<lparr>fo_queue := []\<rparr>" ?d])
      (use acc nd(1) \<open>acc \<noteq> nd\<close> \<open>drained ?v (fo_queue a) nd = Some (ODev ?d)\<close> in \<open>auto simp: sem_free_def\<close>)
  show ?thesis
    using nd accs free blocked
    by (simp add: ndmgm_destroy_def ndmgm_destroy_dummy_def ndmgm_destroy_allacc_def kflow dev_write_trylock_def
        htable_write_trylock_def lock_exec unlink_dev_def)
qed

section \<open>Properties: unregistering\<close>

text \<open>
  C22.  Unregistering a server device without open files succeeds and undoes its registration: the
  pid is mapped to nothing, other pids are as before, and exactly the device, its name and its request
  pool are released.
\<close>

theorem unregister_server:
  assumes "heap_ok s" "devs_ok s" "devs_keyed s" "\<not> writer (netdev_htable_sem s)" "pid \<noteq> - 1"
    and "device_of s pid = Some nd" "buffers_ok s nd d" "\<not> dummy d" "nd_sem d = sem_free" "users d = 1"
  shows "\<exists>t. ndmgm_find_destroy pid s = Inr (0, t) \<and> device_of t = (device_of s)(pid := None) \<and>
    heap t = (heap s)(queue_pool d := None, devname d := None, nd := None)"
proof -
  have d: "heap s nd = Some (ODev d)" using assms(7) by (simp add: buffers_ok_def)
  let ?d = "d\<lparr>users := 0\<rparr>"
  let ?u = "unlinked s nd d"
  let ?t = "?u\<lparr>heap := (heap ?u)(queue_pool d := None, devname d := None, nd := None)\<rparr>"
  have "ndmgm_destroy nd ?u = Inr (0, ?t)"
    using destroy_server_run[OF buffers_ok_unlinked[OF assms(7)]] assms(8-10) by simp
  then have run: "ndmgm_find_destroy pid s = Inr (0, ?t)"
    using find_destroy_unlinks[OF assms(1,2,4,5,6) d] by simp
  have "device_of ?t = (device_of s)(pid := None)"
  proof (rule device_of_unlink[OF assms(3,6)])
    fix p
    assume "p \<noteq> nd" "p \<in> set (hash_all (netdev_htable s))"
    with devs_ok_all[OF assms(2)] obtain e where "heap s p = Some (ODev e)" by blast
    with \<open>p \<noteq> nd\<close> assms(7) have "p \<noteq> queue_pool d" "p \<noteq> devname d" by (auto simp: buffers_ok_def)
    with \<open>p \<noteq> nd\<close> show "dev_key ?t p = dev_key s p" by (simp add: dev_key_def)
  qed simp_all
  moreover have "heap ?t = (heap s)(queue_pool d := None, devname d := None, nd := None)"
    by (auto simp: unlinked_def fun_eq_iff)
  ultimately show ?thesis using run by blast
qed

text \<open>A driver that serves one device for the daemon with pid 7, and the same with a file open on it.\<close>

definition one_server :: "netdev_data \<Rightarrow> kst" where
  "one_server d = kst0\<lparr>heap := [1 \<mapsto> ODev d, 2 \<mapsto> OBuf (urandom_name @ [0]), 3 \<mapsto> OPool, 4 \<mapsto> OAcc (new_acc 1 42 NULL)],
     next_addr := 5, netdev_htable := hash_add unat (7 :: i32) 1 hash_init\<rparr>"

lemma one_server_ok:
  assumes "nlpid d = 7" "devname d = 2" "queue_pool d = 3"
  shows "heap_ok (one_server d)" "devs_ok (one_server d)" "devs_keyed (one_server d)"
    "netdev_htable_sem (one_server d) = sem_free" "device_of (one_server d) = [7 \<mapsto> 1]" "buffers_ok (one_server d) 1 d"
    "heap (one_server d) 4 = Some (OAcc (new_acc 1 42 NULL))"
proof -
  have key: "dev_key (one_server d) 1 = 7" using assms(1) by (simp add: one_server_def dev_key_def)
  show "devs_keyed (one_server d)" "device_of (one_server d) = [7 \<mapsto> 1]"
    using key well_keyed_one[of "dev_key (one_server d)" 1 7] lookup_one[of "dev_key (one_server d)" 1 7]
    by (simp_all add: devs_keyed_def device_of_def one_server_def kst0_def)
qed (use assms in \<open>auto simp: one_server_def kst0_def heap_ok_def devs_ok_def hash_add_def hash_init_def buffers_ok_def
      split: if_splits\<close>)

lemma server_dev_simps [simp]:
  "nlpid (server_dev pid nd) = pid" "devname (server_dev pid nd) = Suc nd" "queue_pool (server_dev pid nd) = Suc (Suc nd)"
  "\<not> dummy (server_dev pid nd)" "nd_sem (server_dev pid nd) = sem_free" "users (server_dev pid nd) = 1"
  "active (server_dev pid nd)" "foacc_htable (server_dev pid nd) = hash_init" "curseq (server_dev pid nd) = 0"
  by (simp_all add: server_dev_def zero_dev_def)

lemma unregister_server_witness:
  "\<exists>t. ndmgm_find_destroy 7 (one_server (server_dev 7 1)) = Inr (0, t) \<and> device_of t 7 = None \<and> heap t 1 = None"
proof -
  let ?d = "server_dev 7 1"
  have d: "nlpid ?d = 7" "devname ?d = 2" "queue_pool ?d = 3" by simp_all
  note ok = one_server_ok[OF d]
  have "device_of (one_server ?d) 7 = Some 1" using ok(5) by simp
  with unregister_server[OF ok(1-3) _ _ this ok(6)] ok(4) show ?thesis by fastforce
qed

text \<open>
  C38.  Unregistering a server device while a remote process has a file open on it is not refused:
  the check \<open>ndmgm_refs(nddata) > 1\<close> comes after the table's own reference was dropped,
  so one open file passes it.  The call reports success, the device is released, and the open
  file's next use of it (here its \<open>fo_acc_destroy\<close>) is a use after free.
\<close>

theorem unregister_server_leaves_open_file_dangling:
  assumes "heap_ok s" "devs_ok s" "\<not> writer (netdev_htable_sem s)" "pid \<noteq> - 1"
    and "device_of s pid = Some nd" "buffers_ok s nd d" "\<not> dummy d" "nd_sem d = sem_free" "users d = 2"
    and "heap s acc = Some (OAcc a)" "nddata a = nd"
  shows "\<exists>t. ndmgm_find_destroy pid s = Inr (0, t) \<and> heap t nd = None \<and> heap t acc = Some (OAcc a) \<and>
    fo_acc_destroy acc t = Inl UseAfterFree"
proof -
  have d: "heap s nd = Some (ODev d)" "0 < nd" using assms(6) by (auto simp: buffers_ok_def)
  let ?u = "unlinked s nd d"
  let ?t = "?u\<lparr>heap := (heap ?u)(queue_pool d := None, devname d := None, nd := None)\<rparr>"
  have "ndmgm_destroy nd ?u = Inr (0, ?t)"
    using destroy_server_run[OF buffers_ok_unlinked[OF assms(6)]] assms(7-9) by simp
  then have run: "ndmgm_find_destroy pid s = Inr (0, ?t)"
    using find_destroy_unlinks[OF assms(1-5) d(1)] by simp
  have acc: "0 < acc" "acc \<noteq> nd" "acc \<noteq> queue_pool d" "acc \<noteq> devname d"
    using heap_ok_pos[OF assms(1,10)] assms(6,10) by (auto simp: buffers_ok_def)
  then have "fo_acc_destroy acc ?t = Inl UseAfterFree"
    using assms(10,11) d(2) by (simp add: fo_acc_destroy_def kflow dev_down_write_def get_dev_def load_def)
  with run acc assms(10) show ?thesis by auto
qed

lemma unregister_server_leaves_open_file_dangling_witness:
  "\<exists>t. ndmgm_find_destroy 7 (one_server (server_dev 7 1\<lparr>users := 2\<rparr>)) = Inr (0, t) \<and> fo_acc_destroy 4 t = Inl UseAfterFree"
proof -
  let ?d = "server_dev 7 1\<lparr>users := 2\<rparr>"
  have d: "nlpid ?d = 7" "devname ?d = 2" "queue_pool ?d = 3" by simp_all
  note ok = one_server_ok[OF d]
  have "device_of (one_server ?d) 7 = Some 1" using ok(5) by simp
  moreover have "nddata (new_acc 1 42 NULL) = 1" by (simp add: new_acc_def)
  ultimately show ?thesis
    using unregister_server_leaves_open_file_dangling[OF ok(1,2) _ _ _ ok(6) _ _ _ ok(7), of 7] ok(4) by fastforce
qed

text \<open>
  C23.  Unregistering a dummy device without open files succeeds: the device node is destroyed
  before the character device, the minor is free again, all four allocations are released and
  the pid is mapped to nothing.
\<close>

theorem unregister_dummy:
  assumes "heap_ok s" "devs_ok s" "devs_keyed s" "netdev_htable_sem s = sem_free" "pid \<noteq> - 1"
    and "device_of s pid = Some nd" "buffers_ok s nd d" "dummy d" "nd_sem d = sem_free" "users d = 1"
    and "hash_all (foacc_htable d) = []" "0 < cdev d" "heap s (cdev d) = Some (OCdev m)"
    and "netdev_minor_sem s = sem_free" "netdev_minors_used s = Some u" "m < length u"
  shows "\<exists>t. ndmgm_find_destroy pid s = Inr (0, t) \<and> device_of t = (device_of s)(pid := None) \<and>
    heap t = (heap s)(queue_pool d := None, cdev d := None, devname d := None, nd := None) \<and>
    netdev_minors_used t = Some (u[m := - 1]) \<and> trace t = trace s @ [DeviceDestroy m, CdevDel m]"
proof -
  have d: "heap s nd = Some (ODev d)" using assms(7) by (simp add: buffers_ok_def)
  let ?u = "unlinked s nd d"
  have "cdev d \<noteq> nd" using d assms(13) by auto
  with destroy_dummy_run[OF buffers_ok_unlinked[OF assms(7)], of m u] assms(4,8-16)
  obtain t where t: "ndmgm_destroy nd ?u = Inr (0, t)"
    "heap t = (heap ?u)(queue_pool d := None, cdev d := None, devname d := None, nd := None)"
    "netdev_minors_used t = Some (u[m := - 1])" "trace t = trace s @ [DeviceDestroy m, CdevDel m]"
    "netdev_htable t = hash_del nd (netdev_htable s)" "hash_min t = hash_min s"
    by auto
  have h: "heap t = (heap s)(queue_pool d := None, cdev d := None, devname d := None, nd := None)"
    using t(2) by (auto simp: unlinked_def fun_eq_iff)
  have "device_of t = (device_of s)(pid := None)"
  proof (rule device_of_unlink[OF assms(3,6)])
    fix p
    assume "p \<noteq> nd" "p \<in> set (hash_all (netdev_htable s))"
    with devs_ok_all[OF assms(2)] obtain e where "heap s p = Some (ODev e)" by blast
    with \<open>p \<noteq> nd\<close> assms(7,13) have "p \<noteq> queue_pool d" "p \<noteq> devname d" "p \<noteq> cdev d" by (auto simp: buffers_ok_def)
    with \<open>p \<noteq> nd\<close> show "dev_key t p = dev_key s p" by (simp add: dev_key_def h)
  qed (use t in simp_all)
  with t h find_destroy_unlinks[OF assms(1,2) _ assms(5,6) d] assms(4) show ?thesis by auto
qed

lemma one_dummy_simps:
  "devs_keyed one_dummy" "heap one_dummy 1 = Some (ODev (dummy_dev 7 1))" "buffers_ok one_dummy 1 (dummy_dev 7 1)"
  "heap one_dummy 3 = Some (OCdev 0)" "netdev_minor_sem one_dummy = sem_free"
  "netdev_minors_used one_dummy = Some ((minors_prefix 0)[0 := 7])"
proof -
  have key: "dev_key one_dummy 1 = 7" by (simp add: one_dummy_def dev_key_def)
  show "devs_keyed one_dummy"
    using well_keyed_one[of "dev_key one_dummy" 1 7, OF key] by (simp add: devs_keyed_def one_dummy_def boot_minor_ok)
qed (simp_all add: one_dummy_def boot_minor_ok buffers_ok_def, simp add: boot_minor_def)

lemma unregister_dummy_witness:
  "\<exists>t. ndmgm_find_destroy 7 one_dummy = Inr (0, t) \<and> device_of t 7 = None \<and> CdevDel 0 \<in> set (trace t)"
  using unregister_dummy[OF one_dummy_ok(1,2) one_dummy_simps(1) one_dummy_ok(3) _ one_dummy_ok(4) one_dummy_simps(3)
      _ _ _ _ _ _ one_dummy_simps(5,6), of 0] one_dummy_simps(4)[unfolded numeral_3_eq_3]
  by (auto simp: NETDEV_MAX_DEVICES_def)

text \<open>
  C39.  Unregistering a dummy device that has an open file never returns: \<open>ndmgm_destroy_dummy\<close>
  holds the device's semaphore for writing while \<open>fo_acc_destroy\<close>, called from its loop,
  waits for the same semaphore.
\<close>

theorem unregister_open_dummy_deadlocks:
  assumes "heap_ok s" "devs_ok s" "netdev_htable_sem s = sem_free" "pid \<noteq> - 1"
    and "device_of s pid = Some nd" "heap s nd = Some (ODev d)" "dummy d" "nd_sem d = sem_free"
    and "hash_all (foacc_htable d) = acc # accs" "heap s acc = Some (OAcc a)" "nddata a = nd"
    and "acc_sem a = sem_free" "distinct (fo_queue a)" "pending_ok s (fo_queue a)"
  shows "ndmgm_find_destroy pid s = Inl Blocked"
proof -
  have pos: "0 < nd" "0 < acc" "acc \<noteq> nd" using assms(1,6,10) heap_ok_pos by auto
  have "pending_ok (unlinked s nd d) (fo_queue a)"
    using assms(6,14) by (fastforce simp: pending_ok_def unlinked_def)
  then have "ndmgm_destroy nd (unlinked s nd d) = Inl Blocked"
    using pos assms
    by (intro destroy_dummy_open_blocks[where d = "d\<lparr>users := users d - 1\<rparr>" and acc = acc and accs = accs and a = a]) simp_all
  with find_destroy_unlinks[OF assms(1,2) _ assms(4-6)] assms(3) show ?thesis by simp
qed

text \<open>The dummy device of pid 7 with one file open on it.\<close>

definition open_dummy :: kst where
  "open_dummy = one_dummy\<lparr>heap := (heap one_dummy)(1 \<mapsto> ODev (dev_with_acc one_dummy 42 5 (dummy_dev 7 1)),
     5 \<mapsto> OAcc (new_acc 1 42 6), 6 \<mapsto> OBuf (replicate NETDEV_FO_QUEUE_SIZE 0)), next_addr := 7\<rparr>"

lemma open_dummy_ok: "heap_ok open_dummy" "devs_ok open_dummy" "netdev_htable_sem open_dummy = sem_free"
  "device_of open_dummy 7 = Some 1"
proof -
  have key: "dev_key open_dummy 1 = 7" by (simp add: open_dummy_def dev_key_def dev_with_acc_def)
  show "device_of open_dummy 7 = Some 1"
    using lookup_one[of "dev_key open_dummy" 1 7, OF key] by (simp add: device_of_def open_dummy_def one_dummy_def boot_minor_ok)
qed (auto simp: open_dummy_def one_dummy_def heap_ok_def devs_ok_def hash_add_def hash_init_def boot_minor_ok split: if_splits)

lemma unregister_open_dummy_deadlocks_witness:
  "ndmgm_find_destroy 7 open_dummy = Inl Blocked"
  by (rule unregister_open_dummy_deadlocks[OF open_dummy_ok(1-3) _ open_dummy_ok(4),
        where d = "dev_with_acc one_dummy 42 5 (dummy_dev 7 1)" and acc = 5 and accs = "[]" and a = "new_acc 1 42 6"])
    (simp_all add: open_dummy_def dev_with_acc_def hash_all_one new_acc_def zero_acc_def pending_ok_def)

section \<open>Properties: unloading the module\<close>

text \<open>No device's name or pool is itself a device.\<close>

definition ptrs_ok :: "kst \<Rightarrow> bool" where
  "ptrs_ok s \<longleftrightarrow> (\<forall>p d q e. heap s p = Some (ODev d) \<longrightarrow> heap s q = Some (ODev e) \<longrightarrow> q \<noteq> devname d \<and> q \<noteq> queue_pool d)"

definition end_inv :: "addr \<Rightarrow> kevent list \<Rightarrow> kst \<Rightarrow> bool" where
  "end_inv p T s \<longleftrightarrow> netdev_htable_sem s = sem_free\<lparr>writer := True\<rparr> \<and> trace s = T \<and> ptrs_ok s \<and>
     (\<exists>d. heap s p = Some (ODev d) \<and> dummy d)"

lemma ptrs_ok_upd:
  assumes "ptrs_ok s" "heap s nd = Some (ODev d)" "devname d' = devname d" "queue_pool d' = queue_pool d"
    and "heap t = (heap s)(nd \<mapsto> ODev d')"
  shows "ptrs_ok t"
  using assms unfolding ptrs_ok_def by simp

lemma ptrs_ok_free: "ptrs_ok s \<Longrightarrow> heap t = (heap s)(q := None) \<Longrightarrow> ptrs_ok t"
  unfolding ptrs_ok_def by (metis fun_upd_apply option.distinct(1))

lemma end_inv_upd:
  "end_inv p T s \<Longrightarrow> heap s nd = Some (ODev d) \<Longrightarrow> devname d' = devname d \<Longrightarrow> queue_pool d' = queue_pool d \<Longrightarrow>
     dummy d' = dummy d \<Longrightarrow> end_inv p T (s\<lparr>heap := (heap s)(nd \<mapsto> ODev d')\<rparr>)"
  by (auto simp: end_inv_def intro: ptrs_ok_upd)

lemma end_inv_kfree:
  "end_inv p T s \<Longrightarrow> q \<noteq> p \<Longrightarrow> kfree q s = Inr (x, t) \<Longrightarrow> end_inv p T t"
  by (auto simp: end_inv_def kfree_def split: if_splits option.splits intro: ptrs_ok_free)

lemma end_inv_htable: "end_inv p T (s\<lparr>netdev_htable := h\<rparr>) \<longleftrightarrow> end_inv p T s"
  by (simp add: end_inv_def ptrs_ok_def)

lemma get_dev_Inr: "get_dev nd s = Inr (d, t) \<longleftrightarrow> t = s \<and> 0 < nd \<and> heap s nd = Some (ODev d)"
  by (auto simp: get_dev_def load_def kflow split: option.splits obj.splits if_splits)

lemma mod_dev_Inr:
  "mod_dev nd f s = Inr (x, t) \<longleftrightarrow> (\<exists>d. 0 < nd \<and> heap s nd = Some (ODev d) \<and> t = s\<lparr>heap := (heap s)(nd \<mapsto> ODev (f d))\<rparr>)"
  by (auto simp: mod_dev_def bindK_eq_Inr get_dev_Inr store_def split: option.splits if_splits)

lemma end_inv_mod_dev:
  assumes "end_inv p T s" "mod_dev nd f s = Inr (x, t)"
    and "\<And>d. devname (f d) = devname d \<and> queue_pool (f d) = queue_pool d \<and> dummy (f d) = dummy d"
  shows "end_inv p T t"
  using assms by (auto simp: mod_dev_Inr intro!: end_inv_upd)

lemma end_inv_trylock: "end_inv p T s \<Longrightarrow> dev_write_trylock nd s = Inr (ok, t) \<Longrightarrow> end_inv p T t"
  by (auto simp: dev_write_trylock_def bindK_eq_Inr thenK_eq_Inr get_dev_Inr mod_dev_Inr returnK_def split: option.splits
      intro!: end_inv_upd)

lemma end_inv_up_write: "end_inv p T s \<Longrightarrow> dev_up_write nd s = Inr (ok, t) \<Longrightarrow> end_inv p T t"
  by (auto simp: dev_up_write_def bindK_eq_Inr get_dev_Inr mod_dev_Inr failK_def split: option.splits intro!: end_inv_upd)

lemma end_inv_destroy_server:
  assumes inv: "end_inv p T s" and nd: "heap s nd = Some (ODev d)" "\<not> dummy d"
    and run: "ndmgm_destroy_server nd s = Inr (r, t)"
  shows "end_inv p T t"
proof -
  from run obtain ok s1 where lock: "dev_write_trylock nd s = Inr (ok, s1)"
    and rest: "(if \<not> ok then returnK 1 else thenK (mod_dev nd (\<lambda>d. d\<lparr>active := False\<rparr>))
       (bindK (ndmgm_refs nd) (\<lambda>n.
          if 1 <s n then thenK (dev_up_write nd) (returnK 1)
          else thenK (dev_up_write nd) (bindK (get_dev nd) (\<lambda>d. thenK (kmem_cache_destroy (queue_pool d))
               (thenK (kfree (devname d)) (thenK (kfree nd) (returnK 0)))))))) s1 = Inr (r, t)"
    by (auto simp: ndmgm_destroy_server_def bindK_eq_Inr)
  have i1: "end_inv p T s1" using inv lock by (rule end_inv_trylock)
  show ?thesis
  proof (cases ok)
    case False
    with rest i1 show ?thesis by (simp add: returnK_def)
  next
    case True
    with rest obtain s2 s3 where s2: "mod_dev nd (\<lambda>d. d\<lparr>active := False\<rparr>) s1 = Inr ((), s2)"
      and up: "dev_up_write nd s2 = Inr ((), s3)"
      and tail: "t = s3 \<or> (\<exists>e s4 s5. heap s3 nd = Some (ODev e) \<and> kfree (queue_pool e) s3 = Inr ((), s4) \<and>
        kfree (devname e) s4 = Inr ((), s5) \<and> kfree nd s5 = Inr ((), t))"
      by (auto simp: bindK_eq_Inr thenK_eq_Inr ndmgm_refs_def get_dev_Inr returnK_def kmem_cache_destroy_def split: if_splits)
    have i3: "end_inv p T s3" by (rule end_inv_up_write[OF end_inv_mod_dev[OF i1 s2] up]) simp
    from tail show ?thesis
    proof
      assume "t = s3"
      with i3 show ?thesis by simp
    next
      assume "\<exists>e s4 s5. heap s3 nd = Some (ODev e) \<and> kfree (queue_pool e) s3 = Inr ((), s4) \<and>
        kfree (devname e) s4 = Inr ((), s5) \<and> kfree nd s5 = Inr ((), t)"
      then obtain e s4 s5 where fr: "heap s3 nd = Some (ODev e)" "kfree (queue_pool e) s3 = Inr ((), s4)"
        "kfree (devname e) s4 = Inr ((), s5)" "kfree nd s5 = Inr ((), t)" by blast
      have "p \<noteq> queue_pool e" "p \<noteq> devname e" using i3 fr(1) by (auto simp: end_inv_def ptrs_ok_def)
      moreover have "p \<noteq> nd" using inv nd by (auto simp: end_inv_def)
      ultimately show ?thesis using i3 fr(2-4) by (metis end_inv_kfree)
    qed
  qed
qed

lemma end_inv_destroy:
  assumes inv: "end_inv p T s" and run: "ndmgm_destroy nd s = Inr (r, t)"
  shows "end_inv p T t"
proof (cases "nd = NULL")
  case True
  with assms show ?thesis by (simp add: ndmgm_destroy_def returnK_def)
next
  case False
  with run obtain d where d: "heap s nd = Some (ODev d)"
    by (auto simp: ndmgm_destroy_def bindK_eq_Inr get_dev_Inr)
  show ?thesis
  proof (cases "dummy d")
    case True
    have "netdev_htable_sem s \<noteq> sem_free" using inv by (auto simp: end_inv_def sem_free_def)
    with destroy_dummy_locked[of nd s d] False d True run inv show ?thesis
      by (auto split: if_splits intro!: end_inv_upd)
  next
    case server: False
    with run d False have "ndmgm_destroy_server nd s = Inr (r, t)"
      by (simp add: ndmgm_destroy_def bindK_def)
    with inv d server show ?thesis by (rule end_inv_destroy_server)
  qed
qed

lemma end_inv_end_devices: "end_inv p T s \<Longrightarrow> end_devices nds s = Inr (x, t) \<Longrightarrow> end_inv p T t"
proof (induction nds arbitrary: s)
  case Nil
  then show ?case by (simp add: returnK_def)
next
  case (Cons nd nds)
  from Cons.prems(2) obtain s1 s2 s3 r y where steps: "unlink_dev nd s = Inr (y, s1)" "ndmgm_put nd s1 = Inr (y, s2)"
    "ndmgm_destroy nd s2 = Inr (r, s3)" "end_devices nds s3 = Inr (x, t)"
    by (auto simp: thenK_eq_Inr bindK_eq_Inr)
  have "end_inv p T s1" using Cons.prems(1) steps(1) by (auto simp: unlink_dev_def modifyK_def end_inv_htable)
  then have "end_inv p T s2" using steps(2) unfolding ndmgm_put_def by (rule end_inv_mod_dev) simp
  then have "end_inv p T s3" using steps(3) by (rule end_inv_destroy)
  then show ?case using steps(4) by (rule Cons.IH)
qed

text \<open>
  C40.  Unloading the module never destroys a dummy device.  \<open>ndmgm_end\<close> holds the table's
  semaphore for writing, and \<open>ndmgm_destroy_allacc\<close>, which every dummy device's destruction
  goes through, needs it too and gives up: \<open>ndmgm_end\<close> reports success, but each dummy device
  is still in memory, and no character device was removed (the trace of outside effects is
  unchanged).
\<close>

theorem end_leaves_dummy_devices:
  assumes "netdev_htable_sem s = sem_free" "ptrs_ok s" "heap s p = Some (ODev d)" "dummy d" "ndmgm_end s = Inr (r, t)"
  shows "r = 0 \<and> (\<exists>d'. heap t p = Some (ODev d') \<and> dummy d') \<and> trace t = trace s"
proof -
  let ?s = "s\<lparr>netdev_htable_sem := sem_free\<lparr>writer := True\<rparr>\<rparr>"
  have "end_inv p (trace s) ?s" using assms(2-4) by (auto simp: end_inv_def ptrs_ok_def)
  moreover from assms(1,5) obtain v where v: "end_devices (hash_all (netdev_htable s)) ?s = Inr ((), v)"
    and t: "r = 0" "heap t = heap v" "trace t = trace v"
    by (auto simp: ndmgm_end_def bindK_eq_Inr thenK_eq_Inr htable_write_trylock_def write_trylock_def getK_def modifyK_def
        htable_up_write_def returnK_def split: option.splits)
  ultimately have "end_inv p (trace s) v" by (blast intro: end_inv_end_devices)
  with t show ?thesis by (auto simp: end_inv_def)
qed

lemma one_dummy_end: "\<exists>t. ndmgm_end one_dummy = Inr (0, t)"
proof -
  have all: "hash_all (netdev_htable one_dummy) = [1]" by (simp add: one_dummy_def hash_all_one)
  let ?v = "one_dummy\<lparr>netdev_htable_sem := sem_free\<lparr>writer := True\<rparr>, netdev_htable := hash_del 1 (netdev_htable one_dummy),
    heap := (heap one_dummy)(1 \<mapsto> ODev (dummy_dev 7 1\<lparr>users := 0\<rparr>))\<rparr>"
  have "ndmgm_destroy 1 ?v = Inr (1, ?v\<lparr>heap := (heap ?v)(1 \<mapsto> ODev (dummy_dev 7 1\<lparr>users := 0, active := False\<rparr>))\<rparr>)"
    by (subst destroy_dummy_locked[where d = "dummy_dev 7 1\<lparr>users := 0\<rparr>"]) (auto simp: sem_free_def dummy_dev_def fresh_dev_def zero_dev_def)
  then show ?thesis
    using one_dummy_ok(3) one_dummy_simps(2) all
    by (simp add: ndmgm_end_def kflow htable_write_trylock_def htable_up_write_def lock_exec unlink_dev_def ndmgm_put_def)
qed

lemma end_leaves_dummy_devices_witness:
  "\<exists>t d'. ndmgm_end one_dummy = Inr (0, t) \<and> heap t 1 = Some (ODev d') \<and> CdevDel 0 \<notin> set (trace t)"
proof -
  obtain t where run: "ndmgm_end one_dummy = Inr (0, t)" using one_dummy_end by blast
  have "ptrs_ok one_dummy" by (simp add: ptrs_ok_def one_dummy_def)
  from end_leaves_dummy_devices[OF one_dummy_ok(3) this one_dummy_simps(2) _ run] run show ?thesis
    by (auto simp: one_dummy_def)
qed

end
