(* ===== verification/Wire.thy ===== *)
theory Wire
  imports Devices
begin

text \<open>
  Bytes on the wire and in memory: little-endian words, the argument structures of
  \<open>include/fo_struct.h\<close> in their 64-bit layout, \<open>memcpy\<close> between buffers, and the
  serialisation of a file operation (\<open>fo_serialize\<close>, \<open>fo_deserialize\<close> and
  \<open>fo_deserialize_toreq\<close> of \<open>kernel/fo_comm.c\<close>).
\<close>

text \<open>Updates of the state in one order, so that states reached on different ways compare.\<close>

lemma kst_sort:
  "heap_update h (next_addr_update n s) = next_addr_update n (heap_update h s)"
  "heap_update h (tick_update k s) = tick_update k (heap_update h s)"
  "heap_update h (netdev_htable_update b s) = netdev_htable_update b (heap_update h s)"
  "heap_update h (netdev_htable_sem_update l s) = netdev_htable_sem_update l (heap_update h s)"
  "heap_update h (trace_update e s) = trace_update e (heap_update h s)"
  "next_addr_update n (tick_update k s) = tick_update k (next_addr_update n s)"
  "next_addr_update n (netdev_htable_update b s) = netdev_htable_update b (next_addr_update n s)"
  "next_addr_update n (netdev_htable_sem_update l s) = netdev_htable_sem_update l (next_addr_update n s)"
  "next_addr_update n (trace_update e s) = trace_update e (next_addr_update n s)"
  "tick_update k (netdev_htable_update b s) = netdev_htable_update b (tick_update k s)"
  "tick_update k (netdev_htable_sem_update l s) = netdev_htable_sem_update l (tick_update k s)"
  "tick_update k (trace_update e s) = trace_update e (tick_update k s)"
  "netdev_htable_update b (netdev_htable_sem_update l s) = netdev_htable_sem_update l (netdev_htable_update b s)"
  "netdev_htable_update b (trace_update e s) = trace_update e (netdev_htable_update b s)"
  "netdev_htable_sem_update l (trace_update e s) = trace_update e (netdev_htable_sem_update l s)"
  for s :: kst
  by (cases s; simp)+

declare kst_sort [simp]

section \<open>Little-endian words\<close>

primrec le_bytes :: "nat \<Rightarrow> 'a::len word \<Rightarrow> byte list" where
  "le_bytes 0 w = []"
| "le_bytes (Suc n) w = ucast w # le_bytes n (drop_bit 8 w)"

primrec le_word :: "byte list \<Rightarrow> 'a::len word" where
  "le_word [] = 0"
| "le_word (b # bs) = or (ucast b) (push_bit 8 (le_word bs))"

definition get32 :: "nat \<Rightarrow> byte list \<Rightarrow> i32" where
  "get32 off bs = le_word (take 4 (drop off bs))"

definition get64 :: "nat \<Rightarrow> byte list \<Rightarrow> i64" where
  "get64 off bs = le_word (take 8 (drop off bs))"

definition put32 :: "nat \<Rightarrow> i32 \<Rightarrow> byte list \<Rightarrow> byte list" where
  "put32 off x bs = take off bs @ le_bytes 4 x @ drop (off + 4) bs"

definition put64 :: "nat \<Rightarrow> i64 \<Rightarrow> byte list \<Rightarrow> byte list" where
  "put64 off x bs = take off bs @ le_bytes 8 x @ drop (off + 8) bs"

lemma le_bytes_len [simp]: "length (le_bytes n w) = n"
  by (induction n arbitrary: w) simp_all

lemma le_word_bytes: "le_word (le_bytes n w) = take_bit (8 * n) (w :: 'a::len word)"
proof (induction n arbitrary: w)
  case (Suc n)
  have "take_bit (8 * Suc n) w = or (take_bit 8 w) (push_bit 8 (take_bit (8 * n) (drop_bit 8 w)))"
    by (rule bit_eqI) (auto simp: bit_simps)
  moreover have "ucast (ucast w :: byte) = take_bit 8 w"
    by (rule bit_eqI) (auto simp: bit_simps)
  ultimately show ?case using Suc.IH[of "drop_bit 8 w"] by simp
qed simp

text \<open>
  What the code relies on when it reads or writes a member of a structure through its bytes:
  the encoding has a fixed width and can be read back, \<open>get\<close> reads at an offset and
  \<open>put\<close> replaces there.
\<close>

locale field =
  fixes enc :: "'a \<Rightarrow> byte list" and width :: nat
    and get :: "nat \<Rightarrow> byte list \<Rightarrow> 'a" and put :: "nat \<Rightarrow> 'a \<Rightarrow> byte list \<Rightarrow> byte list"
  assumes enc_len: "length (enc x) = width"
    and get_enc: "length pre = off \<Longrightarrow> get off (pre @ enc x @ post) = x"
    and get_local: "take width (drop off bs) = take width (drop off' bs') \<Longrightarrow> get off bs = get off' bs'"
    and put_eq: "put off x bs = take off bs @ enc x @ drop (off + width) bs"
begin

lemma get_enc0: "get 0 (enc x @ post) = x"
  using get_enc[of "[]" 0] by simp

lemma get_enc_last: "length pre = off \<Longrightarrow> get off (pre @ enc x) = x"
  using get_enc[of pre off x "[]"] by simp

lemma put_len: "off + width \<le> length bs \<Longrightarrow> length (put off x bs) = length bs"
  by (simp add: put_eq enc_len)

lemma get_put: "off + width \<le> length bs \<Longrightarrow> get off (put off x bs) = x"
  using get_enc[of "take off bs" off x "drop (off + width) bs"] by (simp add: put_eq)

text \<open>A write does not touch the bytes beside it, so no other member changes.\<close>

lemma put_other:
  assumes "off + width \<le> length bs" "m + n \<le> off \<or> off + width \<le> m"
  shows "take n (drop m (put off x bs)) = take n (drop m bs)"
proof -
  have len: "length (take off bs) = off" using assms(1) by simp
  show ?thesis
    using assms len by (auto simp: put_eq enc_len drop_take min_def)
qed

lemma get_put_other:
  "off + width \<le> length bs \<Longrightarrow> m + width \<le> off \<or> off + width \<le> m \<Longrightarrow> get m (put off x bs) = get m bs"
  by (intro get_local put_other)

lemma put_put: "off + width \<le> length bs \<Longrightarrow> put off y (put off x bs) = put off y bs"
  by (simp add: put_eq enc_len)

end

lemma le_word_bytes32: "le_word (le_bytes 4 (x :: i32)) = x"
  by (simp add: le_word_bytes take_bit_word_eq_self)

lemma le_word_bytes64: "le_word (le_bytes 8 (x :: i64)) = x"
  by (simp add: le_word_bytes take_bit_word_eq_self)

interpretation f32: field "le_bytes 4" 4 get32 put32
  by unfold_locales (auto simp: get32_def put32_def le_word_bytes32)

interpretation f64: field "le_bytes 8" 8 get64 put64
  by unfold_locales (auto simp: get64_def put64_def le_word_bytes64)

section \<open>Copying\<close>

text \<open>\<open>memcpy\<close> from a buffer, from a message, and into a buffer.  Reading past the end is a
  fault; writing past it stores what fits and records the rest.\<close>

definition read_bytes :: "byte list \<Rightarrow> nat \<Rightarrow> nat \<Rightarrow> byte list kprog" where
  [kexec]: "read_bytes b off n =
    (if off + n \<le> length b then returnK (take n (drop off b)) else failK OutOfBounds)"

definition read_mem :: "addr \<Rightarrow> nat \<Rightarrow> nat \<Rightarrow> byte list kprog" where
  [kexec]: "read_mem p off n = (if n = 0 then returnK [] else bindK (get_buf p) (\<lambda>b. read_bytes b off n))"

definition poke :: "nat \<Rightarrow> byte list \<Rightarrow> byte list \<Rightarrow> byte list" where
  "poke off bs b = take (length b) (take off b @ bs @ drop (off + length bs) b)"

definition write_mem :: "addr \<Rightarrow> nat \<Rightarrow> byte list \<Rightarrow> unit kprog" where
  [kexec]: "write_mem p off bs =
    (if bs = [] then returnK ()
     else bindK (get_buf p) (\<lambda>b. thenK (store p (OBuf (poke off bs b)))
       (if off + length bs \<le> length b then returnK () else emit (Overrun (off + length bs - max off (length b))))))"

definition arg_get32 :: "addr \<Rightarrow> nat \<Rightarrow> i32 kprog" where
  [kexec]: "arg_get32 p off = bindK (read_mem p off 4) (\<lambda>b. returnK (le_word b))"

definition arg_get64 :: "addr \<Rightarrow> nat \<Rightarrow> i64 kprog" where
  [kexec]: "arg_get64 p off = bindK (read_mem p off 8) (\<lambda>b. returnK (le_word b))"

definition arg_put32 :: "addr \<Rightarrow> nat \<Rightarrow> i32 \<Rightarrow> unit kprog" where
  [kexec]: "arg_put32 p off x = write_mem p off (le_bytes 4 x)"

definition arg_put64 :: "addr \<Rightarrow> nat \<Rightarrow> i64 \<Rightarrow> unit kprog" where
  [kexec]: "arg_put64 p off x = write_mem p off (le_bytes 8 x)"

lemma poke_in: "off + length bs \<le> length b \<Longrightarrow> poke off bs b = take off b @ bs @ drop (off + length bs) b"
  by (simp add: poke_def)

lemma poke_zeros: "length pre = off \<Longrightarrow> length bs \<le> n \<Longrightarrow>
    poke off bs (pre @ replicate n 0) = pre @ bs @ replicate (n - length bs) 0"
  by (simp add: poke_in)

lemma poke_zeros0: "length bs \<le> n \<Longrightarrow> poke 0 bs (replicate n 0) = bs @ replicate (n - length bs) 0"
  by (simp add: poke_in)

lemma poke_whole: "length bs = length b \<Longrightarrow> poke 0 bs b = bs"
  by (simp add: poke_def)

lemma read_mem_run:
  "0 < p \<Longrightarrow> heap s p = Some (OBuf b) \<Longrightarrow> off + n \<le> length b \<Longrightarrow> read_mem p off n s = Inr (take n (drop off b), s)"
  by (simp add: read_mem_def read_bytes_def kflow)

lemma write_mem_run:
  "0 < p \<Longrightarrow> heap s p = Some (OBuf b) \<Longrightarrow> off + length bs \<le> length b \<Longrightarrow>
    write_mem p off bs s = Inr ((), s\<lparr>heap := (heap s)(p \<mapsto> OBuf (poke off bs b))\<rparr>)"
  by (auto simp: write_mem_def kflow poke_def fun_upd_idem)

lemma arg_get32_run:
  "0 < p \<Longrightarrow> heap s p = Some (OBuf b) \<Longrightarrow> off + 4 \<le> length b \<Longrightarrow> arg_get32 p off s = Inr (get32 off b, s)"
  by (simp add: arg_get32_def bindK_def read_mem_run returnK_def get32_def)

lemma arg_get64_run:
  "0 < p \<Longrightarrow> heap s p = Some (OBuf b) \<Longrightarrow> off + 8 \<le> length b \<Longrightarrow> arg_get64 p off s = Inr (get64 off b, s)"
  by (simp add: arg_get64_def bindK_def read_mem_run returnK_def get64_def)

lemma arg_put32_run:
  "0 < p \<Longrightarrow> heap s p = Some (OBuf b) \<Longrightarrow> off + 4 \<le> length b \<Longrightarrow>
    arg_put32 p off x s = Inr ((), s\<lparr>heap := (heap s)(p \<mapsto> OBuf (put32 off x b))\<rparr>)"
  by (simp add: arg_put32_def write_mem_run put32_def poke_in)

lemma arg_put64_run:
  "0 < p \<Longrightarrow> heap s p = Some (OBuf b) \<Longrightarrow> off + 8 \<le> length b \<Longrightarrow>
    arg_put64 p off x s = Inr ((), s\<lparr>heap := (heap s)(p \<mapsto> OBuf (put64 off x b))\<rparr>)"
  by (simp add: arg_put64_def write_mem_run put64_def poke_in)

lemmas arg_run = arg_get32_run arg_get64_run arg_put32_run arg_put64_run

section \<open>Argument structures\<close>

text \<open>
  The structures as the initialisers of \<open>kernel/fo_send.c\<close> build them, with their padding:
  \<open>s_fo_llseek\<close> has \<open>offset\<close> at 0, \<open>whence\<close> at 8, \<open>rvalue\<close> at
  16; \<open>s_fo_read\<close> and \<open>s_fo_write\<close> have \<open>data\<close>, \<open>size\<close>,
  \<open>offset\<close>, \<open>rvalue\<close> at 0, 8, 16, 24; the two ioctl structures have
  \<open>cmd\<close>, \<open>arg\<close>, \<open>rvalue\<close> at 0, 8, 16; \<open>s_fo_open\<close> has
  \<open>inode\<close> and \<open>rvalue\<close> at 0 and 8; the last two have \<open>rvalue\<close> alone.
\<close>

definition s_fo_llseek :: "i64 \<Rightarrow> i32 \<Rightarrow> i64 \<Rightarrow> byte list" where
  "s_fo_llseek offset whence rv = le_bytes 8 offset @ le_bytes 4 whence @ replicate 4 0 @ le_bytes 8 rv"

definition s_fo_rw :: "i64 \<Rightarrow> i64 \<Rightarrow> i64 \<Rightarrow> i64 \<Rightarrow> byte list" where
  "s_fo_rw ptr sz offset rv = le_bytes 8 ptr @ le_bytes 8 sz @ le_bytes 8 offset @ le_bytes 8 rv"

definition s_fo_ioctl :: "i32 \<Rightarrow> i64 \<Rightarrow> i64 \<Rightarrow> byte list" where
  "s_fo_ioctl cmd arg rv = le_bytes 4 cmd @ replicate 4 0 @ le_bytes 8 arg @ le_bytes 8 rv"

definition s_fo_open :: "i64 \<Rightarrow> i32 \<Rightarrow> byte list" where
  "s_fo_open inode rv = le_bytes 8 inode @ le_bytes 4 rv @ replicate 4 0"

definition s_fo_flush :: "i32 \<Rightarrow> byte list" where
  "s_fo_flush rv = le_bytes 4 rv"

lemma s_fo_lengths [simp]:
  "length (s_fo_llseek o1 w r) = 24" "length (s_fo_rw p n o2 r) = 32" "length (s_fo_ioctl c a r) = 24"
  "length (s_fo_open i e) = 16" "length (s_fo_flush e) = 4"
  by (simp_all add: s_fo_llseek_def s_fo_rw_def s_fo_ioctl_def s_fo_open_def s_fo_flush_def)

lemma llseek_fields [simp]:
  "get64 0 (s_fo_llseek o1 w r) = o1" "get32 8 (s_fo_llseek o1 w r) = w" "get64 16 (s_fo_llseek o1 w r) = r"
  "put64 16 r' (s_fo_llseek o1 w r) = s_fo_llseek o1 w r'"
  by (simp_all add: s_fo_llseek_def get64_def get32_def put64_def le_word_bytes32 le_word_bytes64)

lemma rw_fields [simp]:
  "get64 0 (s_fo_rw p n o1 r) = p" "get64 8 (s_fo_rw p n o1 r) = n" "get64 16 (s_fo_rw p n o1 r) = o1"
  "get64 24 (s_fo_rw p n o1 r) = r"
  "put64 0 p' (s_fo_rw p n o1 r) = s_fo_rw p' n o1 r"
  "put64 16 o' (s_fo_rw p n o1 r) = s_fo_rw p n o' r" "put64 24 r' (s_fo_rw p n o1 r) = s_fo_rw p n o1 r'"
  by (simp_all add: s_fo_rw_def get64_def put64_def le_word_bytes64)

lemma ioctl_fields [simp]:
  "get32 0 (s_fo_ioctl c a r) = c" "get64 8 (s_fo_ioctl c a r) = a" "get64 16 (s_fo_ioctl c a r) = r"
  "put64 16 r' (s_fo_ioctl c a r) = s_fo_ioctl c a r'"
  by (simp_all add: s_fo_ioctl_def get64_def get32_def put64_def le_word_bytes32 le_word_bytes64)

lemma open_fields [simp]:
  "get32 8 (s_fo_open i e) = e" "put32 8 e' (s_fo_open i e) = s_fo_open i e'"
  "get32 0 (s_fo_flush e) = e" "put32 0 e' (s_fo_flush e) = s_fo_flush e'"
  by (simp_all add: s_fo_open_def s_fo_flush_def get32_def put32_def le_word_bytes32)

section \<open>Serialising a file operation\<close>

text \<open>
  The layout of \<open>fo_serialize\<close>: access id, return value, the two sizes, the argument
  structure, the data.  The buffer is zeroed first; without an argument structure (or with an
  empty data part) the rest of it stays zero, although the sizes were counted.
\<close>

definition fo_header :: "fo_req \<Rightarrow> byte list" where
  "fo_header r = le_bytes 4 (req_access_id r) @ le_bytes 4 (rvalue r) @ le_bytes 8 (size r) @ le_bytes 8 (data_size r)"

definition fo_bufflen :: "fo_req \<Rightarrow> i64" where
  "fo_bufflen r = 4 + 4 + 8 + 8 + size r + data_size r"

definition fo_serialize :: "addr \<Rightarrow> (addr \<times> i64) kprog" where
  "fo_serialize p = bindK (get_req p) (\<lambda>r.
     bindK (kalloc (OBuf (replicate (unat (fo_bufflen r)) 0))) (\<lambda>b.
       if b = NULL then returnK (NULL, fo_bufflen r)
       else thenK (write_mem b 0 (le_bytes 4 (req_access_id r)))
         (thenK (write_mem b 4 (le_bytes 4 (rvalue r)))
         (thenK (write_mem b 8 (le_bytes 8 (size r)))
         (thenK (write_mem b 16 (le_bytes 8 (data_size r)))
         (if args r = NULL then returnK (b, fo_bufflen r)
          else bindK (read_mem (args r) 0 (unat (size r))) (\<lambda>a.
            thenK (write_mem b 24 a)
            (if data_size r = 0 then returnK (b, fo_bufflen r)
             else bindK (read_mem (data r) 0 (unat (data_size r))) (\<lambda>x.
               thenK (write_mem b (unat (24 + size r)) x) (returnK (b, fo_bufflen r)))))))))))"

text \<open>The four copies both deserialisers start with; \<open>msg\<close> is the payload of the message.\<close>

definition fo_read_header :: "addr \<Rightarrow> byte list \<Rightarrow> unit kprog" where
  "fo_read_header p msg =
     bindK (read_bytes msg 0 4) (\<lambda>b. thenK (mod_req p (\<lambda>r. r\<lparr>req_access_id := le_word b\<rparr>))
     (bindK (read_bytes msg 4 4) (\<lambda>b. thenK (mod_req p (\<lambda>r. r\<lparr>rvalue := le_word b\<rparr>))
     (bindK (read_bytes msg 8 8) (\<lambda>b. thenK (mod_req p (\<lambda>r. r\<lparr>size := le_word b\<rparr>))
     (bindK (read_bytes msg 16 8) (\<lambda>b. mod_req p (\<lambda>r. r\<lparr>data_size := le_word b\<rparr>))))))))"

definition fo_new_args :: "addr \<Rightarrow> bool kprog" where
  "fo_new_args p = bindK (get_req p) (\<lambda>r.
     bindK (kalloc (OBuf (replicate (unat (size r)) 0))) (\<lambda>a.
       thenK (mod_req p (\<lambda>r. r\<lparr>args := a\<rparr>)) (returnK (a \<noteq> NULL))))"

definition fo_new_data :: "addr \<Rightarrow> bool kprog" where
  "fo_new_data p = bindK (get_req p) (\<lambda>r.
     bindK (kalloc (OBuf (replicate (unat (data_size r)) 0))) (\<lambda>a.
       thenK (mod_req p (\<lambda>r. r\<lparr>data := a\<rparr>)) (returnK (a \<noteq> NULL))))"

definition fo_copy_args :: "addr \<Rightarrow> byte list \<Rightarrow> unit kprog" where
  "fo_copy_args p msg = bindK (get_req p) (\<lambda>r.
     bindK (read_bytes msg 24 (unat (size r))) (write_mem (args r) 0))"

definition fo_copy_data :: "addr \<Rightarrow> byte list \<Rightarrow> unit kprog" where
  "fo_copy_data p msg = bindK (get_req p) (\<lambda>r.
     bindK (read_bytes msg (unat (24 + size r)) (unat (data_size r))) (write_mem (data r) 0))"

text \<open>\<open>fo_deserialize_toreq\<close>, its result as a boolean: the request, or NULL.\<close>

definition fo_deserialize_toreq :: "addr \<Rightarrow> byte list \<Rightarrow> bool kprog" where
  "fo_deserialize_toreq p msg =
    (if p = NULL then returnK False
     else thenK (fo_read_header p msg) (bindK (get_req p) (\<lambda>r.
       if size r = 0 then returnK True
       else bindK (if args r = NULL then fo_new_args p else returnK True) (\<lambda>ok.
         if \<not> ok then returnK False
         else thenK (fo_copy_args p msg)
           (if data_size r = 0 then returnK True
            else bindK (if data r = NULL then fo_new_data p else returnK True) (\<lambda>ok.
              if \<not> ok then returnK False
              else thenK (fo_copy_data p msg) (returnK True)))))))"

definition fo_free_req :: "addr \<Rightarrow> addr kprog" where
  "fo_free_req p = bindK (get_req p) (\<lambda>r.
     thenK (kfree (data r)) (thenK (kfree (args r)) (thenK (kfree p) (returnK NULL))))"

definition fo_deserialize :: "addr \<Rightarrow> byte list \<Rightarrow> addr kprog" where
  "fo_deserialize acc msg = bindK (get_acc acc) (\<lambda>a. bindK (get_dev (nddata a)) (\<lambda>d.
     bindK (kmem_cache_alloc (queue_pool d)) (\<lambda>p.
     if p = NULL then returnK NULL
     else thenK (mod_req p (\<lambda>r. r\<lparr>args := NULL, data := NULL\<rparr>))
      (thenK (fo_read_header p msg) (bindK (get_req p) (\<lambda>r.
       if size r = 0 then returnK p
       else bindK (fo_new_args p) (\<lambda>ok.
         if \<not> ok then fo_free_req p
         else thenK (fo_copy_args p msg)
           (if data_size r = 0 then returnK p
            else bindK (fo_new_data p) (\<lambda>ok.
              if \<not> ok then fo_free_req p
              else thenK (fo_copy_data p msg) (returnK p))))))))))"

section \<open>What is sent\<close>

text \<open>The abstract message: the header, then both parts, whose lengths the header gives.\<close>

definition fo_wire :: "i32 \<Rightarrow> i32 \<Rightarrow> byte list \<Rightarrow> byte list \<Rightarrow> byte list" where
  "fo_wire aid rv a x = le_bytes 4 aid @ le_bytes 4 rv @ le_bytes 8 (of_nat (length a) :: i64) @
     le_bytes 8 (of_nat (length x) :: i64) @ a @ x"

definition req_bytes :: "kst \<Rightarrow> fo_req \<Rightarrow> byte list \<Rightarrow> byte list \<Rightarrow> bool" where
  "req_bytes s r a x \<longleftrightarrow> 0 < args r \<and> heap s (args r) = Some (OBuf a) \<and> unat (size r) = length a \<and>
     unat (data_size r) = length x \<and> (x \<noteq> [] \<longrightarrow> 0 < data r \<and> heap s (data r) = Some (OBuf x))"

definition MSG_MAX :: nat where
  "MSG_MAX = 4611686018427387904" \<comment> \<open>\<open>2 ^ 62\<close>, more than any message holds\<close>

lemma fo_wire_len [simp]: "length (fo_wire aid rv a x) = 24 + length a + length x"
  by (simp add: fo_wire_def)

lemma unat_of_small: "n < MSG_MAX \<Longrightarrow> unat (of_nat n :: i64) = n"
  by (simp add: MSG_MAX_def unat_of_nat)

lemma of_unat: "unat (w :: i64) = n \<Longrightarrow> w = of_nat n"
  by auto

lemma fo_bufflen_nat:
  assumes "unat (size r) = n" "unat (data_size r) = m" "24 + n + m < MSG_MAX"
  shows "fo_bufflen r = of_nat (24 + n + m)" "unat (fo_bufflen r) = 24 + n + m"
proof -
  show eq: "fo_bufflen r = of_nat (24 + n + m)"
    using assms(1,2)[THEN of_unat] by (simp add: fo_bufflen_def)
  show "unat (fo_bufflen r) = 24 + n + m" using assms(3) unfolding eq by (rule unat_of_small)
qed

lemma unat_24_plus:
  assumes "unat (w :: i64) = n" "24 + n < MSG_MAX"
  shows "unat (24 + w) = 24 + n"
proof -
  have "24 + w = of_nat (24 + n)" using of_unat[OF assms(1)] by simp
  then show ?thesis using unat_of_small[OF assms(2)] by simp
qed

lemma fo_header_len [simp]: "length (fo_header r) = 24"
  by (simp add: fo_header_def)

lemma fo_wire_header:
  "unat (size r) = length a \<Longrightarrow> unat (data_size r) = length x \<Longrightarrow>
    fo_wire (req_access_id r) (rvalue r) a x = fo_header r @ a @ x"
  by (auto simp: fo_wire_def fo_header_def dest!: of_unat)

lemma write_header_run:
  assumes "0 < b" "heap t b = Some (OBuf (replicate n 0))" "24 \<le> n"
  shows "thenK (write_mem b 0 (le_bytes 4 (req_access_id r))) (thenK (write_mem b 4 (le_bytes 4 (rvalue r)))
    (thenK (write_mem b 8 (le_bytes 8 (size r))) (thenK (write_mem b 16 (le_bytes 8 (data_size r))) k))) t =
    k (t\<lparr>heap := (heap t)(b \<mapsto> OBuf (fo_header r @ replicate (n - 24) 0))\<rparr>)"
proof -
  let ?h1 = "le_bytes 4 (req_access_id r)" let ?h2 = "?h1 @ le_bytes 4 (rvalue r)"
  let ?h3 = "?h2 @ le_bytes 8 (size r)"
  have "poke 0 ?h1 (replicate n 0) = ?h1 @ replicate (n - 4) 0" using assms(3) by (simp add: poke_zeros0)
  moreover have "poke 4 (le_bytes 4 (rvalue r)) (?h1 @ replicate (n - 4) 0) = ?h2 @ replicate (n - 8) 0"
    using assms(3) poke_zeros[of ?h1 4 "le_bytes 4 (rvalue r)" "n - 4"] by simp
  moreover have "poke 8 (le_bytes 8 (size r)) (?h2 @ replicate (n - 8) 0) = ?h3 @ replicate (n - 16) 0"
    using assms(3) poke_zeros[of ?h2 8 "le_bytes 8 (size r)" "n - 8"] by simp
  moreover have "poke 16 (le_bytes 8 (data_size r)) (?h3 @ replicate (n - 16) 0) = fo_header r @ replicate (n - 24) 0"
    using assms(3) poke_zeros[of ?h3 16 "le_bytes 8 (data_size r)" "n - 16"] by (simp add: fo_header_def)
  ultimately show ?thesis using assms by (simp add: thenK_def bindK_def write_mem_run)
qed

lemma serialize_run:
  assumes ok: "heap_ok s" "heap s p = Some (OReq r)" and bytes: "req_bytes s r a x"
    and small: "24 + length a + length x < MSG_MAX" and can: "can_alloc s"
  shows "fo_serialize p s = Inr ((next_addr s, of_nat (24 + length a + length x)),
    s\<lparr>heap := (heap s)(next_addr s \<mapsto> OBuf (fo_wire (req_access_id r) (rvalue r) a x)),
      next_addr := Suc (next_addr s), tick := Suc (tick s)\<rparr>)"
proof -
  let ?b = "next_addr s"
  have fresh: "heap s ?b = None" "0 < ?b" using ok(1) by (auto simp: heap_ok_def heap_ok_fresh[OF ok(1)])
  have ne: "p \<noteq> ?b" "args r \<noteq> ?b" "x \<noteq> [] \<Longrightarrow> data r \<noteq> ?b"
    using fresh ok(2) bytes by (auto simp: req_bytes_def)
  have p: "0 < p" using ok by (rule heap_ok_pos)
  have sz: "unat (size r) = length a" "unat (data_size r) = length x" "0 < args r" "heap s (args r) = Some (OBuf a)"
    using bytes by (simp_all add: req_bytes_def)
  note len = fo_bufflen_nat[OF sz(1,2) small]
  let ?h = "fo_header r" and ?n = "length a + length x"
  let ?t = "s\<lparr>heap := (heap s)(?b \<mapsto> OBuf (?h @ replicate ?n 0)), next_addr := Suc ?b, tick := Suc (tick s)\<rparr>"
  have off: "unat (24 + size r) = 24 + length a" using sz(1) small by (intro unat_24_plus) simp_all
  have none: "data_size r = 0 \<longleftrightarrow> x = []" using sz(2) by (metis length_0_conv unat_eq_zero)
  have alloc: "kalloc (OBuf (replicate (unat (fo_bufflen r)) 0)) s = Inr (?b, s\<lparr>heap := (heap s)(?b \<mapsto> OBuf (replicate (24 + ?n) 0)),
      next_addr := Suc ?b, tick := Suc (tick s)\<rparr>)"
    using can len(2) by (simp add: kalloc_def add.assoc)
  have ra: "read_mem (args r) 0 (unat (size r)) ?t = Inr (a, ?t)"
    using sz ne(2) by (simp add: read_mem_def read_bytes_def kflow)
  have wa: "write_mem ?b 24 a ?t = Inr ((), ?t\<lparr>heap := (heap ?t)(?b \<mapsto> OBuf (?h @ a @ replicate (length x) 0))\<rparr>)"
    using fresh(2) poke_zeros[of ?h 24 a ?n] by (subst write_mem_run[of _ _ "?h @ replicate ?n 0"]) simp_all
  let ?u = "?t\<lparr>heap := (heap ?t)(?b \<mapsto> OBuf (?h @ a @ replicate (length x) 0))\<rparr>"
  have rx: "read_mem (data r) 0 (unat (data_size r)) ?u = Inr (x, ?u)"
    using sz(2) ne(3) bytes by (cases "x = []") (auto simp: read_mem_def read_bytes_def kflow req_bytes_def)
  have wx: "write_mem ?b (unat (24 + size r)) x ?u = Inr ((), ?u\<lparr>heap := (heap ?u)(?b \<mapsto> OBuf (?h @ a @ x))\<rparr>)"
    using fresh(2) poke_zeros[of "?h @ a" "24 + length a" x "length x"] unfolding off
    by (subst write_mem_run[of _ _ "?h @ a @ replicate (length x) 0"]) simp_all
  have "fo_serialize p s = Inr ((?b, fo_bufflen r), ?u\<lparr>heap := (heap ?u)(?b \<mapsto> OBuf (?h @ a @ x))\<rparr>)"
    using fresh(2) p ok(2) sz(3) ra wa rx wx
    by (simp add: fo_serialize_def bindK_Inr alloc write_header_run thenK_Inr none returnK_def)
  then show ?thesis using len(1) sz(1,2) by (simp add: fo_wire_header)
qed

lemma read_bytes_at [simp]: "length pre = off \<Longrightarrow> length b = n \<Longrightarrow> read_bytes (pre @ b @ post) off n s = Inr (b, s)"
  by (simp add: read_bytes_def returnK_def)

text \<open>Reading the header back.\<close>

definition with_header :: "fo_req \<Rightarrow> i32 \<Rightarrow> i32 \<Rightarrow> i64 \<Rightarrow> i64 \<Rightarrow> fo_req" where
  "with_header r aid rv sz dsz = r\<lparr>req_access_id := aid, rvalue := rv, size := sz, data_size := dsz\<rparr>"

lemma read_header_run:
  assumes "0 < p" "heap s p = Some (OReq r)"
    and "msg = le_bytes 4 aid @ le_bytes 4 rv @ le_bytes 8 sz @ le_bytes 8 dsz @ rest"
  shows "fo_read_header p msg s = Inr ((), s\<lparr>heap := (heap s)(p \<mapsto> OReq (with_header r aid rv sz dsz))\<rparr>)"
proof -
  have "read_bytes msg 0 4 t = Inr (le_bytes 4 aid, t)" "read_bytes msg 4 4 t = Inr (le_bytes 4 rv, t)"
    "read_bytes msg 8 8 t = Inr (le_bytes 8 sz, t)" "read_bytes msg 16 8 t = Inr (le_bytes 8 dsz, t)" for t
    using assms(3) by (simp_all add: read_bytes_def returnK_def)
  with assms(1,2) show ?thesis
    by (simp add: fo_read_header_def kflow le_word_bytes32 le_word_bytes64 with_header_def)
qed

lemma copy_args_run:
  assumes "0 < p" "heap s p = Some (OReq r)" "0 < args r" "heap s (args r) = Some (OBuf b)"
    and "length b = length a" "unat (size r) = length a" "msg = h @ a @ rest" "length h = 24"
  shows "fo_copy_args p msg s = Inr ((), s\<lparr>heap := (heap s)(args r \<mapsto> OBuf a)\<rparr>)"
  using assms by (simp add: fo_copy_args_def kflow write_mem_run poke_whole)

lemma copy_data_run:
  assumes "0 < p" "heap s p = Some (OReq r)" "0 < data r" "heap s (data r) = Some (OBuf b)"
    and "length x \<le> length b" "unat (size r) = length a" "24 + length a < MSG_MAX"
    and "unat (data_size r) = length x" "msg = h @ a @ x @ rest" "length h = 24"
  shows "fo_copy_data p msg s = Inr ((), s\<lparr>heap := (heap s)(data r \<mapsto> OBuf (x @ drop (length x) b))\<rparr>)"
proof -
  have "unat (24 + size r) = 24 + length a" using assms(6,7) by (intro unat_24_plus) simp_all
  moreover have "msg = (h @ a) @ x @ rest" using assms by simp
  ultimately show ?thesis using assms(1-5,8,10) by (simp add: fo_copy_data_def kflow write_mem_run poke_in del: append_assoc)
qed

lemma fo_wire_split:
  "fo_wire aid rv a x @ pad = (le_bytes 4 aid @ le_bytes 4 rv @ le_bytes 8 (of_nat (length a) :: i64) @
     le_bytes 8 (of_nat (length x) :: i64)) @ a @ x @ pad"
  by (simp add: fo_wire_def)

text \<open>A request read from a message, and the state after reading it.\<close>

definition junk_seq :: "kst \<Rightarrow> i64" where
  "junk_seq s = scast (ext_ret s (tick s))"

definition recv_req :: "kst \<Rightarrow> i32 \<Rightarrow> i32 \<Rightarrow> byte list \<Rightarrow> byte list \<Rightarrow> fo_req" where
  "recv_req s aid rv a x = (with_header (stale_req (junk_seq s)) aid rv (of_nat (length a)) (of_nat (length x)))
     \<lparr>args := Suc (next_addr s), data := (if x = [] then NULL else Suc (Suc (next_addr s)))\<rparr>"

definition received :: "kst \<Rightarrow> i32 \<Rightarrow> i32 \<Rightarrow> byte list \<Rightarrow> byte list \<Rightarrow> kst" where
  "received s aid rv a x = (let p = next_addr s; h = (heap s)(p \<mapsto> OReq (recv_req s aid rv a x), Suc p \<mapsto> OBuf a) in
     if x = [] then s\<lparr>heap := h, next_addr := Suc (Suc p), tick := Suc (Suc (tick s))\<rparr>
     else s\<lparr>heap := h(Suc (Suc p) \<mapsto> OBuf x), next_addr := Suc (Suc (Suc p)), tick := Suc (Suc (Suc (tick s)))\<rparr>)"

lemma deserialize_run:
  assumes ok: "heap_ok s" "heap s acc = Some (OAcc ac)" "heap s (nddata ac) = Some (ODev d)"
      "heap s (queue_pool d) = Some OPool"
    and can: "alloc3 s" and a: "a \<noteq> []" "24 + length a + length x < MSG_MAX" and msg: "msg = fo_wire aid rv a x @ pad"
  shows "fo_deserialize acc msg s = Inr (next_addr s, received s aid rv a x)"
proof -
  let ?p = "next_addr s" and ?r = "stale_req (junk_seq s)" let ?q = "Suc ?p"
  have pos: "0 < acc" "0 < nddata ac" "0 < queue_pool d" using ok heap_ok_pos by auto
  have fresh: "0 < ?p" using ok(1) by (simp add: heap_ok_def)
  define sz dsz :: i64 where "sz = of_nat (length a)" and "dsz = of_nat (length x)"
  have szn: "unat sz = length a" "unat dsz = length x" using a(2) by (simp_all add: sz_def dsz_def unat_of_small)
  then have sz0: "sz \<noteq> 0" "dsz = 0 \<longleftrightarrow> x = []" using a(1) by (metis length_0_conv unat_0, metis length_0_conv unat_eq_zero)
  note m = msg[unfolded fo_wire_split, folded sz_def dsz_def]
  let ?h = "le_bytes 4 aid @ le_bytes 4 rv @ le_bytes 8 sz @ le_bytes 8 dsz"
  let ?r1 = "with_header ?r aid rv sz dsz"
  let ?s1 = "s\<lparr>heap := (heap s)(?p \<mapsto> OReq ?r1), next_addr := ?q, tick := Suc (tick s)\<rparr>"
  let ?r2 = "?r1\<lparr>args := ?q\<rparr>"
  let ?s2 = "s\<lparr>heap := (heap s)(?p \<mapsto> OReq ?r2, ?q \<mapsto> OBuf a), next_addr := Suc ?q, tick := Suc (Suc (tick s))\<rparr>"
  have hdr: "fo_read_header ?p msg (s\<lparr>heap := (heap s)(?p \<mapsto> OReq ?r), next_addr := ?q, tick := Suc (tick s)\<rparr>) = Inr ((), ?s1)"
    using fresh by (subst read_header_run[where r = ?r]) (use m in simp_all)
  have n1: "fo_new_args ?p ?s1 = Inr (True, s\<lparr>heap := (heap s)(?p \<mapsto> OReq ?r2, ?q \<mapsto> OBuf (replicate (length a) 0)),
      next_addr := Suc ?q, tick := Suc (Suc (tick s))\<rparr>)"
    using fresh can szn(1) by (simp add: fo_new_args_def kflow kalloc_def can_alloc_def alloc3_def with_header_def fun_upd_twist)
  have c1: "fo_copy_args ?p msg (s\<lparr>heap := (heap s)(?p \<mapsto> OReq ?r2, ?q \<mapsto> OBuf (replicate (length a) 0)),
      next_addr := Suc ?q, tick := Suc (Suc (tick s))\<rparr>) = Inr ((), ?s2)"
    using fresh by (subst copy_args_run[where r = ?r2 and a = a and b = "replicate (length a) 0" and h = ?h and rest = "x @ pad"])
      (use m szn in \<open>simp_all add: with_header_def\<close>)
  let ?r3 = "?r2\<lparr>data := Suc ?q\<rparr>"
  let ?s3 = "s\<lparr>heap := (heap s)(?p \<mapsto> OReq ?r3, ?q \<mapsto> OBuf a, Suc ?q \<mapsto> OBuf (replicate (length x) 0)),
      next_addr := Suc (Suc ?q), tick := Suc (Suc (Suc (tick s)))\<rparr>"
  have n2: "fo_new_data ?p ?s2 = Inr (True, ?s3)"
    using fresh can szn(2) by (simp add: fo_new_data_def kflow kalloc_def can_alloc_def alloc3_def with_header_def fun_upd_twist)
  have c2: "fo_copy_data ?p msg ?s3 = Inr ((), ?s3\<lparr>heap := (heap ?s3)(Suc ?q \<mapsto> OBuf x)\<rparr>)"
    using fresh by (subst copy_data_run[where r = ?r3 and a = a and x = x and b = "replicate (length x) 0" and h = ?h and rest = pad])
      (use m szn a in \<open>simp_all add: with_header_def\<close>)
  have start: "kmem_cache_alloc (queue_pool d) s = Inr (?p, s\<lparr>heap := (heap s)(?p \<mapsto> OReq ?r), next_addr := ?q, tick := Suc (tick s)\<rparr>)"
    using pos ok(4) can by (simp add: kmem_cache_alloc_def kflow kalloc_def can_alloc_def alloc3_def junk_seq_def)
  have same: "?r\<lparr>args := 0, data := 0\<rparr> = ?r" by (simp add: stale_req_def)
  show ?thesis
    using pos fresh ok start hdr n1 c1 n2 c2 sz0
    by (simp add: fo_deserialize_def bindK_Inr thenK_Inr same if_prog_apply)
      (simp add: returnK_def received_def recv_req_def Let_def with_header_def stale_req_def sz_def dsz_def)
qed

text \<open>A reply read into the request that waits for it, whose buffers exist.\<close>

definition reply_req :: "fo_req \<Rightarrow> i32 \<Rightarrow> i32 \<Rightarrow> byte list \<Rightarrow> byte list \<Rightarrow> fo_req" where
  "reply_req r aid rv a x = with_header r aid rv (of_nat (length a)) (of_nat (length x))"

lemma toreq_run:
  assumes pos: "0 < p" "heap s p = Some (OReq r)" "0 < args r" "heap s (args r) = Some (OBuf b)" "length b = length a"
    and dat: "x \<noteq> [] \<Longrightarrow> 0 < data r \<and> data r \<noteq> args r \<and> heap s (data r) = Some (OBuf c) \<and> length x \<le> length c"
    and a: "a \<noteq> []" "24 + length a + length x < MSG_MAX" and msg: "msg = fo_wire aid rv a x @ pad"
  shows "fo_deserialize_toreq p msg s = Inr (True, s\<lparr>heap :=
    (let h = (heap s)(p \<mapsto> OReq (reply_req r aid rv a x), args r \<mapsto> OBuf a) in
     if x = [] then h else h(data r \<mapsto> OBuf (x @ drop (length x) c)))\<rparr>)"
proof -
  define sz dsz :: i64 where "sz = of_nat (length a)" and "dsz = of_nat (length x)"
  have szn: "unat sz = length a" "unat dsz = length x" using a(2) by (simp_all add: sz_def dsz_def unat_of_small)
  then have sz0: "sz \<noteq> 0" "dsz = 0 \<longleftrightarrow> x = []" using a(1) by (metis length_0_conv unat_0, metis length_0_conv unat_eq_zero)
  note m = msg[unfolded fo_wire_split, folded sz_def dsz_def]
  let ?h = "le_bytes 4 aid @ le_bytes 4 rv @ le_bytes 8 sz @ le_bytes 8 dsz"
  let ?r = "with_header r aid rv sz dsz"
  have ne: "p \<noteq> args r" "x \<noteq> [] \<Longrightarrow> p \<noteq> data r" using pos dat by auto
  let ?s1 = "s\<lparr>heap := (heap s)(p \<mapsto> OReq ?r)\<rparr>"
  let ?s2 = "s\<lparr>heap := (heap s)(p \<mapsto> OReq ?r, args r \<mapsto> OBuf a)\<rparr>"
  have hdr: "fo_read_header p msg s = Inr ((), ?s1)"
    using pos by (subst read_header_run[where r = r]) (use m in simp_all)
  have c1: "fo_copy_args p msg ?s1 = Inr ((), ?s2)"
    using pos ne by (subst copy_args_run[where r = ?r and a = a and b = b and h = ?h and rest = "x @ pad"])
      (use m szn in \<open>simp_all add: with_header_def\<close>)
  have c2: "fo_copy_data p msg ?s2 = Inr ((), ?s2\<lparr>heap := (heap ?s2)(data r \<mapsto> OBuf (x @ drop (length x) c))\<rparr>)"
    if "x \<noteq> []"
    using pos dat[OF that] ne(1) ne(2)[OF that, symmetric] by (subst copy_data_run[where r = ?r and a = a and x = x and b = c and h = ?h and rest = pad])
      (use m szn a in \<open>simp_all add: with_header_def\<close>)
  have fields: "args ?r = args r" "data ?r = data r" "size ?r = sz" "data_size ?r = dsz" by (simp_all add: with_header_def)
  show ?thesis
    using pos hdr c1 c2 sz0 ne dat fields
    by (cases "x = []") (simp_all add: fo_deserialize_toreq_def bindK_Inr thenK_Inr if_prog_apply returnK_def Let_def
        reply_req_def sz_def dsz_def)
qed

lemma read_header_any:
  assumes "0 < p" "heap s p = Some (OReq r)" "24 \<le> length msg"
  shows "fo_read_header p msg s = Inr ((), s\<lparr>heap := (heap s)
    (p \<mapsto> OReq (with_header r (get32 0 msg) (get32 4 msg) (get64 8 msg) (get64 16 msg)))\<rparr>)"
  using assms by (simp add: fo_read_header_def kflow read_bytes_def with_header_def get32_def get64_def)

lemma read_header_short:
  assumes "0 < p" "heap s p = Some (OReq r)" "length msg < 24"
  shows "fo_read_header p msg s = Inl OutOfBounds"
  using assms by (simp add: fo_read_header_def kflow read_bytes_def)

text \<open>What a message's header announces.\<close>

definition announced :: "byte list \<Rightarrow> nat" where
  "announced msg = 24 + unat (get64 8 msg) + unat (get64 16 msg)"

lemma write_mem_over:
  assumes "0 < p" "heap s p = Some (OBuf b)" "length b < length bs"
  shows "write_mem p 0 bs s = Inr ((), s\<lparr>heap := (heap s)(p \<mapsto> OBuf (take (length b) bs)),
    trace := trace s @ [Overrun (length bs - length b)]\<rparr>)"
  using assms by (auto simp: write_mem_def kflow poke_def)

section \<open>Properties\<close>

text \<open>
  C7.  Serialising an operation on one machine and deserialising the message on another (whatever
  follows it in the packet) yields a new request with the same access id and return value, the same
  argument structure and the same data.
\<close>

theorem serialize_deserialize_roundtrip:
  assumes "heap_ok s" "heap s p = Some (OReq r)" "req_bytes s r a x" "can_alloc s"
    and "heap_ok t" "heap t acc = Some (OAcc ac)" "heap t (nddata ac) = Some (ODev d)" "heap t (queue_pool d) = Some OPool"
    and "alloc3 t" "a \<noteq> []" "24 + length a + length x < MSG_MAX"
  shows "\<exists>b n s' w q t' r'. fo_serialize p s = Inr ((b, n), s') \<and> heap s' b = Some (OBuf w) \<and> unat n = length w \<and>
    fo_deserialize acc (w @ pad) t = Inr (q, t') \<and> heap t q = None \<and> heap t' q = Some (OReq r') \<and>
    req_access_id r' = req_access_id r \<and> rvalue r' = rvalue r \<and> req_bytes t' r' a x"
proof -
  let ?w = "fo_wire (req_access_id r) (rvalue r) a x"
  have fresh: "heap t (next_addr t) = None" using assms(5) by (simp add: heap_ok_fresh)
  have "unat (of_nat (24 + length a + length x) :: i64) = length ?w"
    using unat_of_small[OF assms(11)] by simp
  moreover have "req_bytes (received t (req_access_id r) (rvalue r) a x) (recv_req t (req_access_id r) (rvalue r) a x) a x"
    using assms(11) by (auto simp: req_bytes_def received_def recv_req_def Let_def with_header_def unat_of_small)
  ultimately show ?thesis
    using serialize_run[OF assms(1-3,11,4)] deserialize_run[OF assms(5-11) refl, of "req_access_id r" "rvalue r" pad] fresh
    by (auto simp: received_def recv_req_def Let_def with_header_def)
qed

text \<open>A read of 3 bytes at offset 5 in the client, and the server of pid 9 with one open file.\<close>

definition read_req :: fo_req where
  "read_req = req0\<lparr>seq := 1, msgtype := 102, req_access_id := 42, args := 2, data := 3, size := 32, data_size := 3\<rparr>"

definition client_sending :: kst where
  "client_sending = kst0\<lparr>heap := [1 \<mapsto> OReq read_req, 2 \<mapsto> OBuf (s_fo_rw 3 3 5 (- 5)), 3 \<mapsto> OBuf [65, 66, 67]], next_addr := 4\<rparr>"

definition srv0 :: netdev_data where
  "srv0 = dev0\<lparr>nlpid := 9, dummy := False\<rparr>"

definition serving :: kst where
  "serving = kst0\<lparr>heap := [1 \<mapsto> ODev srv0, 2 \<mapsto> OBuf (replicate 10 0), 4 \<mapsto> OPool, 5 \<mapsto> OAcc (new_acc 1 42 0)], next_addr := 6\<rparr>"

lemma client_sending_ok:
  "heap_ok client_sending" "heap client_sending 1 = Some (OReq read_req)"
  "req_bytes client_sending read_req (s_fo_rw 3 3 5 (- 5)) [65, 66, 67]" "can_alloc client_sending"
  by (auto simp: client_sending_def kst0_def heap_ok_def req_bytes_def read_req_def can_alloc_def ADDR_LIMIT_def split: if_splits)

lemma new_acc_fields [simp]: "nddata (new_acc nd i b) = nd" "access_id (new_acc nd i b) = i" "fifo_buf (new_acc nd i b) = b"
  "acc_sem (new_acc nd i b) = sem_free" "fo_queue (new_acc nd i b) = []" "acc_filp (new_acc nd i b) = FNull"
  by (simp_all add: new_acc_def zero_acc_def)

lemma srv0_fields [simp]: "nlpid srv0 = 9" "dummy srv0 = False" "queue_pool srv0 = 4" "active srv0" "nd_sem srv0 = sem_free"
  "users srv0 = 1" "foacc_htable srv0 = hash_init" "devname srv0 = 2"
  by (simp_all add: srv0_def)

lemma serving_ok:
  "heap_ok serving" "heap serving 5 = Some (OAcc (new_acc 1 42 0))" "heap serving 1 = Some (ODev srv0)"
  "heap serving 4 = Some OPool" "alloc3 serving"
  by (auto simp: serving_def kst0_def heap_ok_def alloc3_def ADDR_LIMIT_def split: if_splits)

lemma rw_nonempty [simp]: "s_fo_rw p n o1 r \<noteq> []"
  by (metis length_0_conv rel_simps(76) s_fo_lengths(2))

lemma serialize_deserialize_roundtrip_witness:
  "\<exists>b n s' w q t' r'. fo_serialize 1 client_sending = Inr ((b, n), s') \<and> heap s' b = Some (OBuf w) \<and>
    fo_deserialize 5 w serving = Inr (q, t') \<and> heap t' q = Some (OReq r') \<and> req_access_id r' = 42 \<and>
    req_bytes t' r' (s_fo_rw 3 3 5 (- 5)) [65, 66, 67]"
proof -
  have "24 + length (s_fo_rw 3 3 5 (- 5)) + length [65 :: byte, 66, 67] < MSG_MAX" by (simp add: MSG_MAX_def)
  with serialize_deserialize_roundtrip[OF client_sending_ok serving_ok(1,2) _ _ serving_ok(5), of srv0 "[]"] serving_ok(3,4)
  show ?thesis by (fastforce simp: read_req_def)
qed

text \<open>
  A reply is delivered into the waiting request: the return value of the remote operation is
  the request's, the caller's argument structure and data buffer are overwritten with the
  remote ones, and nothing else in memory changes.
\<close>

theorem reply_fills_waiting_request:
  assumes "0 < p" "heap s p = Some (OReq r)" "0 < args r" "heap s (args r) = Some (OBuf b)" "length b = length a"
    and "x \<noteq> [] \<Longrightarrow> 0 < data r \<and> data r \<noteq> args r \<and> heap s (data r) = Some (OBuf c) \<and> length x \<le> length c"
    and "a \<noteq> []" "24 + length a + length x < MSG_MAX"
  shows "\<exists>t r'. fo_deserialize_toreq p (fo_wire aid rv a x @ pad) s = Inr (True, t) \<and> heap t p = Some (OReq r') \<and>
    rvalue r' = rv \<and> args r' = args r \<and> data r' = data r \<and> heap t (args r) = Some (OBuf a) \<and>
    (x \<noteq> [] \<longrightarrow> heap t (data r) = Some (OBuf (x @ drop (length x) c))) \<and> trace t = trace s \<and>
    (\<forall>q. q \<notin> {p, args r, data r} \<longrightarrow> heap t q = heap s q)"
proof -
  have "p \<noteq> args r" "x \<noteq> [] \<Longrightarrow> p \<noteq> data r" using assms(2,4,6) by auto
  with toreq_run[OF assms(1-8) refl, of aid rv pad] assms(6) show ?thesis
    by (cases "x = []") (auto simp: Let_def reply_req_def with_header_def)
qed

lemma reply_fills_waiting_request_witness:
  "\<exists>t. fo_deserialize_toreq 1 (fo_wire 42 0 (s_fo_rw 3 3 8 2) [88, 89]) client_sending = Inr (True, t) \<and>
    heap t 2 = Some (OBuf (s_fo_rw 3 3 8 2)) \<and> heap t 3 = Some (OBuf [88, 89, 67])"
proof -
  have "24 + length (s_fo_rw 3 3 8 2) + length [88 :: byte, 89] < MSG_MAX" by (simp add: MSG_MAX_def)
  with reply_fills_waiting_request[of 1 client_sending read_req "s_fo_rw 3 3 5 (- 5)" "s_fo_rw 3 3 8 2" "[88, 89]" "[65, 66, 67]" 42 0 "[]"]
  show ?thesis by (auto simp: client_sending_def read_req_def)
qed

text \<open>
  C36.  \<open>fo_deserialize_toreq\<close> believes the sizes of the message.  A reply whose argument
  structure is longer than the caller's is written past the caller's (a local variable of the
  sending handler): the excess is what the remote side chose.
\<close>

theorem reply_overflows_caller:
  assumes "0 < p" "heap s p = Some (OReq r)" "0 < args r" "heap s (args r) = Some (OBuf b)"
    and "length b < length a" "24 + length a < MSG_MAX"
  shows "\<exists>t. fo_deserialize_toreq p (fo_wire aid rv a [] @ pad) s = Inr (True, t) \<and>
    trace t = trace s @ [Overrun (length a - length b)]"
proof -
  let ?sz = "of_nat (length a) :: i64" let ?r = "with_header r aid rv ?sz 0"
  have sz: "unat ?sz = length a" "?sz \<noteq> 0" using assms(5,6) unat_of_small[of "length a"] by (auto simp del: unat_of_nat)
  have ne: "p \<noteq> args r" using assms by auto
  have hdr: "fo_read_header p (fo_wire aid rv a [] @ pad) s = Inr ((), s\<lparr>heap := (heap s)(p \<mapsto> OReq ?r)\<rparr>)"
    using assms(1,2) by (subst read_header_run[where r = r]) (simp_all add: fo_wire_def)
  have copy: "fo_copy_args p (fo_wire aid rv a [] @ pad) (s\<lparr>heap := (heap s)(p \<mapsto> OReq ?r)\<rparr>) =
    Inr ((), s\<lparr>heap := (heap s)(p \<mapsto> OReq ?r, args r \<mapsto> OBuf (take (length b) a)), trace := trace s @ [Overrun (length a - length b)]\<rparr>)"
    using assms ne sz(1) unfolding fo_wire_split
    by (simp add: fo_copy_args_def bindK_def with_header_def write_mem_over del: append_assoc)
  show ?thesis
    using assms ne sz hdr copy by (simp add: fo_deserialize_toreq_def bindK_Inr thenK_Inr if_prog_apply with_header_def returnK_def)
qed

lemma reply_overflows_caller_witness:
  "\<exists>t. fo_deserialize_toreq 1 (fo_wire 42 0 (replicate 4096 65) []) client_sending = Inr (True, t) \<and>
    trace t = [Overrun 4064]"
  using reply_overflows_caller[of 1 client_sending read_req "s_fo_rw 3 3 5 (- 5)" "replicate 4096 65" 42 0 "[]"]
  by (simp add: client_sending_def read_req_def kst0_def MSG_MAX_def)

lemma deserialize_start:
  assumes "heap_ok t" "heap t acc = Some (OAcc ac)" "heap t (nddata ac) = Some (ODev d)" "heap t (queue_pool d) = Some OPool"
    and "alloc3 t"
  shows "0 < acc" "0 < nddata ac" "0 < queue_pool d" "0 < next_addr t"
    "(stale_req (junk_seq t))\<lparr>args := 0, data := 0\<rparr> = stale_req (junk_seq t)"
    "kmem_cache_alloc (queue_pool d) t = Inr (next_addr t, t\<lparr>heap := (heap t)(next_addr t \<mapsto> OReq (stale_req (junk_seq t))),
      next_addr := Suc (next_addr t), tick := Suc (tick t)\<rparr>)"
proof -
  show pos: "0 < acc" "0 < nddata ac" "0 < queue_pool d" using assms(1-4) heap_ok_pos by auto
  show "0 < next_addr t" using assms(1) by (simp add: heap_ok_def)
  show "(stale_req (junk_seq t))\<lparr>args := 0, data := 0\<rparr> = stale_req (junk_seq t)" by (simp add: stale_req_def)
  show "kmem_cache_alloc (queue_pool d) t = Inr (next_addr t, t\<lparr>heap := (heap t)(next_addr t \<mapsto> OReq (stale_req (junk_seq t))),
      next_addr := Suc (next_addr t), tick := Suc (tick t)\<rparr>)"
    using pos assms(4,5) by (simp add: kmem_cache_alloc_def kflow kalloc_def can_alloc_def alloc3_def junk_seq_def)
qed

lemma truncated_header_overread:
  assumes "heap_ok t" "heap t acc = Some (OAcc ac)" "heap t (nddata ac) = Some (ODev d)" "heap t (queue_pool d) = Some OPool"
    and "alloc3 t" "length msg < 24"
  shows "fo_deserialize acc msg t = Inl OutOfBounds"
proof -
  let ?p = "next_addr t" and ?r = "stale_req (junk_seq t)"
  let ?t = "t\<lparr>heap := (heap t)(?p \<mapsto> OReq ?r), next_addr := Suc ?p, tick := Suc (tick t)\<rparr>"
  note start = deserialize_start[OF assms(1-5)]
  have "fo_read_header ?p msg ?t = Inl OutOfBounds" using start(4) assms(6) by (intro read_header_short[where r = ?r]) simp_all
  then show ?thesis
    using start assms(2-4) by (simp add: fo_deserialize_def bindK_Inr thenK_Inr bindK_Inl thenK_def)
qed

lemma truncated_body_overread:
  assumes "heap_ok t" "heap t acc = Some (OAcc ac)" "heap t (nddata ac) = Some (ODev d)" "heap t (queue_pool d) = Some OPool"
    and "alloc3 t" "length msg < MSG_MAX" "24 \<le> length msg" "get64 8 msg \<noteq> 0" "length msg < announced msg"
  shows "fo_deserialize acc msg t = Inl OutOfBounds"
proof -
  let ?p = "next_addr t" and ?r = "stale_req (junk_seq t)"
  let ?t = "t\<lparr>heap := (heap t)(?p \<mapsto> OReq ?r), next_addr := Suc ?p, tick := Suc (tick t)\<rparr>"
  note pos = deserialize_start(1-3)[OF assms(1-5)] and fresh = deserialize_start(4)[OF assms(1-5)]
    and same = deserialize_start(5)[of t acc ac d, OF assms(1-5)] and start = deserialize_start(6)[OF assms(1-5)]
  define sz dsz where "sz = get64 8 msg" and "dsz = get64 16 msg"
  let ?r1 = "with_header ?r (get32 0 msg) (get32 4 msg) sz dsz"
  have big: "sz \<noteq> 0" "length msg < 24 + unat sz + unat dsz"
    using assms(8,9) by (simp_all add: sz_def dsz_def announced_def)
  let ?s1 = "t\<lparr>heap := (heap t)(?p \<mapsto> OReq ?r1), next_addr := Suc ?p, tick := Suc (tick t)\<rparr>"
  have hdr: "fo_read_header ?p msg ?t = Inr ((), ?s1)"
    using assms(7) fresh by (subst read_header_any[where r = ?r]) (simp_all add: sz_def dsz_def)
  let ?r2 = "?r1\<lparr>args := Suc ?p\<rparr>"
  let ?s2 = "\<lambda>b. t\<lparr>heap := (heap t)(?p \<mapsto> OReq ?r2, Suc ?p \<mapsto> OBuf b), next_addr := Suc (Suc ?p), tick := Suc (Suc (tick t))\<rparr>"
  have n1: "fo_new_args ?p ?s1 = Inr (True, ?s2 (replicate (unat sz) 0))"
    using fresh assms(5) by (simp add: fo_new_args_def kflow kalloc_def can_alloc_def alloc3_def with_header_def fun_upd_twist)
  have fields: "args ?r2 = Suc ?p" "size ?r2 = sz" "data_size ?r2 = dsz" "size ?r1 = sz" "data_size ?r1 = dsz"
    by (simp_all add: with_header_def)
  show ?thesis
  proof (cases "24 + unat sz \<le> length msg")
    case False
    then have "fo_copy_args ?p msg (?s2 (replicate (unat sz) 0)) = Inl OutOfBounds"
      using fresh fields by (simp add: fo_copy_args_def kflow read_bytes_def)
    then show ?thesis
      using pos fresh assms(2-4) start hdr n1 fields big
      by (simp add: fo_deserialize_def bindK_Inr thenK_Inr same bindK_Inl if_prog_apply thenK_def)
  next
    case fits: True
    let ?a = "take (unat sz) (drop 24 msg)"
    have c1: "fo_copy_args ?p msg (?s2 (replicate (unat sz) 0)) = Inr ((), ?s2 ?a)"
      using fresh fields fits by (simp add: fo_copy_args_def kflow read_bytes_def write_mem_run poke_whole)
    have off: "unat (24 + sz) = 24 + unat sz" using fits assms(6) by (intro unat_24_plus) simp_all
    have d0: "dsz \<noteq> 0" using big fits by auto
    let ?s3 = "t\<lparr>heap := (heap t)(?p \<mapsto> OReq (?r2\<lparr>data := Suc (Suc ?p)\<rparr>), Suc ?p \<mapsto> OBuf ?a,
      Suc (Suc ?p) \<mapsto> OBuf (replicate (unat dsz) 0)), next_addr := Suc (Suc (Suc ?p)), tick := Suc (Suc (Suc (tick t)))\<rparr>"
    have n2: "fo_new_data ?p (?s2 ?a) = Inr (True, ?s3)"
      using fresh assms(5) fields by (simp add: fo_new_data_def kflow kalloc_def can_alloc_def alloc3_def fun_upd_twist)
    have "fo_copy_data ?p msg ?s3 = Inl OutOfBounds"
      using fresh fields off big by (simp add: fo_copy_data_def kflow read_bytes_def)
    then show ?thesis
      using pos fresh assms(2-4) start hdr n1 c1 n2 fields big(1) d0
      by (simp add: fo_deserialize_def bindK_Inr thenK_Inr same bindK_Inl if_prog_apply thenK_def)
  qed
qed

text \<open>
  C37.  A message shorter than its header announces is read past its end: \<open>fo_deserialize\<close>
  has no bound to check against, and goes on to use bytes the sender never wrote.
\<close>

theorem truncated_message_overread:
  assumes "heap_ok t" "heap t acc = Some (OAcc ac)" "heap t (nddata ac) = Some (ODev d)" "heap t (queue_pool d) = Some OPool"
    and "alloc3 t" "length msg < MSG_MAX"
    and "length msg < 24 \<or> get64 8 msg \<noteq> 0 \<and> length msg < announced msg"
  shows "fo_deserialize acc msg t = Inl OutOfBounds"
  using assms truncated_header_overread[OF assms(1-5)] truncated_body_overread[OF assms(1-6)] by (cases "length msg < 24") auto

lemma truncated_message_overread_witness:
  "fo_deserialize 5 (take 40 (fo_wire 42 (- 1) (s_fo_rw 3 3 5 (- 5)) [])) serving = Inl OutOfBounds"
proof -
  let ?m = "take 40 (fo_wire 42 (- 1) (s_fo_rw 3 3 5 (- 5)) [])"
  have "get64 8 ?m = 32" "get64 16 ?m = 0"
    by (simp_all add: fo_wire_def get64_def le_word_bytes64)
  then have "get64 8 ?m \<noteq> 0 \<and> length ?m < announced ?m" by (simp add: announced_def)
  then show ?thesis
    using truncated_message_overread[OF serving_ok(1,2) _ _ serving_ok(5), of srv0 ?m] serving_ok(3,4) by (simp add: MSG_MAX_def)
qed

end
