(* ===== verification/Fo_Recv.thy ===== *)
theory Fo_Recv
  imports Wire
begin

text \<open>
  \<open>kernel/fo_recv.c\<close>: the operations a server performs on the real device for a remote user.
  Each takes the open file and the deserialised request, calls the opened file's own operation
  (an argument of the model, in the record \<open>file_ops\<close>) and stores its answer into the
  request's argument structure.  The table \<open>netdev_recv_fops\<close> is indexed by the message
  type.
\<close>

section \<open>Calling the opened file\<close>

text \<open>\<open>acc->filp->f_op\<close>, and the clock at which the device answers.\<close>

definition filp_ops :: "addr \<Rightarrow> file_ops kprog" where
  [kexec]: "filp_ops acc = bindK (get_acc acc) (\<lambda>a. case acc_filp a of
     FNull \<Rightarrow> failK NullDeref | FErr e \<Rightarrow> failK BadPointer | FNoOps \<Rightarrow> failK NullDeref | FOpen fo \<Rightarrow> returnK fo)"

definition dev_tick :: "nat kprog" where
  [kexec]: "dev_tick s = Inr (tick s, s\<lparr>tick := Suc (tick s)\<rparr>)"

definition call_fop :: "'f option \<Rightarrow> 'f kprog" where
  [kexec]: "call_fop f = (case f of None \<Rightarrow> failK NullDeref | Some g \<Rightarrow> returnK g)"

definition c_string :: "byte list \<Rightarrow> byte list kprog" where
  [kexec]: "c_string bs = (if 0 \<in> set bs then returnK (takeWhile (\<lambda>b. b \<noteq> 0) bs) else failK OutOfBounds)"

section \<open>The operations\<close>

definition ndfo_recv_llseek :: "addr \<Rightarrow> addr \<Rightarrow> i32 kprog" where
  "ndfo_recv_llseek acc req = bindK (get_req req) (\<lambda>r. bindK (filp_ops acc) (\<lambda>fo.
     if fop_llseek fo = None then returnK (- 1)
     else bindK (arg_get64 (args r) 0) (\<lambda>offset. bindK (arg_get32 (args r) 8) (\<lambda>whence.
       bindK (call_fop (fop_llseek fo)) (\<lambda>f. bindK dev_tick (\<lambda>k.
       thenK (arg_put64 (args r) 16 (f k offset whence))
       (returnK 0)))))))"

definition ndfo_recv_read :: "addr \<Rightarrow> addr \<Rightarrow> i32 kprog" where
  "ndfo_recv_read acc req = bindK (get_req req) (\<lambda>r. bindK (arg_get64 (args r) 8) (\<lambda>sz.
     bindK (kalloc (OBuf (replicate (unat sz) 0))) (\<lambda>b.
     thenK (mod_req req (\<lambda>r. r\<lparr>data := b\<rparr>))
     (thenK (mod_req req (\<lambda>r. r\<lparr>data_size := sz\<rparr>))
     (bindK (filp_ops acc) (\<lambda>fo. bindK (call_fop (fop_read fo)) (\<lambda>f.
       bindK (arg_get64 (args r) 16) (\<lambda>offset. bindK dev_tick (\<lambda>k.
       case f k sz offset of (ret, bytes, offset') \<Rightarrow>
         thenK (write_mem b 0 (take (unat sz) bytes))
         (thenK (arg_put64 (args r) 16 offset')
         (thenK (arg_put64 (args r) 24 ret)
         (returnK 0)))))))))))) "

definition ndfo_recv_write :: "addr \<Rightarrow> addr \<Rightarrow> i32 kprog" where
  "ndfo_recv_write acc req = bindK (get_req req) (\<lambda>r. bindK (filp_ops acc) (\<lambda>fo.
     bindK (call_fop (fop_write fo)) (\<lambda>f. bindK (arg_get64 (args r) 8) (\<lambda>sz.
     bindK (arg_get64 (args r) 16) (\<lambda>offset. bindK (read_mem (data r) 0 (unat sz)) (\<lambda>bytes.
     bindK dev_tick (\<lambda>k. case f k bytes sz offset of (ret, offset') \<Rightarrow>
       thenK (arg_put64 (args r) 16 offset')
       (thenK (arg_put64 (args r) 24 ret)
       (thenK (kfree (data r))
       (thenK (mod_req req (\<lambda>r. r\<lparr>data := NULL\<rparr>))
       (thenK (mod_req req (\<lambda>r. r\<lparr>data_size := 0\<rparr>))
       (returnK 0))))))))))))"

definition ndfo_recv_poll :: "addr \<Rightarrow> addr \<Rightarrow> i32 kprog" where
  "ndfo_recv_poll acc req = returnK (- 1)"

definition ndfo_recv_unlocked_ioctl :: "addr \<Rightarrow> addr \<Rightarrow> i32 kprog" where
  "ndfo_recv_unlocked_ioctl acc req = bindK (get_req req) (\<lambda>r. bindK (filp_ops acc) (\<lambda>fo.
     bindK (call_fop (fop_unlocked_ioctl fo)) (\<lambda>f.
     bindK (arg_get32 (args r) 0) (\<lambda>cmd. bindK (arg_get64 (args r) 8) (\<lambda>arg. bindK dev_tick (\<lambda>k.
       thenK (arg_put64 (args r) 16 (f k cmd arg))
       (returnK (- 1))))))))"

definition ndfo_recv_compat_ioctl :: "addr \<Rightarrow> addr \<Rightarrow> i32 kprog" where
  "ndfo_recv_compat_ioctl acc req = bindK (get_req req) (\<lambda>r. bindK (filp_ops acc) (\<lambda>fo.
     bindK (call_fop (fop_compat_ioctl fo)) (\<lambda>f.
     bindK (arg_get32 (args r) 0) (\<lambda>cmd. bindK (arg_get64 (args r) 8) (\<lambda>arg. bindK dev_tick (\<lambda>k.
       thenK (arg_put64 (args r) 16 (f k cmd arg))
       (returnK 0)))))))"

definition ndfo_recv_mmap :: "addr \<Rightarrow> addr \<Rightarrow> i32 kprog" where
  "ndfo_recv_mmap acc req = returnK (- 1)"

text \<open>\<open>filp_open\<close> answers an opened file or an error pointer; which one is read from the
  state.\<close>

definition ndfo_recv_open :: "addr \<Rightarrow> addr \<Rightarrow> i32 kprog" where
  "ndfo_recv_open acc req = bindK (get_req req) (\<lambda>r. bindK (get_acc acc) (\<lambda>a.
     bindK (get_dev (nddata a)) (\<lambda>d. bindK (get_buf (devname d)) (\<lambda>b. bindK (c_string b) (\<lambda>name.
     bindK getK (\<lambda>s. bindK dev_tick (\<lambda>k.
     thenK (mod_acc acc (\<lambda>a. a\<lparr>acc_filp := open_ret s k name\<rparr>))
     (case open_ret s k name of
        FErr e \<Rightarrow> returnK (- 1)
      | FNull \<Rightarrow> failK NullDeref
      | FNoOps \<Rightarrow> returnK (- 1)
      | FOpen fo \<Rightarrow> thenK (arg_put32 (args r) 8 0) (returnK 0)))))))))"

definition ndfo_recv_flush :: "addr \<Rightarrow> addr \<Rightarrow> i32 kprog" where
  "ndfo_recv_flush acc req = bindK (get_req req) (\<lambda>r. bindK (filp_ops acc) (\<lambda>fo.
     if fop_flush fo = None then returnK (- 1)
     else bindK (call_fop (fop_flush fo)) (\<lambda>f. bindK dev_tick (\<lambda>k.
       thenK (arg_put32 (args r) 0 (f k))
       (returnK 0)))))"

definition ndfo_recv_release :: "addr \<Rightarrow> addr \<Rightarrow> i32 kprog" where
  "ndfo_recv_release acc req = bindK (get_req req) (\<lambda>r. bindK (get_acc acc) (\<lambda>a.
     bindK (case acc_filp a of
         FNull \<Rightarrow> failK NullDeref | FErr e \<Rightarrow> failK BadPointer | FNoOps \<Rightarrow> returnK 0
       | FOpen fo \<Rightarrow> bindK dev_tick (\<lambda>k. returnK (fop_close fo k))) (\<lambda>ret.
     thenK (arg_put32 (args r) 0 ret)
     (returnK 0))))"

definition ndfo_recv_fsync :: "addr \<Rightarrow> addr \<Rightarrow> i32 kprog" where
  "ndfo_recv_fsync acc req = returnK (- 1)"

definition ndfo_recv_aio_fsync :: "addr \<Rightarrow> addr \<Rightarrow> i32 kprog" where
  "ndfo_recv_aio_fsync acc req = returnK (- 1)"

definition ndfo_recv_fasync :: "addr \<Rightarrow> addr \<Rightarrow> i32 kprog" where
  "ndfo_recv_fasync acc req = returnK (- 1)"

definition ndfo_recv_lock :: "addr \<Rightarrow> addr \<Rightarrow> i32 kprog" where
  "ndfo_recv_lock acc req = returnK (- 1)"

definition ndfo_recv_check_flags :: "addr \<Rightarrow> addr \<Rightarrow> i32 kprog" where
  "ndfo_recv_check_flags acc req = returnK (- 1)"

definition ndfo_recv_flock :: "addr \<Rightarrow> addr \<Rightarrow> i32 kprog" where
  "ndfo_recv_flock acc req = returnK (- 1)"

definition ndfo_recv_splice_write :: "addr \<Rightarrow> addr \<Rightarrow> i32 kprog" where
  "ndfo_recv_splice_write acc req = returnK (- 1)"

definition ndfo_recv_splice_read :: "addr \<Rightarrow> addr \<Rightarrow> i32 kprog" where
  "ndfo_recv_splice_read acc req = returnK (- 1)"

definition ndfo_recv_setlease :: "addr \<Rightarrow> addr \<Rightarrow> i32 kprog" where
  "ndfo_recv_setlease acc req = returnK (- 1)"

definition ndfo_recv_fallocate :: "addr \<Rightarrow> addr \<Rightarrow> i32 kprog" where
  "ndfo_recv_fallocate acc req = returnK (- 1)"

definition ndfo_recv_show_fdinfo :: "addr \<Rightarrow> addr \<Rightarrow> i32 kprog" where
  "ndfo_recv_show_fdinfo acc req = returnK (- 1)"

text \<open>The table; \<open>None\<close> is a NULL entry.\<close>

definition netdev_recv_fops :: "(addr \<Rightarrow> addr \<Rightarrow> i32 kprog) option list" where
  "netdev_recv_fops = [
     Some ndfo_recv_llseek, Some ndfo_recv_read, Some ndfo_recv_write,
     None, None, None,
     Some ndfo_recv_poll, Some ndfo_recv_unlocked_ioctl, Some ndfo_recv_compat_ioctl,
     None,
     Some ndfo_recv_open, Some ndfo_recv_flush, Some ndfo_recv_release, Some ndfo_recv_fsync,
     None,
     Some ndfo_recv_fasync,
     None, None, None,
     Some ndfo_recv_check_flags, Some ndfo_recv_flock,
     None, None,
     Some ndfo_recv_setlease, Some ndfo_recv_fallocate, Some ndfo_recv_show_fdinfo]"

section \<open>Running an operation on an opened file\<close>

text \<open>The file is opened, and the request's argument structure is in memory.\<close>

definition served :: "kst \<Rightarrow> addr \<Rightarrow> addr \<Rightarrow> file_ops \<Rightarrow> fo_access \<Rightarrow> fo_req \<Rightarrow> byte list \<Rightarrow> bool" where
  "served s acc req fo a r b \<longleftrightarrow> heap_ok s \<and> heap s acc = Some (OAcc a) \<and> acc_filp a = FOpen fo \<and>
     heap s req = Some (OReq r) \<and> 0 < args r \<and> heap s (args r) = Some (OBuf b)"

lemma served_pos:
  assumes "served s acc req fo a r b"
  shows "0 < acc" "0 < req" "0 < args r" "heap s acc = Some (OAcc a)" "heap s req = Some (OReq r)"
    "heap s (args r) = Some (OBuf b)" "heap s (next_addr s) = None" "acc_filp a = FOpen fo"
    "args r \<noteq> req" "req \<noteq> args r" "args r \<noteq> acc" "acc \<noteq> args r" "acc \<noteq> req" "req \<noteq> acc" "0 < next_addr s"
    "args r \<noteq> next_addr s" "req \<noteq> next_addr s" "acc \<noteq> next_addr s"
proof -
  have ok: "heap_ok s" and objs: "heap s acc = Some (OAcc a)" "heap s req = Some (OReq r)" "heap s (args r) = Some (OBuf b)"
    "acc_filp a = FOpen fo" using assms by (simp_all add: served_def)
  have fresh: "heap s (next_addr s) = None" using ok by (simp add: heap_ok_fresh)
  note pos = objs(1-3)[THEN heap_ok_pos[OF ok]]
  show "0 < acc" "0 < req" "0 < args r" "heap s acc = Some (OAcc a)" "heap s req = Some (OReq r)"
    "heap s (args r) = Some (OBuf b)" "heap s (next_addr s) = None" "acc_filp a = FOpen fo"
    by (rule objs fresh pos)+
  show "args r \<noteq> req" "args r \<noteq> acc" "acc \<noteq> req" using objs by auto
  then show "req \<noteq> args r" "acc \<noteq> args r" "req \<noteq> acc" by simp_all
  show "args r \<noteq> next_addr s" "req \<noteq> next_addr s" "acc \<noteq> next_addr s" using objs fresh by auto
  show "0 < next_addr s" using ok by (simp add: heap_ok_def)
qed

lemma filp_ops_run: "0 < acc \<Longrightarrow> heap s acc = Some (OAcc a) \<Longrightarrow> acc_filp a = FOpen fo \<Longrightarrow> filp_ops acc s = Inr (fo, s)"
  by (simp add: filp_ops_def kflow)

lemmas recv_run = kflow filp_ops_run call_fop_def dev_tick_def arg_run

lemma recv_llseek_run:
  assumes "served s acc req fo a r (s_fo_llseek off wh rv)" "fop_llseek fo = Some f"
  shows "ndfo_recv_llseek acc req s = Inr (0, s\<lparr>heap := (heap s)(args r \<mapsto> OBuf (s_fo_llseek off wh (f (tick s) off wh))),
    tick := Suc (tick s)\<rparr>)"
  by (simp add: served_pos[OF assms(1)] assms(2) ndfo_recv_llseek_def recv_run)

lemma recv_flush_run:
  assumes "served s acc req fo a r (s_fo_flush rv)" "fop_flush fo = Some f"
  shows "ndfo_recv_flush acc req s = Inr (0, s\<lparr>heap := (heap s)(args r \<mapsto> OBuf (s_fo_flush (f (tick s)))),
    tick := Suc (tick s)\<rparr>)"
  by (simp add: served_pos[OF assms(1)] assms(2) ndfo_recv_flush_def recv_run)

lemma recv_release_run:
  assumes "served s acc req fo a r (s_fo_flush rv)"
  shows "ndfo_recv_release acc req s = Inr (0, s\<lparr>heap := (heap s)(args r \<mapsto> OBuf (s_fo_flush (fop_close fo (tick s)))),
    tick := Suc (tick s)\<rparr>)"
  by (simp add: served_pos[OF assms(1)] ndfo_recv_release_def recv_run)

text \<open>The two ioctl handlers differ in their answer only.\<close>

lemma recv_compat_ioctl_run:
  assumes "served s acc req fo a r (s_fo_ioctl cmd arg rv)" "fop_compat_ioctl fo = Some f"
  shows "ndfo_recv_compat_ioctl acc req s = Inr (0, s\<lparr>heap := (heap s)(args r \<mapsto> OBuf (s_fo_ioctl cmd arg (f (tick s) cmd arg))),
    tick := Suc (tick s)\<rparr>)"
  by (simp add: served_pos[OF assms(1)] assms(2) ndfo_recv_compat_ioctl_def recv_run)

lemma recv_unlocked_ioctl_run:
  assumes "served s acc req fo a r (s_fo_ioctl cmd arg rv)" "fop_unlocked_ioctl fo = Some f"
  shows "ndfo_recv_unlocked_ioctl acc req s = Inr (- 1, s\<lparr>heap := (heap s)(args r \<mapsto> OBuf (s_fo_ioctl cmd arg (f (tick s) cmd arg))),
    tick := Suc (tick s)\<rparr>)"
  by (simp add: served_pos[OF assms(1)] assms(2) ndfo_recv_unlocked_ioctl_def recv_run)

lemma recv_read_run:
  assumes "served s acc req fo a r (s_fo_rw ptr sz off rv)" "fop_read fo = Some f" "can_alloc s"
    and "f (Suc (tick s)) sz off = (ret, bytes, off')" "length bytes \<le> unat sz"
  shows "ndfo_recv_read acc req s = Inr (0, s\<lparr>heap := (heap s)
      (req \<mapsto> OReq (r\<lparr>data := next_addr s, data_size := sz\<rparr>),
       next_addr s \<mapsto> OBuf (bytes @ replicate (unat sz - length bytes) 0),
       args r \<mapsto> OBuf (s_fo_rw ptr sz off' ret)), next_addr := Suc (next_addr s), tick := Suc (Suc (tick s))\<rparr>)"
proof -
  note p = served_pos[OF assms(1)]
  have sz: "arg_get64 (args r) 8 s = Inr (sz, s)" by (subst arg_get64_run[of _ _ "s_fo_rw ptr sz off rv"]) (simp_all add: p)
  have poke: "poke 0 bytes (replicate (unat sz) 0) = bytes @ replicate (unat sz - length bytes) 0"
    using assms(5) by (simp add: poke_zeros0)
  let ?q = "next_addr s" and ?r = "r\<lparr>data := next_addr s, data_size := sz\<rparr>"
  let ?s0 = "s\<lparr>heap := (heap s)(?q \<mapsto> OBuf (replicate (unat sz) 0)), next_addr := Suc ?q, tick := Suc (tick s)\<rparr>"
  let ?s1 = "\<lambda>b k. s\<lparr>heap := (heap s)(req \<mapsto> OReq ?r, ?q \<mapsto> OBuf b), next_addr := Suc ?q, tick := k\<rparr>"
  have alloc: "kalloc (OBuf (replicate (unat sz) 0)) s = Inr (?q, ?s0)" using assms(3) by (simp add: kalloc_def)
  have mods: "thenK (mod_req req (\<lambda>r. r\<lparr>data := ?q\<rparr>)) (thenK (mod_req req (\<lambda>r. r\<lparr>data_size := sz\<rparr>)) k) ?s0 =
      k (?s1 (replicate (unat sz) 0) (Suc (tick s)))" for k :: "i32 kprog"
    by (simp add: p thenK_def bindK_def p(17)[symmetric] fun_upd_twist[of "next_addr s" req])
  have copy: "write_mem ?q 0 bytes (?s1 (replicate (unat sz) 0) (Suc (Suc (tick s)))) =
      Inr ((), ?s1 (bytes @ replicate (unat sz - length bytes) 0) (Suc (Suc (tick s))))"
    by (subst write_mem_run[of _ _ "replicate (unat sz) 0"]) (simp_all add: p assms(5) poke)
  have off: "arg_get64 (args r) 16 (?s1 b k) = Inr (off, ?s1 b k)" for b k
    by (subst arg_get64_run[of _ _ "s_fo_rw ptr sz off rv"]) (simp_all add: p)
  have put: "thenK (arg_put64 (args r) 16 off') (thenK (arg_put64 (args r) 24 ret) (returnK 0)) (?s1 b k) =
      Inr (0, s\<lparr>heap := (heap s)(req \<mapsto> OReq ?r, ?q \<mapsto> OBuf b, args r \<mapsto> OBuf (s_fo_rw ptr sz off' ret)),
        next_addr := Suc ?q, tick := k\<rparr>)" for b k and z :: i32
    by (simp add: p thenK_def bindK_def returnK_def arg_run)
  have fo: "filp_ops acc (?s1 b k) = Inr (fo, ?s1 b k)" for b k by (simp add: p filp_ops_run)
  show ?thesis
    by (simp add: p assms(2,4,5) sz ndfo_recv_read_def bindK_Inr alloc mods fo call_fop_def off dev_tick_def copy thenK_Inr put)
qed

lemma recv_write_run:
  assumes "served s acc req fo a r (s_fo_rw ptr sz off rv)" "fop_write fo = Some f"
    and "f (tick s) x sz off = (ret, off')" "unat sz = length x" "x \<noteq> []"
    and "0 < data r" "heap s (data r) = Some (OBuf x)" "data r \<noteq> args r"
  shows "ndfo_recv_write acc req s = Inr (0, s\<lparr>heap := (heap s)
      (args r \<mapsto> OBuf (s_fo_rw ptr sz off' ret), data r := None,
       req \<mapsto> OReq (r\<lparr>data := NULL, data_size := 0\<rparr>)), tick := Suc (tick s)\<rparr>)"
proof -
  note p = served_pos[OF assms(1)]
  have ne: "data r \<noteq> req" "req \<noteq> data r" using assms(7) p by auto
  let ?b = "s_fo_rw ptr sz off rv"
  have fo: "filp_ops acc s = Inr (fo, s)" by (simp add: p filp_ops_run)
  have sz: "arg_get64 (args r) 8 s = Inr (sz, s)" by (subst arg_get64_run[of _ _ ?b]) (simp_all add: p)
  have off: "arg_get64 (args r) 16 s = Inr (off, s)" by (subst arg_get64_run[of _ _ ?b]) (simp_all add: p)
  have rd: "read_mem (data r) 0 (unat sz) s = Inr (x, s)" using assms(4,6,7) by (subst read_mem_run[of _ _ x]) simp_all
  let ?s1 = "\<lambda>o' v. s\<lparr>heap := (heap s)(args r \<mapsto> OBuf (s_fo_rw ptr sz o' v)), tick := Suc (tick s)\<rparr>"
  have p1: "arg_put64 (args r) 16 off' (s\<lparr>tick := Suc (tick s)\<rparr>) = Inr ((), ?s1 off' rv)"
    by (subst arg_put64_run[of _ _ ?b]) (simp_all add: p)
  have p2: "arg_put64 (args r) 24 ret (?s1 off' rv) = Inr ((), ?s1 off' ret)"
    by (subst arg_put64_run[of _ _ "s_fo_rw ptr sz off' rv"]) (simp_all add: p)
  have clean: "thenK (kfree (data r)) (thenK (mod_req req (\<lambda>r. r\<lparr>data := NULL\<rparr>))
      (thenK (mod_req req (\<lambda>r. r\<lparr>data_size := 0\<rparr>)) (returnK 0))) (?s1 off' ret) =
    Inr (0, s\<lparr>heap := (heap s)(args r \<mapsto> OBuf (s_fo_rw ptr sz off' ret), data r := None,
       req \<mapsto> OReq (r\<lparr>data := NULL, data_size := 0\<rparr>)), tick := Suc (tick s)\<rparr>)" for z :: i32
    by (simp add: kflow p ne assms(6-8))
  show ?thesis
    by (simp add: p(2,5) assms(2,3) ndfo_recv_write_def bindK_Inr fo call_fop_def sz off rd dev_tick_def thenK_Inr p1 p2 clean)
qed

section \<open>Properties\<close>

text \<open>A device that is open on the server, with a request of the client of pid 42.\<close>

definition echo_dev :: file_ops where
  "echo_dev = \<lparr>fop_llseek = Some (\<lambda>k off wh. off + 1), fop_read = Some (\<lambda>k n off. (2, [88, 89], off + 2)),
     fop_write = Some (\<lambda>k x n off. (n, off + n)), fop_unlocked_ioctl = Some (\<lambda>k cmd arg. arg + 1),
     fop_compat_ioctl = Some (\<lambda>k cmd arg. arg + 1), fop_flush = None, fop_close = (\<lambda>k. 0)\<rparr>"

definition serving_req :: "fo_req \<Rightarrow> byte list \<Rightarrow> byte list \<Rightarrow> kst" where
  "serving_req r b x = serving\<lparr>heap := (heap serving)(5 \<mapsto> OAcc ((new_acc 1 42 0)\<lparr>acc_filp := FOpen echo_dev\<rparr>),
     6 \<mapsto> OReq r, 7 \<mapsto> OBuf b, 8 \<mapsto> OBuf x), next_addr := 9\<rparr>"

lemma serving_req_ok:
  assumes "args r = 7"
  shows "served (serving_req r b x) 5 6 echo_dev ((new_acc 1 42 0)\<lparr>acc_filp := FOpen echo_dev\<rparr>) r b"
    "heap (serving_req r b x) 8 = Some (OBuf x)" "can_alloc (serving_req r b x)" "next_addr (serving_req r b x) = 9"
  using assms by (auto simp: served_def serving_req_def serving_def heap_ok_def can_alloc_def kst0_def ADDR_LIMIT_def split: if_splits)

lemma recv_fops_len: "length netdev_recv_fops = 26"
  by (simp add: netdev_recv_fops_def)

text \<open>
  The table matches the protocol: every message type strictly between \<open>MSGT_FO_START\<close>
  and \<open>MSGT_FO_END\<close> selects an existing entry, and the entries of the eight operations the
  protocol can perform are the handlers of those operations.
\<close>

theorem recv_table_matches_protocol:
  "(\<forall>t. MSGT_FO_START < t \<longrightarrow> t < MSGT_FO_END \<longrightarrow> t - (MSGT_FO_START + 1) < length netdev_recv_fops) \<and>
   map (\<lambda>t. netdev_recv_fops ! (t - (MSGT_FO_START + 1)))
     [MSGT_FO_LLSEEK, MSGT_FO_READ, MSGT_FO_WRITE, MSGT_FO_UNLOCKED_IOCTL, MSGT_FO_COMPAT_IOCTL, MSGT_FO_OPEN,
      MSGT_FO_FLUSH, MSGT_FO_RELEASE] =
   map Some [ndfo_recv_llseek, ndfo_recv_read, ndfo_recv_write, ndfo_recv_unlocked_ioctl, ndfo_recv_compat_ioctl,
      ndfo_recv_open, ndfo_recv_flush, ndfo_recv_release]"
proof
  show "\<forall>t. MSGT_FO_START < t \<longrightarrow> t < MSGT_FO_END \<longrightarrow> t - (MSGT_FO_START + 1) < length netdev_recv_fops"
    unfolding recv_fops_len MSGT_FO_START_def MSGT_FO_END_def by auto
qed (simp add: netdev_recv_fops_def MSGT_FO_START_def MSGT_FO_LLSEEK_def MSGT_FO_READ_def MSGT_FO_WRITE_def
      MSGT_FO_UNLOCKED_IOCTL_def MSGT_FO_COMPAT_IOCTL_def MSGT_FO_OPEN_def MSGT_FO_FLUSH_def MSGT_FO_RELEASE_def)

lemma recv_table_matches_protocol_witness:
  "MSGT_FO_RELEASE - (MSGT_FO_START + 1) < length netdev_recv_fops"
  using recv_table_matches_protocol[THEN conjunct1, THEN spec[of _ MSGT_FO_RELEASE]]
  by (simp add: MSGT_FO_START_def MSGT_FO_END_def MSGT_FO_RELEASE_def)

text \<open>
  A remote read: the bytes the device delivered are the request's data, padded with zeros to
  the size asked for; the device's return value and new offset are in the argument structure; and
  the handler reports success whatever the device answered.
\<close>

theorem server_read_collects_data:
  assumes "served s acc req fo a r (s_fo_rw ptr sz off rv)" "fop_read fo = Some f" "can_alloc s"
    and "f (Suc (tick s)) sz off = (ret, bytes, off')" "length bytes \<le> unat sz" "size r = 32"
  shows "\<exists>t r'. ndfo_recv_read acc req s = Inr (0, t) \<and> heap t req = Some (OReq r') \<and>
    req_bytes t r' (s_fo_rw ptr sz off' ret) (bytes @ replicate (unat sz - length bytes) 0)"
  using recv_read_run[OF assms(1-5)]
  by (simp add: served_pos[OF assms(1)] served_pos(16,17)[OF assms(1), symmetric] req_bytes_def assms(5,6))

lemma server_read_collects_data_witness:
  "\<exists>t r'. ndfo_recv_read 5 6 (serving_req (req0\<lparr>args := 7, size := 32\<rparr>) (s_fo_rw 3 4 10 (- 5)) []) = Inr (0, t) \<and>
    heap t 6 = Some (OReq r') \<and> req_bytes t r' (s_fo_rw 3 4 12 2) ([88, 89] @ replicate 2 0)"
proof -
  let ?s = "serving_req (req0\<lparr>args := 7, size := 32\<rparr>) (s_fo_rw 3 4 10 (- 5)) []"
  have "\<exists>t r'. ndfo_recv_read 5 6 ?s = Inr (0, t) \<and> heap t 6 = Some (OReq r') \<and>
    req_bytes t r' (s_fo_rw 3 4 12 2) ([88, 89] @ replicate (unat (4 :: i64) - length [88 :: byte, 89]) 0)"
    by (rule server_read_collects_data[OF serving_req_ok(1) _ serving_req_ok(3), where f = "\<lambda>k n off. (2, [88, 89], off + 2)"])
      (simp_all add: echo_dev_def)
  moreover have "unat (4 :: i64) - length [88 :: byte, 89] = 2" by simp
  ultimately show ?thesis by (simp only:)
qed

text \<open>
  A remote write: the device is given exactly the bytes of the message, its answer and new
  offset are stored, and the data is released, so the reply does not carry it back.
\<close>

theorem server_write_passes_data:
  assumes "served s acc req fo a r (s_fo_rw ptr sz off rv)" "fop_write fo = Some f"
    and "f (tick s) x sz off = (ret, off')" "unat sz = length x" "x \<noteq> []"
    and "0 < data r" "heap s (data r) = Some (OBuf x)" "data r \<noteq> args r" "size r = 32"
  shows "\<exists>t r'. ndfo_recv_write acc req s = Inr (0, t) \<and> heap t req = Some (OReq r') \<and> heap t (data r) = None \<and>
    req_bytes t r' (s_fo_rw ptr sz off' ret) []"
proof -
  have "data r \<noteq> req" using assms(7) served_pos(5)[OF assms(1)] by auto
  then show ?thesis
    using recv_write_run[OF assms(1-8)] by (simp add: served_pos[OF assms(1)] req_bytes_def not_sym[OF assms(8)] assms(9))
qed

lemma server_write_passes_data_witness:
  "\<exists>t r'. ndfo_recv_write 5 6 (serving_req (req0\<lparr>args := 7, data := 8, size := 32\<rparr>) (s_fo_rw 3 2 10 (- 5)) [65, 66]) = Inr (0, t) \<and>
    heap t 6 = Some (OReq r') \<and> heap t 8 = None \<and> req_bytes t r' (s_fo_rw 3 2 12 2) []"
  using server_write_passes_data[OF serving_req_ok(1), where f = "\<lambda>k x n off. (n, off + n)" and x = "[65, 66]"
      and r = "req0\<lparr>args := 7, data := 8, size := 32\<rparr>" and ptr = 3 and sz = 2 and off = 10 and rv = "- 5" and ret = 2 and off' = 12]
    serving_req_ok(2) by (simp add: echo_dev_def)

text \<open>
  The answer of \<open>unlocked_ioctl\<close> is thrown away.  Both ioctl handlers call the
  device and store its answer, but this one then returns -1, which the caller takes for a failure
  and sends the request back as it came.
\<close>

theorem unlocked_ioctl_always_fails:
  assumes "served s acc req fo a r (s_fo_ioctl cmd arg rv)" "fop_unlocked_ioctl fo = Some f" "fop_compat_ioctl fo = Some f"
  shows "\<exists>t. ndfo_recv_unlocked_ioctl acc req s = Inr (- 1, t) \<and> ndfo_recv_compat_ioctl acc req s = Inr (0, t) \<and>
    heap t (args r) = Some (OBuf (s_fo_ioctl cmd arg (f (tick s) cmd arg)))"
  using recv_unlocked_ioctl_run[OF assms(1,2)] recv_compat_ioctl_run[OF assms(1,3)] by simp

lemma unlocked_ioctl_always_fails_witness:
  "\<exists>t. ndfo_recv_unlocked_ioctl 5 6 (serving_req (req0\<lparr>args := 7\<rparr>) (s_fo_ioctl 1 10 (- 5)) []) = Inr (- 1, t) \<and>
    heap t 7 = Some (OBuf (s_fo_ioctl 1 10 11))"
  using unlocked_ioctl_always_fails[OF serving_req_ok(1), where f = "\<lambda>k cmd arg. arg + 1" and r = "req0\<lparr>args := 7\<rparr>"
      and cmd = 1 and arg = 10 and rv = "- 5"]
  by (auto simp: echo_dev_def)

end
