(* ===== verification/Knetlink.thy ===== *)
theory Knetlink
  imports Fo_Recv
begin

text \<open>
  \<open>kernel/netlink.c\<close>: the module's end of the netlink socket.  \<open>netlink_recv\<close> is called by
  the kernel for each message of a daemon; control messages are carried out at once, file
  operations are handed to a thread of \<open>fo_recv\<close>.  The lock \<open>nllock\<close> of a device is held
  from before that thread starts until the acknowledgement is sent, so that the daemon sees
  the acknowledgement before the reply.
\<close>

section \<open>Sizes and flags of a netlink message\<close>

definition NLM_F_REQUEST :: i32 where "NLM_F_REQUEST = 1"
definition NLM_F_ACK :: i32 where "NLM_F_ACK = 4"
definition NLM_F_ECHO :: i32 where "NLM_F_ECHO = 8"

definition NLMSG_HDRLEN :: nat where "NLMSG_HDRLEN = 16"

definition NLMSG_ALIGN :: "nat \<Rightarrow> nat" where
  "NLMSG_ALIGN n = (n + 3) div 4 * 4"

text \<open>Sizes are passed as \<open>int\<close>, so a \<open>size_t\<close> is cut to 32 bits.\<close>

definition int_size :: "i64 \<Rightarrow> nat" where
  "int_size n = unat (ucast n :: i32)"

definition nlmsg_total_size :: "i64 \<Rightarrow> nat" where
  "nlmsg_total_size n = NLMSG_ALIGN (NLMSG_HDRLEN + int_size n)"

definition NLMSG_SPACE :: "i64 \<Rightarrow> i32" where
  "NLMSG_SPACE n = of_nat (NLMSG_ALIGN (NLMSG_HDRLEN + unat n))"

definition empty_msg :: nlmsg where
  "empty_msg = \<lparr>nlmsg_len = 0, nlmsg_type = 0, nlmsg_flags = 0, nlmsg_seq = 0, nlmsg_pid = 0, payload = []\<rparr>"

text \<open>\<open>nlmsg_put\<close> into a buffer of the given capacity; \<open>None\<close> when it does not fit.\<close>

definition nlmsg_put :: "nat \<Rightarrow> i32 \<Rightarrow> i32 \<Rightarrow> i16 \<Rightarrow> i64 \<Rightarrow> i32 \<Rightarrow> nlmsg option" where
  "nlmsg_put cap portid sq mt n flags =
    (if cap < nlmsg_total_size n then None
     else Some \<lparr>nlmsg_len = of_nat (NLMSG_HDRLEN + int_size n), nlmsg_type = mt, nlmsg_flags = ucast flags,
       nlmsg_seq = sq, nlmsg_pid = portid, payload = replicate (int_size n) 0\<rparr>)"

section \<open>Sending\<close>

text \<open>
  \<open>nlmsg_unicast\<close> delivers or refuses a message; it releases the buffer in both cases.
\<close>

definition nlmsg_unicast :: "addr \<Rightarrow> i32 \<Rightarrow> i32 kprog" where
  [kexec]: "nlmsg_unicast skb pid = bindK (get_skb skb) (\<lambda>m. bindK ext_call (\<lambda>rv.
     thenK (if rv <s 0 then returnK () else emit (Unicast pid m))
     (thenK (kfree skb) (returnK rv))))"

text \<open>The second argument of \<open>memcpy\<close> is the bytes at \<open>buff\<close>, if it is not NULL.\<close>

definition netlink_send :: "addr \<Rightarrow> i32 \<Rightarrow> i16 \<Rightarrow> i32 \<Rightarrow> byte list option \<Rightarrow> i64 \<Rightarrow> i32 kprog" where
  "netlink_send nd sq mt flags buff n =
    (if nd = NULL then returnK (- 1)
     else bindK (kalloc (OSkb empty_msg)) (\<lambda>skb.
       if skb = NULL then returnK (- 1)
       else bindK (get_dev nd) (\<lambda>d.
         case nlmsg_put (nlmsg_total_size n) (nlpid d) sq mt n (or flags NLM_F_ACK) of
           None \<Rightarrow> thenK (kfree skb) (returnK (- 1))
         | Some m \<Rightarrow>
             thenK (mod_skb skb (\<lambda>_. m))
             (thenK (case buff of None \<Rightarrow> returnK ()
                     | Some b \<Rightarrow> bindK (read_bytes b 0 (unat n)) (\<lambda>x.
                         mod_skb skb (\<lambda>m. m\<lparr>payload := poke 0 x (payload m)\<rparr>)))
             (thenK (dev_spin_lock nd)
             (bindK (nlmsg_unicast skb (nlpid d)) (\<lambda>rv.
               thenK (dev_spin_unlock nd)
               (if rv <s 0 then returnK (- 1) else returnK 0))))))))"

definition netlink_send_msg :: "i32 \<Rightarrow> nlmsg \<Rightarrow> i32 \<Rightarrow> byte list option \<Rightarrow> i64 \<Rightarrow> i32 kprog" where
  "netlink_send_msg pid m flags buff n = bindK (ndmgm_find pid) (\<lambda>nd.
     netlink_send nd (nlmsg_seq m) (nlmsg_type m) flags buff n)"

definition netlink_send_skb :: "addr \<Rightarrow> addr \<Rightarrow> i32 kprog" where
  "netlink_send_skb nd skb =
    (if skb = NULL then returnK (- 1)
     else bindK (get_dev nd) (\<lambda>d.
       thenK (dev_spin_lock nd)
       (bindK (nlmsg_unicast skb (nlpid d)) (\<lambda>rv.
         thenK (dev_spin_unlock nd)
         (if rv <s 0 then returnK (- 1) else returnK 0)))))"

text \<open>The header \<open>nlh\<close> is that of the message \<open>old\<close>, whose length field is overwritten.\<close>

definition netlink_pack_skb :: "addr \<Rightarrow> byte list \<Rightarrow> i64 \<Rightarrow> addr kprog" where
  "netlink_pack_skb old buff n =
     thenK (mod_skb old (\<lambda>m. m\<lparr>nlmsg_len := NLMSG_SPACE n\<rparr>))
     (bindK (kalloc (OSkb empty_msg)) (\<lambda>skb.
       if skb = NULL then returnK NULL
       else bindK (get_skb old) (\<lambda>m.
         case nlmsg_put (unat (nlmsg_len m)) (nlmsg_pid m) (nlmsg_seq m) (nlmsg_type m) n NLM_F_ACK of
           None \<Rightarrow> returnK NULL
         | Some m' \<Rightarrow>
             thenK (mod_skb skb (\<lambda>_. m'))
             (bindK (read_bytes buff 0 (unat n)) (\<lambda>x.
               thenK (mod_skb skb (\<lambda>m. m\<lparr>payload := poke 0 x (payload m)\<rparr>))
               (returnK skb))))))"

section \<open>Receiving\<close>

text \<open>The \<open>switch\<close> over control messages; its result is \<open>err\<close>.\<close>

definition netlink_control :: "i32 \<Rightarrow> nlmsg \<Rightarrow> i32 kprog" where
  "netlink_control pid m = (let mt = unat (nlmsg_type m) in
    if mt = MSGT_CONTROL_ECHO then netlink_send_msg pid m NLM_F_ECHO (Some (payload m)) 4
    else if mt = MSGT_CONTROL_VERSION
      then netlink_send_msg pid m NLM_F_ECHO (Some (le_bytes 4 NETDEV_PROTOCOL_VERSION)) 4
    else if mt = MSGT_CONTROL_REG_DUMMY then bindK (c_string (payload m)) (ndmgm_create_dummy pid)
    else if mt = MSGT_CONTROL_REG_SERVER then bindK (c_string (payload m)) (ndmgm_create_server pid)
    else if mt = MSGT_CONTROL_UNREGISTER then ndmgm_find_destroy pid
    else returnK 0)"

text \<open>The end of \<open>netlink_recv\<close>: the acknowledgement, then the lock.\<close>

definition netlink_answer :: "addr \<Rightarrow> nlmsg \<Rightarrow> addr \<Rightarrow> i32 \<Rightarrow> unit kprog" where
  "netlink_answer skb m nd err =
     thenK (if err \<noteq> 0 \<or> and (nlmsg_flags m) (ucast NLM_F_ACK) \<noteq> 0
            then emit (Ack (nlmsg_pid m) (nlmsg_seq m) err)
            else kfree skb)
     (if nd \<noteq> NULL then dev_spin_unlock nd else returnK ())"

text \<open>
  A file operation: the message is copied for a new thread, which starts once the device's lock is
  held.  \<open>kthread_create\<close> answers an error number or 0; waking an error pointer is a fault.  The
  parameter \<open>others\<close> is what that thread and all others do from its start to the acknowledgement.
\<close>

definition netlink_dispatch_fo :: "(addr \<Rightarrow> unit kprog) \<Rightarrow> addr \<Rightarrow> nlmsg \<Rightarrow> addr \<Rightarrow> i32 kprog" where
  "netlink_dispatch_fo others skb m nd =
     bindK (kalloc (OSkb m)) (\<lambda>copy.
     bindK ext_call (\<lambda>err.
     thenK (dev_spin_lock nd)
     (if err \<noteq> 0 then failK BadPointer
      else thenK (emit (Woken copy)) (thenK (others copy) (returnK err)))))"

definition netlink_recv :: "(addr \<Rightarrow> unit kprog) \<Rightarrow> addr \<Rightarrow> unit kprog" where
  "netlink_recv others skb = bindK (get_skb skb) (\<lambda>m. let pid = nlmsg_pid m; mt = unat (nlmsg_type m) in
     if pid = 0 then returnK ()
     else if MSGT_CONTROL_START \<le> mt \<and> mt < MSGT_CONTROL_END
       then bindK (netlink_control pid m) (netlink_answer skb m NULL)
     else if MSGT_FO_START < mt \<and> mt < MSGT_FO_END
       then bindK (ndmgm_find pid) (\<lambda>nd.
         if nd = NULL then returnK ()
         else bindK (netlink_dispatch_fo others skb m nd) (netlink_answer skb m nd))
     else netlink_answer skb m NULL 0)"

definition netlink_init :: "i32 kprog" where
  "netlink_init = bindK ext_call (\<lambda>err.
     if err \<noteq> 0 then thenK (modifyK (\<lambda>s. s\<lparr>nl_sk := False\<rparr>)) (returnK (- 1))
     else thenK (modifyK (\<lambda>s. s\<lparr>nl_sk := True\<rparr>)) (thenK (emit SockCreate) (returnK 0)))"

definition netlink_exit :: "unit kprog" where
  "netlink_exit = emit SockRelease"

section \<open>Running a send\<close>

lemma nllock_same: "nllock d = b \<Longrightarrow> d\<lparr>nllock := b\<rparr> = d"
  by simp

lemma int_size_small: "unat n < 2147483648 \<Longrightarrow> int_size n = unat n"
  by (simp add: int_size_def unsigned_ucast_eq take_bit_nat_eq_self)

lemma nlmsg_total_size_ge: "int_size n \<le> nlmsg_total_size n"
  unfolding nlmsg_total_size_def NLMSG_ALIGN_def NLMSG_HDRLEN_def by linarith

definition built_msg :: "i32 \<Rightarrow> i32 \<Rightarrow> i16 \<Rightarrow> i32 \<Rightarrow> byte list \<Rightarrow> nlmsg" where
  "built_msg pid sq mt flags b = \<lparr>nlmsg_len = of_nat (NLMSG_HDRLEN + length b), nlmsg_type = mt,
     nlmsg_flags = ucast (or flags NLM_F_ACK), nlmsg_seq = sq, nlmsg_pid = pid, payload = b\<rparr>"

text \<open>What the kernel's answer to \<open>nlmsg_unicast\<close> means for the sender.\<close>

definition delivered :: "i32 \<Rightarrow> i32 \<Rightarrow> nlmsg \<Rightarrow> kevent list" where
  "delivered rv pid m = (if rv <s 0 then [] else [Unicast pid m])"

definition send_result :: "i32 \<Rightarrow> i32" where
  "send_result rv = (if rv <s 0 then - 1 else 0)"

lemma unicast_run:
  assumes "0 < skb" "heap s skb = Some (OSkb m)"
  shows "nlmsg_unicast skb pid s = Inr (ext_ret s (tick s), s\<lparr>heap := (heap s)(skb := None), tick := Suc (tick s),
    trace := trace s @ delivered (ext_ret s (tick s)) pid m\<rparr>)"
  using assms by (simp add: nlmsg_unicast_def kflow ext_call_def delivered_def)

text \<open>Lock, send, unlock: the common end of both send functions.\<close>

lemma locked_unicast_run:
  assumes "0 < skb" "heap s skb = Some (OSkb m)" "0 < nd" "heap s nd = Some (ODev d)" "\<not> nllock d"
  shows "thenK (dev_spin_lock nd) (bindK (nlmsg_unicast skb pid) (\<lambda>rv. thenK (dev_spin_unlock nd)
      (if rv <s 0 then returnK (- 1) else returnK 0))) s =
    Inr (send_result (ext_ret s (tick s)), s\<lparr>heap := (heap s)(skb := None), tick := Suc (tick s),
      trace := trace s @ delivered (ext_ret s (tick s)) pid m\<rparr>)"
proof -
  have ne: "skb \<noteq> nd" "nd \<noteq> skb" using assms by auto
  let ?h = "(heap s)(nd \<mapsto> ODev (d\<lparr>nllock := True\<rparr>))" and ?e = "delivered (ext_ret s (tick s)) pid m"
  have lock: "dev_spin_lock nd s = Inr ((), s\<lparr>heap := ?h\<rparr>)"
    by (simp add: dev_spin_lock_def bindK_def assms)
  have uni: "nlmsg_unicast skb pid (s\<lparr>heap := ?h\<rparr>) = Inr (ext_ret s (tick s),
      s\<lparr>heap := ?h(skb := None), tick := Suc (tick s), trace := trace s @ ?e\<rparr>)"
    by (subst unicast_run[where m = m]) (simp_all add: assms ne)
  have "?h(skb := None, nd \<mapsto> ODev d) = (heap s)(skb := None)"
    using assms(4) ne by (auto simp: fun_eq_iff)
  then have unlock: "dev_spin_unlock nd (s\<lparr>heap := ?h(skb := None), tick := Suc (tick s), trace := trace s @ ?e\<rparr>) =
      Inr ((), s\<lparr>heap := (heap s)(skb := None), tick := Suc (tick s), trace := trace s @ ?e\<rparr>)"
    by (simp add: dev_spin_unlock_def bindK_def assms ne nllock_same)
  show ?thesis by (simp add: thenK_Inr bindK_Inr lock uni unlock send_result_def returnK_def)
qed

lemma send_skb_run:
  assumes "0 < skb" "heap s skb = Some (OSkb m)" "0 < nd" "heap s nd = Some (ODev d)" "\<not> nllock d"
  shows "netlink_send_skb nd skb s =
    Inr (send_result (ext_ret s (tick s)), s\<lparr>heap := (heap s)(skb := None), tick := Suc (tick s),
      trace := trace s @ delivered (ext_ret s (tick s)) (nlpid d) m\<rparr>)"
  using assms(1,3) by (simp add: netlink_send_skb_def bindK_Inr[where m = "get_dev nd"] assms(4) locked_unicast_run[OF assms])

lemma send_run:
  assumes "heap_ok s" "heap s nd = Some (ODev d)" "\<not> nllock d" "can_alloc s" "length b = unat n" "unat n < 2147483648"
  shows "netlink_send nd sq mt flags (Some b) n s =
    Inr (send_result (ext_ret s (Suc (tick s))), s\<lparr>next_addr := Suc (next_addr s), tick := Suc (Suc (tick s)),
      trace := trace s @ delivered (ext_ret s (Suc (tick s))) (nlpid d) (built_msg (nlpid d) sq mt flags b)\<rparr>)"
proof -
  let ?q = "next_addr s"
  have nd: "0 < nd" using assms(1,2) by (rule heap_ok_pos)
  have q: "0 < ?q" "heap s ?q = None" by (rule fresh_heap[OF assms(1)])+
  have ne: "nd \<noteq> ?q" "?q \<noteq> nd" using q(2) assms(2) by auto
  let ?t = "\<lambda>m. s\<lparr>heap := (heap s)(?q \<mapsto> OSkb m), next_addr := Suc ?q, tick := Suc (tick s)\<rparr>"
  have alloc: "kalloc (OSkb empty_msg) s = Inr (?q, ?t empty_msg)" using assms(4) by (simp add: kalloc_def)
  let ?z = "(built_msg (nlpid d) sq mt flags b)\<lparr>payload := replicate (unat n) 0\<rparr>"
  have put: "nlmsg_put (nlmsg_total_size n) (nlpid d) sq mt n (or flags NLM_F_ACK) = Some ?z"
    by (simp add: nlmsg_put_def built_msg_def int_size_small assms)
  have copy: "bindK (read_bytes b 0 (unat n)) (\<lambda>x. mod_skb ?q (\<lambda>m. m\<lparr>payload := poke 0 x (payload m)\<rparr>)) (?t ?z) =
      Inr ((), ?t (built_msg (nlpid d) sq mt flags b))"
    by (simp add: read_bytes_def bindK_def returnK_def q assms(5) poke_whole built_msg_def)
  have fin: "(heap s)(?q := None) = heap s" using q(2) by (simp add: fun_upd_idem)
  have "thenK (dev_spin_lock nd) (bindK (nlmsg_unicast ?q (nlpid d)) (\<lambda>rv. thenK (dev_spin_unlock nd)
      (if rv <s 0 then returnK (- 1) else returnK 0))) (?t (built_msg (nlpid d) sq mt flags b)) =
    Inr (send_result (ext_ret s (Suc (tick s))), s\<lparr>next_addr := Suc (next_addr s), tick := Suc (Suc (tick s)),
      trace := trace s @ delivered (ext_ret s (Suc (tick s))) (nlpid d) (built_msg (nlpid d) sq mt flags b)\<rparr>)"
    by (subst locked_unicast_run[where m = "built_msg (nlpid d) sq mt flags b" and d = d])
      (simp_all add: q nd ne assms(2,3) fin)
  moreover have "mod_skb ?q (\<lambda>_. ?z) (?t empty_msg) = Inr ((), ?t ?z)" by (simp add: q)
  moreover have "get_dev nd (?t empty_msg) = Inr (d, ?t empty_msg)" by (simp add: nd ne assms(2))
  ultimately show ?thesis
    using q(1) nd
    by (simp add: netlink_send_def bindK_Inr[where m = "kalloc (OSkb empty_msg)"] alloc put bindK_Inr[where m = "get_dev nd"]
        thenK_Inr[where m = "mod_skb ?q (\<lambda>_. ?z)"] copy
        thenK_Inr[where m = "bindK (read_bytes b 0 (unat n)) (\<lambda>x. mod_skb ?q (\<lambda>m. m\<lparr>payload := poke 0 x (payload m)\<rparr>))"]
        del: fun_upd_apply)
qed

section \<open>Receiving a file operation\<close>

definition wants_ack :: "nlmsg \<Rightarrow> bool" where
  "wants_ack m \<longleftrightarrow> and (nlmsg_flags m) (ucast NLM_F_ACK) \<noteq> 0"

text \<open>The state in which the new thread starts: it has its copy and the device is locked.\<close>

definition fo_dispatched :: "kst \<Rightarrow> nlmsg \<Rightarrow> addr \<Rightarrow> netdev_data \<Rightarrow> kst" where
  "fo_dispatched s m nd d = s\<lparr>heap := (heap s)(next_addr s \<mapsto> OSkb m, nd \<mapsto> ODev (d\<lparr>nllock := True\<rparr>)),
     next_addr := Suc (next_addr s), tick := Suc (Suc (tick s)), trace := trace s @ [Woken (next_addr s)]\<rparr>"

lemma dispatch_run:
  assumes "heap_ok s" "heap s nd = Some (ODev d)" "\<not> nllock d" "can_alloc s" "ext_ret s (Suc (tick s)) = 0"
  shows "netlink_dispatch_fo others skb m nd s = thenK (others (next_addr s)) (returnK 0) (fo_dispatched s m nd d)"
proof -
  have nd: "0 < nd" using assms(1,2) by (rule heap_ok_pos)
  have q: "0 < next_addr s" "heap s (next_addr s) = None" by (rule fresh_heap[OF assms(1)])+
  have ne: "nd \<noteq> next_addr s" using q(2) assms(2) by auto
  show ?thesis
    by (simp add: netlink_dispatch_fo_def fo_dispatched_def kflow kalloc_def ext_call_def dev_spin_lock_def assms nd ne)
qed

lemma answer_ack_run:
  assumes "wants_ack m" "0 < nd" "heap s nd = Some (ODev d)" "nllock d"
  shows "netlink_answer skb m nd err s = Inr ((), s\<lparr>heap := (heap s)(nd \<mapsto> ODev (d\<lparr>nllock := False\<rparr>)),
    trace := trace s @ [Ack (nlmsg_pid m) (nlmsg_seq m) err]\<rparr>)"
  using assms by (simp add: netlink_answer_def kflow wants_ack_def dev_spin_unlock_def)

lemma answer_ack_control:
  "wants_ack m \<Longrightarrow> netlink_answer skb m 0 err s = Inr ((), s\<lparr>trace := trace s @ [Ack (nlmsg_pid m) (nlmsg_seq m) err]\<rparr>)"
  by (simp add: netlink_answer_def kflow wants_ack_def)

lemma c_string_run: "0 \<notin> set name \<Longrightarrow> c_string (name @ 0 # pad) s = Inr (name, s)"
  by (simp add: c_string_def kflow)
    (metis (mono_tags, lifting) append_Nil2 takeWhile.simps(2) takeWhile_append2)

section \<open>Properties\<close>

text \<open>
  \<open>netlink_send\<close> hands the kernel exactly one message: addressed to the device's process,
  with the sequence number and type given, the acknowledge flag added, and the payload equal to the
  buffer.  Whether or not it is accepted, no memory stays allocated and the lock is released; the
  result is -1 exactly when the kernel refused it.
\<close>

theorem netlink_send_one_message:
  assumes "heap_ok s" "heap s nd = Some (ODev d)" "\<not> nllock d" "can_alloc s" "length b = unat n" "unat n < 2147483648"
  shows "\<exists>t m. netlink_send nd sq mt flags (Some b) n s =
      Inr (if ext_ret s (Suc (tick s)) <s 0 then - 1 else 0, t) \<and> heap t = heap s \<and>
    trace t = trace s @ (if ext_ret s (Suc (tick s)) <s 0 then [] else [Unicast (nlpid d) m]) \<and>
    nlmsg_pid m = nlpid d \<and> nlmsg_seq m = sq \<and> nlmsg_type m = mt \<and> payload m = b \<and>
    nlmsg_len m = of_nat (16 + length b) \<and> nlmsg_flags m = ucast (or flags NLM_F_ACK)"
  using send_run[OF assms, of sq mt flags]
  by (intro exI[of _ "s\<lparr>next_addr := Suc (next_addr s), tick := Suc (Suc (tick s)),
      trace := trace s @ delivered (ext_ret s (Suc (tick s))) (nlpid d) (built_msg (nlpid d) sq mt flags b)\<rparr>"]
      exI[of _ "built_msg (nlpid d) sq mt flags b"])
    (simp add: send_result_def delivered_def built_msg_def NLMSG_HDRLEN_def)

lemma netlink_send_one_message_witness:
  "\<exists>t m. netlink_send 1 3 102 1 (Some [65, 66]) 2 serving = Inr (0, t) \<and> heap t = heap serving \<and>
    trace t = [Unicast 9 m] \<and> nlmsg_seq m = 3 \<and> payload m = [65, 66] \<and> nlmsg_len m = 18"
proof -
  have "\<not> nllock srv0" by (simp add: srv0_def dev0_def)
  moreover have "can_alloc serving" "tick serving = 0" "ext_ret serving 1 = 0" "trace serving = []"
    by (simp_all add: serving_def kst0_def can_alloc_def ADDR_LIMIT_def)
  ultimately show ?thesis
    using netlink_send_one_message[OF serving_ok(1,3), of "[65, 66]" 2 3 102 1] by (auto simp: word_sless_alt)
qed

text \<open>\<open>netlink_recv\<close> up to the start of the thread, in the window before the acknowledgement.\<close>

lemma recv_fo_run:
  assumes "heap_ok s" "devs_ok s" "\<not> writer (netdev_htable_sem s)" "device_of s (nlmsg_pid m) = Some nd"
    and "heap s nd = Some (ODev d)" "\<not> nllock d" "heap s skb = Some (OSkb m)"
    and "nlmsg_pid m \<noteq> 0" "nlmsg_pid m \<noteq> - 1" "MSGT_FO_START < unat (nlmsg_type m)" "unat (nlmsg_type m) < MSGT_FO_END"
    and "can_alloc s" "ext_ret s (Suc (tick s)) = 0"
  shows "netlink_recv others skb s =
    bindK (others (next_addr s)) (\<lambda>_. netlink_answer skb m nd 0) (fo_dispatched s m nd d)"
proof -
  have pos: "0 < nd" "0 < skb" using assms(1,5,7) heap_ok_pos by auto
  have find: "ndmgm_find (nlmsg_pid m) s = Inr (nd, s)"
    using find_run[OF assms(1-3,9)] assms(4) by simp
  have "bindK (netlink_dispatch_fo others skb m nd) (netlink_answer skb m nd) s =
      bindK (others (next_addr s)) (\<lambda>_. netlink_answer skb m nd 0) (fo_dispatched s m nd d)"
    using dispatch_run[OF assms(1,5,6,12,13), of others skb m]
    by (simp add: bindK_def thenK_def returnK_def split: sum.split)
  then show ?thesis
    using assms(8,10,11) pos
    by (simp add: netlink_recv_def bindK_Inr[where m = "get_skb skb"] assms(7) Let_def MSGT_CONTROL_END_def MSGT_FO_START_def
        MSGT_FO_END_def bindK_Inr[where m = "ndmgm_find (nlmsg_pid m)"] find)
qed


text \<open>The server of pid 7 with a message waiting for it.\<close>

definition with_message :: "nlmsg \<Rightarrow> kst" where
  "with_message m = (one_server (server_dev 7 1))\<lparr>heap := (heap (one_server (server_dev 7 1)))(5 \<mapsto> OSkb m), next_addr := 6\<rparr>"

definition read_msg :: nlmsg where
  "read_msg = \<lparr>nlmsg_len = 16, nlmsg_type = 102, nlmsg_flags = 5, nlmsg_seq = 3, nlmsg_pid = 7, payload = []\<rparr>"

lemma with_message_ok:
  "heap_ok (with_message m)" "devs_ok (with_message m)" "netdev_htable_sem (with_message m) = sem_free"
  "device_of (with_message m) = [7 \<mapsto> 1]" "heap (with_message m) 1 = Some (ODev (server_dev 7 1))"
  "heap (with_message m) 5 = Some (OSkb m)" "can_alloc (with_message m)" "ext_ret (with_message m) i = 0"
  "trace (with_message m) = []" "alloc3 (with_message m)" "netdev_htable (with_message m) = netdev_htable (one_server (server_dev 7 1))"
proof -
  have key: "dev_key (with_message m) 1 = 7"
    by (simp add: with_message_def one_server_def dev_key_def server_dev_def)
  show "device_of (with_message m) = [7 \<mapsto> 1]"
    using lookup_one[of "dev_key (with_message m)" 1 7, OF key]
    by (simp add: device_of_def with_message_def one_server_def kst0_def)
qed (auto simp: with_message_def one_server_def kst0_def heap_ok_def devs_ok_def hash_add_def hash_init_def can_alloc_def alloc3_def
    ADDR_LIMIT_def split: if_splits)

lemma server_dev_lock [simp]: "\<not> nllock (server_dev pid nd)"
  by (simp add: server_dev_def zero_dev_def)

lemma read_msg_acks: "wants_ack read_msg"
  by (simp add: wants_ack_def read_msg_def NLM_F_ACK_def)


text \<open>
  A file operation for a device that does not exist is never answered: although the sender
  asked for an acknowledgement, \<open>netlink_recv\<close> returns with nothing sent, and the
  message still allocated.
\<close>

theorem fo_for_missing_device_unanswered:
  assumes "heap_ok s" "devs_ok s" "\<not> writer (netdev_htable_sem s)" "device_of s (nlmsg_pid m) = None"
    and "heap s skb = Some (OSkb m)" "nlmsg_pid m \<noteq> - 1" "MSGT_FO_START < unat (nlmsg_type m)" "unat (nlmsg_type m) < MSGT_FO_END"
  shows "netlink_recv others skb s = Inr ((), s)"
proof -
  have "0 < skb" using assms(1,5) heap_ok_pos by auto
  moreover have "ndmgm_find (nlmsg_pid m) s = Inr (NULL, s)" using find_run[OF assms(1-3,6)] assms(4) by simp
  ultimately show ?thesis
    using assms(7,8)
    by (simp add: netlink_recv_def bindK_Inr[where m = "get_skb skb"] assms(5) Let_def MSGT_CONTROL_END_def MSGT_FO_START_def
        MSGT_FO_END_def bindK_Inr[where m = "ndmgm_find (nlmsg_pid m)"] returnK_def)
qed

lemma fo_for_missing_device_unanswered_witness:
  "netlink_recv (\<lambda>_. returnK ()) 5 (with_message (read_msg\<lparr>nlmsg_pid := 8\<rparr>)) = Inr ((), with_message (read_msg\<lparr>nlmsg_pid := 8\<rparr>)) \<and>
    wants_ack (read_msg\<lparr>nlmsg_pid := 8\<rparr>)"
  using fo_for_missing_device_unanswered[OF with_message_ok(1,2), of "read_msg\<lparr>nlmsg_pid := 8\<rparr>" "read_msg\<lparr>nlmsg_pid := 8\<rparr>" 5]
    with_message_ok(3,4,6) read_msg_acks
  by (simp add: read_msg_def MSGT_FO_START_def MSGT_FO_END_def wants_ack_def)

text \<open>
  C16.  Registering a served device over the socket: the sender gets one acknowledgement with its
  own sequence number and nothing else leaves the module (the trace records besides only what an
  overlong name writes past the end of \<open>pool_name\<close>).  Error 0 means that the process is now mapped to a device of that name,
  any other error that memory and table are unchanged; which of the two is decided by the
  allocations alone.
\<close>

theorem register_server_over_netlink:
  assumes "heap_ok s" "devs_ok s" "heap s skb = Some (OSkb m)" "nlmsg_pid m \<noteq> 0" "wants_ack m"
    and "unat (nlmsg_type m) = MSGT_CONTROL_REG_SERVER" "payload m = name @ 0 # pad" "0 \<notin> set name"
  shows "\<exists>err t. netlink_recv others skb s = Inr ((), t) \<and>
    trace t = trace s @ stack_overrun (server_name_len name) @ [Ack (nlmsg_pid m) (nlmsg_seq m) err] \<and>
    (if alloc3 s
     then err = 0 \<and> (\<exists>nd d. device_of t = (device_of s)(nlmsg_pid m \<mapsto> nd) \<and> heap t nd = Some (ODev d) \<and>
       heap t (devname d) = Some (OBuf (name @ [0])) \<and> active d \<and> \<not> dummy d)
     else err = 1 \<and> heap t = heap s \<and> netdev_htable t = netdev_htable s)"
proof -
  let ?pid = "nlmsg_pid m" and ?ack = "\<lambda>err. [Ack (nlmsg_pid m) (nlmsg_seq m) err]"
  have skb: "0 < skb" using assms(1,3) by (rule heap_ok_pos)
  have ctl: "netlink_control ?pid m s = ndmgm_create_server ?pid name s"
    using c_string_run[OF assms(8), of pad s] assms(6)
    by (simp add: netlink_control_def Let_def assms(7) bindK_Inr MSGT_CONTROL_ECHO_def MSGT_CONTROL_VERSION_def
        MSGT_CONTROL_REG_DUMMY_def MSGT_CONTROL_REG_SERVER_def)
  have recv: "netlink_recv others skb s = Inr ((), u\<lparr>trace := trace u @ ?ack err\<rparr>)"
    if "ndmgm_create_server ?pid name s = Inr (err, u)" for err u
    using skb assms(4,6) that
    by (simp add: netlink_recv_def bindK_Inr[where m = "get_skb skb"] assms(3) Let_def MSGT_CONTROL_END_def MSGT_CONTROL_START_def
        MSGT_CONTROL_REG_SERVER_def bindK_Inr[where m = "netlink_control ?pid m"] ctl answer_ack_control[OF assms(5)])
  show ?thesis
  proof (cases "alloc3 s")
    case True
    let ?nd = "next_addr s"
    note run = create_server_ok[OF assms(1) True refl, of ?pid name]
    note fresh = fresh_heap[OF assms(1)]
    let ?t = "s\<lparr>heap := (heap s)(?nd \<mapsto> ODev (server_dev ?pid ?nd), Suc ?nd \<mapsto> OBuf (name @ [0]), Suc (Suc ?nd) \<mapsto> OPool),
      next_addr := Suc (Suc (Suc ?nd)), tick := Suc (Suc (Suc (tick s))),
      netdev_htable := hash_add (hash_min s) ?pid ?nd (netdev_htable s),
      trace := trace s @ stack_overrun (server_name_len name) @ ?ack 0\<rparr>"
    have "device_of ?t = (device_of s)(?pid \<mapsto> ?nd)"
      using fresh by (intro device_of_register[OF assms(2), where d = "server_dev ?pid ?nd"]) auto
    with recv[OF run] True show ?thesis
      by (intro exI[of _ 0] exI[of _ ?t])
        (auto intro!: exI[of _ ?nd] exI[of _ "server_dev ?pid ?nd"])
  next
    case False
    from create_server_fails[OF assms(1) False, of ?pid name] obtain u
      where u: "ndmgm_create_server ?pid name s = Inr (1, u)" "heap u = heap s" "same_globals s u"
        "trace u = trace s @ stack_overrun (server_name_len name)" by blast
    with recv[OF u(1)] u(2-4) False show ?thesis by (auto simp: same_globals_def)
  qed
qed

lemma register_server_over_netlink_witness:
  "\<exists>t nd. netlink_recv (\<lambda>_. returnK ()) 5
      (with_message (read_msg\<lparr>nlmsg_type := 6, nlmsg_pid := 9, payload := [110, 117, 108, 108, 0]\<rparr>)) = Inr ((), t) \<and>
    trace t = [Ack 9 3 0] \<and> device_of t = [7 \<mapsto> 1, 9 \<mapsto> nd]"
proof -
  let ?m = "read_msg\<lparr>nlmsg_type := 6, nlmsg_pid := 9, payload := [110, 117, 108, 108, 0]\<rparr>"
  have "wants_ack ?m" using read_msg_acks by (simp add: wants_ack_def)
  moreover have "stack_overrun (server_name_len [110, 117, 108, 108]) = []"
    by (simp_all add: stack_overrun_def server_name_len_def NETDEV_REQ_POOL_NAME_LEN_def pool_name_cap_def)
  ultimately show ?thesis
    using register_server_over_netlink[OF with_message_ok(1,2,6), of ?m "[110, 117, 108, 108]" "[]"]
      with_message_ok(4,9,10)[of ?m]
    by (fastforce simp: read_msg_def MSGT_CONTROL_REG_SERVER_def)
qed

end
