(* ===== verification/Fo_Comm.thy ===== *)
theory Fo_Comm
  imports Knetlink
begin

text \<open>
  \<open>kernel/fo_comm.c\<close>: how a file operation travels.  \<open>fo_send\<close> runs in the user's process
  on the machine with the dummy device: it queues a request, sends it and waits.
  \<open>fo_recv\<close> runs in a thread for each message: on the server it executes the operation
  (\<open>fo_execute\<close>) and sends the message back with the result, on the client it hands the
  result to the waiting request (\<open>fo_complete\<close>).
\<close>

section \<open>The sending side\<close>

text \<open>A wait that is not over is \<open>Blocked\<close>.\<close>

definition wait_for_completion :: "addr \<Rightarrow> unit kprog" where
  "wait_for_completion req = bindK (get_req req) (\<lambda>r. if comp_done r then returnK () else failK Blocked)"

text \<open>The label \<open>out\<close> of \<open>fo_send\<close>.\<close>

definition fo_send_out :: "nat \<Rightarrow> addr \<Rightarrow> addr \<Rightarrow> addr \<Rightarrow> i32 \<Rightarrow> i32 kprog" where
  "fo_send_out mt acc buffer req rv = thenK (kfree buffer)
     (bindK (get_acc acc) (\<lambda>a. thenK (ndmgm_put (nddata a))
     (bindK (get_dev (nddata a)) (\<lambda>d. thenK (kmem_cache_free (queue_pool d) req)
     (thenK (if mt = MSGT_FO_RELEASE then fo_acc_destroy acc else returnK ())
     (returnK rv))))))"

text \<open>
  The part of \<open>fo_send\<close> in which the request is in the queue, up to the label.  \<open>others\<close> is what
  the other threads do to the state between the sending of the message and the end of the wait: any
  program.
\<close>

definition fo_send_queued :: "unit kprog \<Rightarrow> nat \<Rightarrow> addr \<Rightarrow> addr \<Rightarrow> addr \<Rightarrow> i32 kprog" where
  "fo_send_queued others mt acc nd req = bindK (fo_serialize req) (\<lambda>(buffer, bufflen).
     if buffer = NULL then fo_send_out mt acc NULL req (- ENODATA)
     else bindK (ndmgm_incseq nd) (\<lambda>sq. thenK (mod_req req (\<lambda>r. r\<lparr>seq := scast sq\<rparr>))
       (if sq = 0 then fo_send_out mt acc buffer req (- EBUSY)
        else bindK (get_req req) (\<lambda>r. bindK (get_buf buffer) (\<lambda>b.
          bindK (netlink_send nd (ucast (seq r)) (msgtype r) NLM_F_REQUEST (Some b) bufflen) (\<lambda>rv.
            if rv <s 0 then fo_send_out mt acc buffer req (- ECANCELED)
            else thenK others (thenK (wait_for_completion req)
              (bindK (get_req req) (\<lambda>r. fo_send_out mt acc buffer req (rvalue r))))))))))"

text \<open>The message type is a constant at each call.\<close>

definition fo_send :: "unit kprog \<Rightarrow> nat \<Rightarrow> addr \<Rightarrow> addr \<Rightarrow> i64 \<Rightarrow> addr \<Rightarrow> i64 \<Rightarrow> i32 kprog" where
  "fo_send others mt acc ar sz da dsz = bindK (get_acc acc) (\<lambda>a. bindK (get_dev (nddata a)) (\<lambda>d.
    if \<not> active d then returnK (- EBUSY)
    else thenK (ndmgm_get (nddata a)) (bindK (kmem_cache_alloc (queue_pool d)) (\<lambda>req.
      if req = NULL then fo_send_out mt acc NULL NULL (- ENOMEM)
      else thenK (mod_req req (\<lambda>r. r\<lparr>rvalue := - 1, msgtype := of_nat mt, req_access_id := access_id a, args := ar,
                    size := sz, data := da, data_size := dsz, comp_done := False\<rparr>))
        (bindK (fo_acc_foreq_add acc req) (\<lambda>_. fo_send_queued others mt acc (nddata a) req))))))"

section \<open>The receiving side\<close>

text \<open>The header \<open>nlh\<close> is that of the message \<open>skb\<close>.\<close>

definition fo_complete :: "addr \<Rightarrow> addr \<Rightarrow> i32 kprog" where
  "fo_complete acc skb = bindK (get_skb skb) (\<lambda>m. bindK (fo_acc_foreq_find acc (nlmsg_seq m)) (\<lambda>req.
     if req = NULL then returnK (- 1)
     else bindK (fo_deserialize_toreq req (payload m)) (\<lambda>ok.
       if \<not> ok then returnK (- 1)
       else thenK (complete_req req) (thenK (kfree skb) (returnK 0)))))"

text \<open>\<open>memcpy(nlmsg_data(nlh), ...)\<close>: into the payload of a message in memory.\<close>

definition write_payload :: "addr \<Rightarrow> byte list \<Rightarrow> unit kprog" where
  "write_payload skb b = bindK (get_skb skb) (\<lambda>m.
     thenK (mod_skb skb (\<lambda>m. m\<lparr>payload := poke 0 b (payload m)\<rparr>))
     (if length b \<le> length (payload m) then returnK () else emit (Overrun (length b - length (payload m)))))"

text \<open>The label \<open>err\<close> of \<open>fo_execute\<close>, which every exit reaches.\<close>

definition fo_execute_err :: "nat \<Rightarrow> addr \<Rightarrow> addr \<Rightarrow> addr \<Rightarrow> addr \<Rightarrow> i32 \<Rightarrow> i32 kprog" where
  "fo_execute_err mt acc skb buff req rv = bindK (get_acc acc) (\<lambda>a. thenK (netlink_send_skb (nddata a) skb)
     (bindK (get_req req) (\<lambda>r. thenK (kfree (args r)) (thenK (kfree (data r))
     (bindK (get_dev (nddata a)) (\<lambda>d. thenK (kmem_cache_free (queue_pool d) req)
     (thenK (kfree buff)
     (thenK (if mt = MSGT_FO_RELEASE then fo_acc_destroy acc else returnK ())
     (returnK rv)))))))))"

definition nlmsg_payload_len :: "nlmsg \<Rightarrow> i64" where
  "nlmsg_payload_len m = scast (nlmsg_len m - of_nat NLMSG_HDRLEN)"

text \<open>From the return of the operation to the label: the result is put into the message, or into a
  new one when its size changed.  (The test of the new message looks at the old one.)\<close>

definition fo_execute_reply :: "nat \<Rightarrow> addr \<Rightarrow> addr \<Rightarrow> addr \<Rightarrow> i32 kprog" where
  "fo_execute_reply mt acc skb req = bindK (fo_serialize req) (\<lambda>(buff, bufflen).
     if buff = NULL then fo_execute_err mt acc skb buff req (- ENODATA)
     else bindK (get_skb skb) (\<lambda>m. bindK (get_buf buff) (\<lambda>b.
       if bufflen = nlmsg_payload_len m
       then thenK (write_payload skb b) (fo_execute_err mt acc skb buff req 0)
       else bindK (netlink_pack_skb skb b bufflen) (\<lambda>skbtmp.
         thenK (kfree skb) (fo_execute_err mt acc skbtmp buff req 0)))))"

definition fo_execute :: "addr \<Rightarrow> addr \<Rightarrow> i32 kprog" where
  "fo_execute acc skb = bindK (get_skb skb) (\<lambda>m. let mt = unat (nlmsg_type m) in
     bindK (fo_deserialize acc (payload m)) (\<lambda>req.
       if req = NULL then fo_execute_err mt acc skb NULL NULL (- ENODATA)
       else if mt < MSGT_FO_START + 1 \<or> length netdev_recv_fops \<le> mt - (MSGT_FO_START + 1) then failK OutOfBounds
       else case netdev_recv_fops ! (mt - (MSGT_FO_START + 1)) of
         None \<Rightarrow> fo_execute_err mt acc skb NULL req (- ENODATA)
       | Some fofun \<Rightarrow> bindK (fofun acc req) (\<lambda>rv. thenK (mod_req req (\<lambda>r. r\<lparr>rvalue := rv\<rparr>))
           (if rv = - 1 then fo_execute_err mt acc skb NULL req (- ENODATA)
            else fo_execute_reply mt acc skb req))))"

text \<open>
  The open file of a message: found, or started by an open.  The early exits (\<open>do_exit\<close> with
  an error number) are left values.
\<close>

definition fo_recv_acc :: "nlmsg \<Rightarrow> addr \<Rightarrow> i32 \<Rightarrow> (i32 + addr) kprog" where
  "fo_recv_acc m nd pid = bindK (ndmgm_find_acc nd pid) (\<lambda>acc.
     if acc \<noteq> NULL then returnK (Inr acc)
     else if unat (nlmsg_type m) \<noteq> MSGT_FO_OPEN then returnK (Inl (- ENFILE))
     else bindK (fo_acc_start nd pid) (\<lambda>acc.
       if acc = NULL then returnK (Inl (- ENOMEM)) else returnK (Inr acc)))"

text \<open>The thread function; its result is the argument of \<open>do_exit\<close>.\<close>

definition fo_recv :: "addr \<Rightarrow> i32 kprog" where
  "fo_recv skb = bindK (get_skb skb) (\<lambda>m. bindK (ndmgm_find (nlmsg_pid m)) (\<lambda>nd.
     if IS_ERR nd then returnK (- ENODEV)
     else thenK (ndmgm_get nd) (bindK (read_bytes (payload m) 0 4) (\<lambda>b.
       bindK (fo_recv_acc m nd (le_word b)) (\<lambda>res. case res of
         Inl e \<Rightarrow> returnK e
       | Inr acc \<Rightarrow> bindK (get_dev nd) (\<lambda>d.
           bindK (if dummy d then fo_complete acc skb else fo_execute acc skb) (\<lambda>rv.
             thenK (if rv = - 1 \<and> unat (nlmsg_type m) = MSGT_FO_OPEN then fo_acc_destroy acc else returnK ())
             (thenK (ndmgm_put nd) (returnK rv)))))))))"

section \<open>A reply reaches its request\<close>

text \<open>The request \<open>req\<close> waits at the head of the queue of \<open>acc\<close>, with the caller's
  argument structure (\<open>n\<close> bytes) and, if the reply carries data, a buffer for it.\<close>

definition waiting :: "kst \<Rightarrow> addr \<Rightarrow> fo_access \<Rightarrow> addr \<Rightarrow> fo_req \<Rightarrow> addr list \<Rightarrow> byte list \<Rightarrow> byte list \<Rightarrow> bool" where
  "waiting s acc a req r rest b c \<longleftrightarrow> heap_ok s \<and> heap s acc = Some (OAcc a) \<and> acc_sem a = sem_free \<and>
     fo_queue a = req # rest \<and> pending_ok s (req # rest) \<and> heap s req = Some (OReq r) \<and>
     0 < args r \<and> heap s (args r) = Some (OBuf b) \<and>
     (c \<noteq> [] \<longrightarrow> 0 < data r \<and> data r \<noteq> args r \<and> heap s (data r) = Some (OBuf c))"

definition completed :: "kst \<Rightarrow> addr \<Rightarrow> fo_access \<Rightarrow> addr \<Rightarrow> fo_req \<Rightarrow> addr list \<Rightarrow> byte list \<Rightarrow> i32 \<Rightarrow> i32 \<Rightarrow> byte list \<Rightarrow> byte list \<Rightarrow> addr \<Rightarrow> kst" where
  "completed s acc a req r rest c aid rv ab xb skb = s\<lparr>heap :=
     (let h = (heap s)(acc \<mapsto> OAcc (a\<lparr>fo_queue := rest\<rparr>), req \<mapsto> OReq (reply_req r aid rv ab xb), args r \<mapsto> OBuf ab);
          h' = (if xb = [] then h else h(data r \<mapsto> OBuf (xb @ drop (length xb) c)))
      in h'(req \<mapsto> OReq ((reply_req r aid rv ab xb)\<lparr>comp_done := True\<rparr>), skb := None)),
     trace := trace s @ [Completed req]\<rparr>"

lemma complete_free_run:
  assumes "0 < req" "0 < skb" "heap s req = Some (OReq r)" "heap s skb = Some x" "skb \<noteq> req"
  shows "thenK (complete_req req) (thenK (kfree skb) (returnK y)) s = Inr (y, s\<lparr>heap := (heap s)
    (req \<mapsto> OReq (r\<lparr>comp_done := True\<rparr>), skb := None), trace := trace s @ [Completed req]\<rparr>)"
  using assms(1,2) by (simp add: complete_req_def kflow assms(3-5))

lemma complete_run:
  assumes w: "waiting s acc a req r rest b c" and sq: "seq r = scast (nlmsg_seq m)"
    and m: "heap s skb = Some (OSkb m)" "payload m = fo_wire aid rv ab xb @ pad"
    and len: "length b = length ab" "ab \<noteq> []" "length xb \<le> length c" "24 + length ab + length xb < MSG_MAX"
  shows "fo_complete acc skb s = Inr (0, completed s acc a req r rest c aid rv ab xb skb)"
proof -
  have ok: "heap_ok s" "heap s acc = Some (OAcc a)" "heap s req = Some (OReq r)" "heap s (args r) = Some (OBuf b)"
    "0 < args r" using w by (simp_all add: waiting_def)
  have dat: "xb \<noteq> [] \<Longrightarrow> 0 < data r \<and> data r \<noteq> args r \<and> heap s (data r) = Some (OBuf c)"
    using w len(3) by (auto simp: waiting_def)
  have pos: "0 < acc" "0 < req" "0 < skb" using ok m(1) heap_ok_pos by auto
  have ne: "req \<noteq> acc" "acc \<noteq> req" "args r \<noteq> acc" "args r \<noteq> req" "req \<noteq> args r" "skb \<noteq> acc" "skb \<noteq> req" "skb \<noteq> args r"
    "xb \<noteq> [] \<Longrightarrow> data r \<noteq> acc" "xb \<noteq> [] \<Longrightarrow> data r \<noteq> req" "xb \<noteq> [] \<Longrightarrow> data r \<noteq> skb"
    using ok m(1) dat by auto
  let ?s1 = "s\<lparr>heap := (heap s)(acc \<mapsto> OAcc (a\<lparr>fo_queue := rest\<rparr>))\<rparr>"
  have find: "fo_acc_foreq_find acc (nlmsg_seq m) s = Inr (req, ?s1)"
  proof -
    have "req_at s req = r" using ok(3) by (simp add: req_at_def)
    then show ?thesis
      using foreq_find_run[OF pos(1) ok(2), of "nlmsg_seq m"] w sq by (simp add: waiting_def with_queue_def)
  qed
  let ?h = "(heap s)(acc \<mapsto> OAcc (a\<lparr>fo_queue := rest\<rparr>), req \<mapsto> OReq (reply_req r aid rv ab xb), args r \<mapsto> OBuf ab)"
  let ?h' = "if xb = [] then ?h else ?h(data r \<mapsto> OBuf (xb @ drop (length xb) c))"
  have deser: "fo_deserialize_toreq req (payload m) ?s1 = Inr (True, s\<lparr>heap := ?h'\<rparr>)"
  proof -
    have "fo_deserialize_toreq req (payload m) ?s1 = Inr (True, ?s1\<lparr>heap :=
      (let h = (heap ?s1)(req \<mapsto> OReq (reply_req r aid rv ab xb), args r \<mapsto> OBuf ab) in
       if xb = [] then h else h(data r \<mapsto> OBuf (xb @ drop (length xb) c)))\<rparr>)"
      using pos(2) ok(5) len by (intro toreq_run[where r = r and b = b and c = c, OF _ _ _ _ _ _ _ _ m(2)]) (simp_all add: ok ne dat)
    then show ?thesis by (simp add: Let_def)
  qed
  have at: "?h' req = Some (OReq (reply_req r aid rv ab xb))" "?h' skb = Some (OSkb m)"
    using ne m(1) dat by auto
  have fin: "thenK (complete_req req) (thenK (kfree skb) (returnK 0)) (s\<lparr>heap := ?h'\<rparr>) =
      Inr (0 :: i32, s\<lparr>heap := ?h'(req \<mapsto> OReq ((reply_req r aid rv ab xb)\<lparr>comp_done := True\<rparr>), skb := None),
        trace := trace s @ [Completed req]\<rparr>)"
    by (subst complete_free_run[where r = "reply_req r aid rv ab xb" and x = "OSkb m"])
      (use at pos ne(7) in \<open>simp_all del: fun_upd_apply\<close>)
  show ?thesis
    using pos by (simp add: fo_complete_def bindK_Inr[where m = "get_skb skb"] m(1)
        bindK_Inr[where m = "fo_acc_foreq_find acc (nlmsg_seq m)"] find
        bindK_Inr[where m = "fo_deserialize_toreq req (payload m)"] deser fin completed_def Let_def del: fun_upd_apply)
qed

section \<open>An operation is answered\<close>

text \<open>An operation was executed: the request holds its result, the message it came in is still there.\<close>

definition executed :: "kst \<Rightarrow> addr \<Rightarrow> fo_access \<Rightarrow> netdev_data \<Rightarrow> addr \<Rightarrow> fo_req \<Rightarrow> byte list \<Rightarrow> byte list \<Rightarrow> addr \<Rightarrow> nlmsg \<Rightarrow> bool" where
  "executed t acc ac d q r a x skb m \<longleftrightarrow> heap_ok t \<and> heap t acc = Some (OAcc ac) \<and> heap t (nddata ac) = Some (ODev d) \<and>
     \<not> nllock d \<and> heap t (queue_pool d) = Some OPool \<and> heap t q = Some (OReq r) \<and> req_bytes t r a x \<and> args r \<noteq> data r \<and>
     (x = [] \<longrightarrow> data r = NULL) \<and> heap t skb = Some (OSkb m)"

lemma executed_objs:
  assumes "executed t acc ac d q r a x skb m"
  shows "heap t acc = Some (OAcc ac)" "heap t (nddata ac) = Some (ODev d)" "heap t (queue_pool d) = Some OPool"
    "heap t q = Some (OReq r)" "heap t (args r) = Some (OBuf a)" "heap t skb = Some (OSkb m)"
    "x \<noteq> [] \<Longrightarrow> heap t (data r) = Some (OBuf x)" "x = [] \<Longrightarrow> data r = 0" "\<not> nllock d"
    "heap_ok t" "heap t 0 = None"
  using assms by (simp_all add: executed_def req_bytes_def)

lemma executed_pos:
  assumes "executed t acc ac d q r a x skb m"
  shows "0 < acc" "0 < nddata ac" "0 < queue_pool d" "0 < q" "0 < args r" "0 < skb"
  by (rule executed_objs(1-6)[OF assms, THEN heap_ok_pos[OF executed_objs(10)[OF assms]]])+

text \<open>Distinct objects sit at distinct addresses.\<close>

lemma heap_neq: "heap s p = Some v \<Longrightarrow> heap s q = Some w \<Longrightarrow> v \<noteq> w \<Longrightarrow> p \<noteq> q"
  by auto

lemma executed_ne:
  assumes "executed t acc ac d q r a x skb m"
  shows "acc \<noteq> skb" "acc \<noteq> args r" "acc \<noteq> data r" "acc \<noteq> q" "nddata ac \<noteq> skb" "nddata ac \<noteq> args r" "nddata ac \<noteq> data r"
    "nddata ac \<noteq> q" "queue_pool d \<noteq> skb" "queue_pool d \<noteq> args r" "queue_pool d \<noteq> data r" "queue_pool d \<noteq> q"
    "q \<noteq> skb" "q \<noteq> args r" "q \<noteq> data r" "args r \<noteq> skb" "data r \<noteq> skb" "args r \<noteq> data r"
proof -
  note o = executed_objs[OF assms]
  have d: "heap t (data r) = (if x = [] then None else Some (OBuf x))"
    using o(7,8,11) by (cases "x = []") simp_all
  have d': "heap t (data r) \<noteq> Some v" if "\<And>b. v \<noteq> OBuf b" for v
    using d that by (cases "x = []") auto
  show "acc \<noteq> skb" by (rule heap_neq[OF o(1) o(6)]) simp
  show "acc \<noteq> args r" by (rule heap_neq[OF o(1) o(5)]) simp
  show "acc \<noteq> q" by (rule heap_neq[OF o(1) o(4)]) simp
  show "nddata ac \<noteq> skb" by (rule heap_neq[OF o(2) o(6)]) simp
  show "nddata ac \<noteq> args r" by (rule heap_neq[OF o(2) o(5)]) simp
  show "nddata ac \<noteq> q" by (rule heap_neq[OF o(2) o(4)]) simp
  show "queue_pool d \<noteq> skb" by (rule heap_neq[OF o(3) o(6)]) simp
  show "queue_pool d \<noteq> args r" by (rule heap_neq[OF o(3) o(5)]) simp
  show "queue_pool d \<noteq> q" by (rule heap_neq[OF o(3) o(4)]) simp
  show "q \<noteq> skb" by (rule heap_neq[OF o(4) o(6)]) simp
  show "q \<noteq> args r" by (rule heap_neq[OF o(4) o(5)]) simp
  show "args r \<noteq> skb" by (rule heap_neq[OF o(5) o(6)]) simp
  show "args r \<noteq> data r" using assms by (simp add: executed_def)
  show "acc \<noteq> data r" using d'[of "OAcc ac"] o(1) by auto
  show "nddata ac \<noteq> data r" using d'[of "ODev d"] o(2) by auto
  show "queue_pool d \<noteq> data r" using d'[of OPool] o(3) by auto
  show "q \<noteq> data r" using d'[of "OReq r"] o(4) by auto
  show "data r \<noteq> skb" using d'[of "OSkb m"] o(6) by auto
qed

text \<open>What the label \<open>err\<close> releases.\<close>

definition answered_heap :: "kst \<Rightarrow> fo_req \<Rightarrow> addr \<Rightarrow> addr \<Rightarrow> addr \<Rightarrow> obj option" where
  "answered_heap t r q skb = (heap t)(skb := None, args r := None, data r := None, q := None)"

lemma execute_err_run:
  assumes e: "executed t acc ac d q r a x skb m" and mt: "mt \<noteq> MSGT_FO_RELEASE"
    and buff: "buff = 0 \<or> (\<exists>b. heap t buff = Some (OBuf b))" "buff \<noteq> args r" "buff = 0 \<or> buff \<noteq> data r"
  shows "fo_execute_err mt acc skb buff q rv t = Inr (rv, t\<lparr>heap := (answered_heap t r q skb)(buff := None),
    tick := Suc (tick t), trace := trace t @ delivered (ext_ret t (tick t)) (nlpid d) m\<rparr>)"
proof -
  note o = executed_objs[OF e] and p = executed_pos[OF e] and n = executed_ne[OF e]
  let ?k = "Suc (tick t)" and ?e = "trace t @ delivered (ext_ret t (tick t)) (nlpid d) m"
  let ?s = "\<lambda>h. t\<lparr>heap := h, tick := ?k, trace := ?e\<rparr>"
  have send: "netlink_send_skb (nddata ac) skb t = Inr (send_result (ext_ret t (tick t)), ?s ((heap t)(skb := None)))"
    using o p by (intro send_skb_run) simp_all
  have data: "kfree (data r) (?s ((heap t)(skb := None, args r := None))) = Inr ((), ?s ((heap t)(skb := None, args r := None, data r := None)))"
  proof (cases "x = []")
    case True
    then have "data r = 0" by (rule o(8))
    then show ?thesis using o(11) p by (simp add: fun_upd_idem)
  next
    case False
    then have "heap t (data r) = Some (OBuf x)" by (rule o(7))
    moreover from this have "0 < data r" by (rule heap_ok_pos[OF o(10)])
    ultimately show ?thesis using n(17,18) by simp
  qed
  have buf: "kfree buff (?s (answered_heap t r q skb)) = Inr ((), ?s ((answered_heap t r q skb)(buff := None)))"
  proof (cases "buff = 0")
    case True
    then show ?thesis using o(11) p by (simp add: answered_heap_def fun_upd_idem)
  next
    case False
    with buff obtain b where b: "heap t buff = Some (OBuf b)" by blast
    then have "buff \<noteq> skb" "buff \<noteq> q" using o(4,6) by auto
    then show ?thesis using False b buff by (simp add: answered_heap_def)
  qed
  note n' = not_sym[OF n(13)] not_sym[OF n(14)] not_sym[OF n(15)]
  have frees: "kfree (args r) (?s ((heap t)(skb := None))) = Inr ((), ?s ((heap t)(skb := None, args r := None)))"
    using p(5) n(16) o(5) by simp
  have req: "get_req q (?s ((heap t)(skb := None))) = Inr (r, ?s ((heap t)(skb := None)))"
    using p(4) n(13) o(4) by simp
  have dev: "get_dev (nddata ac) (?s ((heap t)(skb := None, args r := None, data r := None))) =
      Inr (d, ?s ((heap t)(skb := None, args r := None, data r := None)))"
    using p(2) n(5-7) o(2) by simp
  have pool: "kmem_cache_free (queue_pool d) q (?s ((heap t)(skb := None, args r := None, data r := None))) =
      Inr ((), ?s (answered_heap t r q skb))"
    using p(3,4) n(9-11,13-15) o(3,4) by (simp add: kmem_cache_free_def thenK_def bindK_def answered_heap_def)
  show ?thesis
    using p(1) o(1) mt
    by (simp add: fo_execute_err_def bindK_Inr[where m = "get_acc acc"] thenK_Inr send bindK_Inr[where m = "get_req q"] req frees
        data bindK_Inr[where m = "get_dev (nddata ac)"] dev pool buf returnK_def del: fun_upd_apply)
qed

lemma heap_ok_grow:
  assumes "heap_ok t" "next_addr t \<le> next_addr t'"
    and "\<And>p. heap t' p \<noteq> None \<Longrightarrow> heap t p \<noteq> None \<or> next_addr t \<le> p \<and> p < next_addr t'"
  shows "heap_ok t'"
  unfolding heap_ok_def
proof (intro conjI allI impI)
  have "0 < next_addr t" using assms(1) by (simp add: heap_ok_def)
  then show "0 < next_addr t'" using assms(2) by simp
  fix p assume "heap t' p \<noteq> None"
  then have "heap t p \<noteq> None \<or> next_addr t \<le> p \<and> p < next_addr t'" by (rule assms(3))
  then show "0 < p" "p < next_addr t'"
    using assms(1,2) \<open>0 < next_addr t\<close> by (auto simp: heap_ok_def dest: spec[of _ p])
qed

lemma executed_cong:
  assumes e: "executed t acc ac d q r a x skb m" and "heap_ok t'"
    and "heap t' acc = heap t acc" "heap t' (nddata ac) = heap t (nddata ac)" "heap t' (queue_pool d) = heap t (queue_pool d)"
    and "heap t' q = heap t q" "heap t' (args r) = heap t (args r)" "x \<noteq> [] \<Longrightarrow> heap t' (data r) = heap t (data r)"
    and "heap t' skb' = Some (OSkb m')"
  shows "executed t' acc ac d q r a x skb' m'"
  using assms by (simp add: executed_def req_bytes_def)

text \<open>A well-formed message, and the message its answer becomes: the same with the new payload, or,
  when the size changed, a new one with the same type and number.\<close>

definition msg_ok :: "nlmsg \<Rightarrow> bool" where
  "msg_ok m \<longleftrightarrow> nlmsg_len m = of_nat (16 + length (payload m)) \<and> length (payload m) < 2147483632" \<comment> \<open>\<open>2 ^ 31 - 16\<close>\<close>

definition reply_msg :: "nlmsg \<Rightarrow> byte list \<Rightarrow> nlmsg" where
  "reply_msg m w = (if length w = length (payload m) then m\<lparr>payload := w\<rparr>
     else \<lparr>nlmsg_len = of_nat (16 + length w), nlmsg_type = nlmsg_type m, nlmsg_flags = ucast NLM_F_ACK,
       nlmsg_seq = nlmsg_seq m, nlmsg_pid = nlmsg_pid m, payload = w\<rparr>)"

lemma payload_len_ok: "msg_ok m \<Longrightarrow> nlmsg_payload_len m = of_nat (length (payload m))"
proof -
  assume m: "msg_ok m"
  let ?n = "length (payload m)"
  have "nlmsg_len m - of_nat NLMSG_HDRLEN = (of_nat ?n :: i32)" using m by (simp add: msg_ok_def NLMSG_HDRLEN_def)
  moreover have "scast (of_nat ?n :: i32) = (of_nat ?n :: i64)"
  proof -
    have "sint (of_nat ?n :: i32) = int ?n" using m by (simp add: msg_ok_def signed_of_nat signed_take_bit_int_eq_self)
    then show ?thesis by (simp add: scast_eq)
  qed
  ultimately show ?thesis by (simp add: nlmsg_payload_len_def)
qed

lemma space_total: "unat n < 2147483632 \<Longrightarrow> unat (NLMSG_SPACE n) = nlmsg_total_size n"
proof -
  assume n: "unat n < 2147483632"
  then have "NLMSG_ALIGN (NLMSG_HDRLEN + unat n) < 4294967296"
    unfolding NLMSG_ALIGN_def NLMSG_HDRLEN_def by linarith
  then show ?thesis
    using n by (simp add: NLMSG_SPACE_def nlmsg_total_size_def int_size_small unsigned_of_nat take_bit_nat_eq_self)
qed

definition packed :: "nlmsg \<Rightarrow> byte list \<Rightarrow> nlmsg" where
  "packed m w = \<lparr>nlmsg_len = of_nat (16 + length w), nlmsg_type = nlmsg_type m, nlmsg_flags = ucast NLM_F_ACK,
       nlmsg_seq = nlmsg_seq m, nlmsg_pid = nlmsg_pid m, payload = w\<rparr>"

lemma reply_msg_packed: "length w \<noteq> length (payload m) \<Longrightarrow> reply_msg m w = packed m w"
  by (simp add: reply_msg_def packed_def)

lemma pack_run:
  assumes "0 < old" "heap s old = Some (OSkb m)" "0 < next_addr s" "heap s (next_addr s) = None" "can_alloc s"
    and "length b = unat n" "unat n < 2147483632"
  shows "netlink_pack_skb old b n s = Inr (next_addr s, s\<lparr>heap := (heap s)(old \<mapsto> OSkb (m\<lparr>nlmsg_len := NLMSG_SPACE n\<rparr>),
      next_addr s \<mapsto> OSkb (packed m b)), next_addr := Suc (next_addr s), tick := Suc (tick s)\<rparr>)"
proof -
  have ne: "old \<noteq> next_addr s" using assms(2,4) by auto
  let ?m = "m\<lparr>nlmsg_len := NLMSG_SPACE n\<rparr>" and ?q = "next_addr s"
  let ?s = "\<lambda>x. s\<lparr>heap := (heap s)(old \<mapsto> OSkb ?m, ?q \<mapsto> OSkb x), next_addr := Suc ?q, tick := Suc (tick s)\<rparr>"
  have "mod_skb old (\<lambda>m. m\<lparr>nlmsg_len := NLMSG_SPACE n\<rparr>) s = Inr ((), s\<lparr>heap := (heap s)(old \<mapsto> OSkb ?m)\<rparr>)"
    using assms(1) by (simp add: assms(2))
  moreover have "kalloc (OSkb empty_msg) (s\<lparr>heap := (heap s)(old \<mapsto> OSkb ?m)\<rparr>) = Inr (?q, ?s empty_msg)"
    using assms(5) by (simp add: kalloc_def can_alloc_def)
  moreover have "get_skb old (?s empty_msg) = Inr (?m, ?s empty_msg)" using assms(1) ne by simp
  moreover have "nlmsg_put (unat (nlmsg_len ?m)) (nlmsg_pid ?m) (nlmsg_seq ?m) (nlmsg_type ?m) n NLM_F_ACK =
      Some ((packed m b)\<lparr>payload := replicate (unat n) 0\<rparr>)"
    using assms(6,7) by (simp add: nlmsg_put_def space_total int_size_small packed_def NLMSG_HDRLEN_def)
  moreover have "mod_skb ?q (\<lambda>_. (packed m b)\<lparr>payload := replicate (unat n) 0\<rparr>) (?s empty_msg) =
      Inr ((), ?s ((packed m b)\<lparr>payload := replicate (unat n) 0\<rparr>))"
    using assms(3) by simp
  moreover have "read_bytes b 0 (unat n) t = Inr (b, t)" for t
    using assms(6) by (simp add: read_bytes_def returnK_def)
  moreover have "mod_skb ?q (\<lambda>m. m\<lparr>payload := poke 0 b (payload m)\<rparr>) (?s ((packed m b)\<lparr>payload := replicate (unat n) 0\<rparr>)) =
      Inr ((), ?s (packed m b))"
    using assms(3,6) by (simp add: poke_whole packed_def)
  ultimately show ?thesis
    using assms(3) by (simp add: netlink_pack_skb_def thenK_Inr bindK_Inr returnK_def del: fun_upd_apply)
qed

text \<open>The reply's bytes are in memory.\<close>

definition serialised :: "kst \<Rightarrow> byte list \<Rightarrow> kst" where
  "serialised t w = t\<lparr>heap := (heap t)(next_addr t \<mapsto> OBuf w), next_addr := Suc (next_addr t), tick := Suc (tick t)\<rparr>"

abbreviation reply_bytes :: "fo_req \<Rightarrow> byte list \<Rightarrow> byte list \<Rightarrow> byte list" where
  "reply_bytes r a x \<equiv> fo_wire (req_access_id r) (rvalue r) a x"

lemma executed_new:
  assumes "executed t acc ac d q r a x skb m"
  shows "acc < next_addr t" "nddata ac < next_addr t" "queue_pool d < next_addr t" "q < next_addr t" "args r < next_addr t"
    "skb < next_addr t" "data r < next_addr t" "0 < next_addr t" "heap t (next_addr t) = None" "heap t (Suc (next_addr t)) = None"
proof -
  note o = executed_objs[OF assms]
  show n: "0 < next_addr t" "heap t (next_addr t) = None" "heap t (Suc (next_addr t)) = None" by (rule fresh_heap[OF o(10)])+
  show "acc < next_addr t" "nddata ac < next_addr t" "queue_pool d < next_addr t" "q < next_addr t" "args r < next_addr t"
    "skb < next_addr t" by (rule o(1-6)[THEN heap_ok_less[OF o(10)]])+
  show "data r < next_addr t" using o(8) n(1) heap_ok_less[OF o(10) o(7)] by (cases "x = []") simp_all
qed

lemma reply_start_run:
  assumes e: "executed t acc ac d q r a x skb m" and m: "msg_ok m" and can: "can_alloc t"
    and small: "24 + length a + length x < 2147483632" and w: "w = reply_bytes r a x"
  shows "fo_execute_reply mt acc skb q t =
    (if length w = length (payload m) then thenK (write_payload skb w) (fo_execute_err mt acc skb (next_addr t) q 0)
     else bindK (netlink_pack_skb skb w (of_nat (length w)))
       (\<lambda>skbtmp. thenK (kfree skb) (fo_execute_err mt acc skbtmp (next_addr t) q 0))) (serialised t w)"
proof -
  note o = executed_objs[OF e] and p = executed_pos[OF e] and n = executed_new[OF e]
  let ?b = "next_addr t" and ?nn = "of_nat (length w) :: i64"
  have lw: "length w = 24 + length a + length x" by (simp add: w)
  have big: "24 + length a + length x < MSG_MAX" using small by (simp add: MSG_MAX_def)
  have ser: "fo_serialize q t = Inr ((?b, ?nn), serialised t w)"
    unfolding lw unfolding serialised_def w using e by (intro serialize_run[OF o(10,4) _ big can]) (simp add: executed_def)
  have msg: "get_skb skb (serialised t w) = Inr (m, serialised t w)" using p(6) n(6) o(6) by (simp add: serialised_def)
  have buf: "get_buf ?b (serialised t w) = Inr (w, serialised t w)" using n(8) by (simp add: serialised_def)
  have "length (payload m) < MSG_MAX" using m by (simp add: msg_ok_def MSG_MAX_def)
  then have "unat (nlmsg_payload_len m) = length (payload m)" by (simp add: payload_len_ok[OF m] unat_of_small del: unat_of_nat)
  moreover have "unat ?nn = length w" unfolding lw by (rule unat_of_small[OF big])
  ultimately have same: "?nn = nlmsg_payload_len m \<longleftrightarrow> length w = length (payload m)"
    by (metis of_unat payload_len_ok[OF m])
  show ?thesis
    using n(8) by (simp add: fo_execute_reply_def bindK_Inr[where m = "fo_serialize q"] ser
        bindK_Inr[where m = "get_skb skb"] msg bindK_Inr[where m = "get_buf ?b"] buf same del: fun_upd_apply)
qed

lemma serialised_ok: "heap_ok t \<Longrightarrow> heap_ok (serialised t w)"
  by (rule heap_ok_grow) (auto simp: serialised_def split: if_splits)

text \<open>The size is the same: the message itself is sent back.\<close>

lemma reply_in_place_run:
  assumes e: "executed t acc ac d q r a x skb m" and mt: "mt \<noteq> MSGT_FO_RELEASE" and w: "length w = length (payload m)"
  shows "\<exists>v k. thenK (write_payload skb w) (fo_execute_err mt acc skb (next_addr t) q 0) (serialised t w) = Inr (0, v) \<and>
    heap v = answered_heap t r q skb \<and> same_globals t v \<and> trace v = trace t @ delivered (ext_ret t k) (nlpid d) (m\<lparr>payload := w\<rparr>)"
proof -
  note o = executed_objs[OF e] and p = executed_pos[OF e] and ne = executed_ne[OF e] and n = executed_new[OF e]
  let ?b = "next_addr t" and ?m = "m\<lparr>payload := w\<rparr>"
  let ?t = "t\<lparr>heap := (heap t)(?b \<mapsto> OBuf w, skb \<mapsto> OSkb ?m), next_addr := Suc ?b, tick := Suc (tick t)\<rparr>"
  have wr: "write_payload skb w (serialised t w) = Inr ((), ?t)"
    using p(6) n(6) o(6) w by (simp add: write_payload_def kflow poke_whole serialised_def)
  have ok: "heap_ok ?t" by (rule heap_ok_grow[OF serialised_ok[OF o(10), of w]]) (use o(6) in \<open>auto simp: serialised_def split: if_splits\<close>)
  have e2: "executed ?t acc ac d q r a x skb ?m" by (rule executed_cong[OF e ok]) (use n ne in simp_all)
  have "fo_execute_err mt acc skb ?b q 0 ?t = Inr (0, ?t\<lparr>heap := (answered_heap ?t r q skb)(?b := None),
      tick := Suc (tick ?t), trace := trace ?t @ delivered (ext_ret ?t (tick ?t)) (nlpid d) ?m\<rparr>)"
    by (rule execute_err_run[OF e2 mt]) (use n in auto)
  moreover have "(answered_heap ?t r q skb)(?b := None) = answered_heap t r q skb"
    using n(9) by (auto simp: answered_heap_def fun_eq_iff)
  ultimately show ?thesis
    by (auto simp: thenK_Inr[where m = "write_payload skb w", OF wr] same_globals_def simp del: fun_upd_apply)
qed

text \<open>The size is another: a new message is made, with the header of the old one.\<close>

lemma reply_packed_run:
  assumes e: "executed t acc ac d q r a x skb m" and mt: "mt \<noteq> MSGT_FO_RELEASE"
    and can: "alloc_ok t (Suc (tick t))" "Suc (next_addr t) < ADDR_LIMIT" "length w < 2147483632"
  shows "\<exists>v k. bindK (netlink_pack_skb skb w (of_nat (length w)))
      (\<lambda>skbtmp. thenK (kfree skb) (fo_execute_err mt acc skbtmp (next_addr t) q 0)) (serialised t w) = Inr (0, v) \<and>
    heap v = answered_heap t r q skb \<and> same_globals t v \<and> trace v = trace t @ delivered (ext_ret t k) (nlpid d) (packed m w)"
proof -
  note o = executed_objs[OF e] and p = executed_pos[OF e] and ne = executed_ne[OF e] and n = executed_new[OF e]
  let ?b = "next_addr t" and ?m = "packed m w" and ?nn = "of_nat (length w) :: i64"
  let ?k = "Suc (next_addr t)"
  let ?t2 = "t\<lparr>heap := (heap t)(?b \<mapsto> OBuf w, skb \<mapsto> OSkb (m\<lparr>nlmsg_len := NLMSG_SPACE ?nn\<rparr>), ?k \<mapsto> OSkb ?m), next_addr := Suc ?k,
    tick := Suc (Suc (tick t))\<rparr>"
  let ?t3 = "t\<lparr>heap := (heap t)(?b \<mapsto> OBuf w, skb := None, ?k \<mapsto> OSkb ?m), next_addr := Suc ?k, tick := Suc (Suc (tick t))\<rparr>"
  have nn: "unat ?nn = length w" using can(3) by (intro unat_of_small) (simp add: MSG_MAX_def)
  have pk: "netlink_pack_skb skb w ?nn (serialised t w) = Inr (?k, ?t2)"
    using p(6) n o(6) can nn by (subst pack_run[where m = m]) (simp_all add: can_alloc_def serialised_def)
  have fr: "kfree skb ?t2 = Inr ((), ?t3)" using p(6) n(6) by (simp add: fun_upd_twist[of "?k" skb])
  have ok: "heap_ok ?t3" by (rule heap_ok_grow[OF serialised_ok[OF o(10), of w]]) (auto simp: serialised_def split: if_splits)
  have e3: "executed ?t3 acc ac d q r a x ?k ?m" by (rule executed_cong[OF e ok]) (use n ne in simp_all)
  have "fo_execute_err mt acc ?k ?b q 0 ?t3 = Inr (0, ?t3\<lparr>heap := (answered_heap ?t3 r q ?k)(?b := None),
      tick := Suc (tick ?t3), trace := trace ?t3 @ delivered (ext_ret ?t3 (tick ?t3)) (nlpid d) ?m\<rparr>)"
    by (rule execute_err_run[OF e3 mt]) (use n in auto)
  moreover have "(answered_heap ?t3 r q ?k)(?b := None) = answered_heap t r q skb"
    using n(9,10) by (auto simp: answered_heap_def fun_eq_iff)
  ultimately show ?thesis
    by (auto simp: bindK_Inr[where m = "netlink_pack_skb skb w ?nn", OF pk] thenK_Inr[where m = "kfree skb", OF fr] same_globals_def
        simp del: fun_upd_apply)
qed

text \<open>What \<open>fo_execute_reply\<close> leaves: the reply sent, everything the operation used released.\<close>

lemma execute_reply_run:
  assumes e: "executed t acc ac d q r a x skb m" and m: "msg_ok m" and mt: "mt \<noteq> MSGT_FO_RELEASE"
    and can: "can_alloc t" "alloc_ok t (Suc (tick t))" "Suc (next_addr t) < ADDR_LIMIT"
    and small: "24 + length a + length x < 2147483632"
  shows "\<exists>v k. fo_execute_reply mt acc skb q t = Inr (0, v) \<and> heap v = answered_heap t r q skb \<and> same_globals t v \<and>
    trace v = trace t @ delivered (ext_ret t k) (nlpid d) (reply_msg m (reply_bytes r a x))"
proof (cases "length (reply_bytes r a x) = length (payload m)")
  case True
  with reply_in_place_run[OF e mt True] show ?thesis
    by (simp add: reply_start_run[OF e m can(1) small refl] reply_msg_def)
next
  case False
  have "length (reply_bytes r a x) < 2147483632" using small by simp
  from reply_packed_run[OF e mt can(2,3) this] False show ?thesis
    by (simp add: reply_start_run[OF e m can(1) small refl] reply_msg_packed del: fo_wire_len)
qed

section \<open>Executing a whole message\<close>

definition mem_avail :: "kst \<Rightarrow> nat \<Rightarrow> bool" where
  "mem_avail s n \<longleftrightarrow> (\<forall>i<n. alloc_ok s (tick s + i)) \<and> next_addr s + n < ADDR_LIMIT"

lemma mem_availD: "mem_avail s n \<Longrightarrow> i < n \<Longrightarrow> alloc_ok s (tick s + i) \<and> next_addr s + i < ADDR_LIMIT"
  by (simp add: mem_avail_def)

lemma mem_avail8:
  assumes "mem_avail s 8"
  shows "alloc_ok s (tick s)" "alloc_ok s (Suc (tick s))" "alloc_ok s (Suc (Suc (tick s)))" "alloc_ok s (Suc (Suc (Suc (tick s))))"
    "alloc_ok s (Suc (Suc (Suc (Suc (tick s)))))" "alloc_ok s (Suc (Suc (Suc (Suc (Suc (tick s))))))"
    "alloc_ok s (Suc (Suc (Suc (Suc (Suc (Suc (tick s)))))))"
    "alloc3 s" "can_alloc s" "Suc (Suc (Suc (Suc (Suc (Suc (Suc (next_addr s))))))) < ADDR_LIMIT"
  using mem_availD[OF assms, of 0] mem_availD[OF assms, of 1] mem_availD[OF assms, of 2] mem_availD[OF assms, of 3]
    mem_availD[OF assms, of 4] mem_availD[OF assms, of 5] mem_availD[OF assms, of 6] mem_availD[OF assms, of 7]
  by (simp_all add: alloc3_def can_alloc_def numeral_eq_Suc)

text \<open>A message for an open file of a served device.\<close>

definition arrived :: "kst \<Rightarrow> addr \<Rightarrow> fo_access \<Rightarrow> netdev_data \<Rightarrow> addr \<Rightarrow> nlmsg \<Rightarrow> bool" where
  "arrived s acc ac d skb m \<longleftrightarrow> heap_ok s \<and> heap s acc = Some (OAcc ac) \<and> heap s (nddata ac) = Some (ODev d) \<and> \<not> nllock d \<and>
     heap s (queue_pool d) = Some OPool \<and> heap s skb = Some (OSkb m) \<and> msg_ok m"

lemma arrivedD:
  assumes "arrived s acc ac d skb m"
  shows "heap_ok s" "heap s acc = Some (OAcc ac)" "heap s (nddata ac) = Some (ODev d)" "\<not> nllock d"
    "heap s (queue_pool d) = Some OPool" "heap s skb = Some (OSkb m)" "msg_ok m"
  using assms by (simp_all add: arrived_def)

lemma execute_op_run:
  assumes arr: "arrived s acc ac d skb m" and mem: "alloc3 s"
    and pay: "payload m = fo_wire aid rv a x @ pad" "a \<noteq> []" "24 + length a + length x < MSG_MAX"
    and mt: "mt = unat (nlmsg_type m)" "MSGT_FO_START < mt" "mt < MSGT_FO_END" "mt \<noteq> MSGT_FO_RELEASE"
    and op: "netdev_recv_fops ! (mt - (MSGT_FO_START + 1)) = Some fofun"
      "fofun acc (next_addr s) (received s aid rv a x) = Inr (0, t)" "heap t (next_addr s) = Some (OReq r)"
    and e: "executed (t\<lparr>heap := (heap t)(next_addr s \<mapsto> OReq (r\<lparr>rvalue := 0\<rparr>))\<rparr>) acc ac d (next_addr s) (r\<lparr>rvalue := 0\<rparr>) a' x' skb m"
    and can: "can_alloc t" "alloc_ok t (Suc (tick t))" "Suc (next_addr t) < ADDR_LIMIT"
    and small: "24 + length a' + length x' < 2147483632"
  shows "\<exists>v k. fo_execute acc skb s = Inr (0, v) \<and> heap v = (heap t)(skb := None, args r := None, data r := None, next_addr s := None) \<and>
    same_globals t v \<and>
    trace v = trace t @ delivered (ext_ret t k) (nlpid d) (reply_msg m (fo_wire (req_access_id r) 0 a' x'))"
proof -
  note o = arrivedD[OF arr]
  let ?q = "next_addr s"
  have q: "0 < ?q" by (rule fresh_heap[OF o(1)])
  have skb: "0 < skb" by (rule heap_ok_pos[OF o(1,6)])
  have des: "fo_deserialize acc (payload m) s = Inr (?q, received s aid rv a x)"
    by (rule deserialize_run[OF o(1-3,5) mem pay(2,3,1)])
  let ?t = "t\<lparr>heap := (heap t)(?q \<mapsto> OReq (r\<lparr>rvalue := 0\<rparr>))\<rparr>"
  have set: "mod_req ?q (\<lambda>r. r\<lparr>rvalue := 0\<rparr>) t = Inr ((), ?t)" using q op(3) by simp
  have idx: "\<not> (mt < MSGT_FO_START + 1 \<or> length netdev_recv_fops \<le> mt - (MSGT_FO_START + 1))"
    using mt(2,3) by (simp add: recv_fops_len MSGT_FO_START_def MSGT_FO_END_def)
  have run: "fo_execute acc skb s = fo_execute_reply mt acc skb ?q ?t"
    using skb q idx
    by (simp add: fo_execute_def bindK_Inr[where m = "get_skb skb"] o(6) Let_def mt(1)[symmetric]
        bindK_Inr[where m = "fo_deserialize acc (payload m)"] des op(1)[simplified] bindK_Inr[where m = "fofun acc ?q"] op(2)
        thenK_Inr[where m = "mod_req ?q (\<lambda>r. r\<lparr>rvalue := 0\<rparr>)"] set del: mod_req_of)
  from execute_reply_run[OF e o(7) mt(4) _ _ _ small] can obtain v k where
    v: "fo_execute_reply mt acc skb ?q ?t = Inr (0, v)" "heap v = answered_heap ?t (r\<lparr>rvalue := 0\<rparr>) ?q skb" "same_globals ?t v"
      "trace v = trace t @ delivered (ext_ret t k) (nlpid d) (reply_msg m (fo_wire (req_access_id r) 0 a' x'))"
    by (auto simp: can_alloc_def)
  moreover have "answered_heap ?t (r\<lparr>rvalue := 0\<rparr>) ?q skb = (heap t)(skb := None, args r := None, data r := None, ?q := None)"
    by (auto simp: answered_heap_def fun_eq_iff)
  moreover have "same_globals t v" using v(3) by (simp add: same_globals_def)
  ultimately show ?thesis using run by auto
qed

text \<open>The state in which the operation starts serves it: file, request and arguments are there.\<close>

lemma received_fresh:
  assumes "heap_ok s"
  shows "heap s (next_addr s) = None" "heap s (Suc (next_addr s)) = None" "heap s (Suc (Suc (next_addr s))) = None"
    "heap s (Suc (Suc (Suc (next_addr s)))) = None" "0 < next_addr s"
  by (rule fresh_heap[OF assms])+

lemma received_old:
  assumes "heap_ok s" "heap s p = Some v"
  shows "heap (received s aid rv a x) p = Some v" "p \<noteq> next_addr s" "p \<noteq> Suc (next_addr s)" "p \<noteq> Suc (Suc (next_addr s))"
    "p \<noteq> Suc (Suc (Suc (next_addr s)))"
proof -
  show ne: "p \<noteq> next_addr s" "p \<noteq> Suc (next_addr s)" "p \<noteq> Suc (Suc (next_addr s))" "p \<noteq> Suc (Suc (Suc (next_addr s)))"
    using fresh_heap[OF assms(1)] assms(2) by (metis option.distinct(1))+
  show "heap (received s aid rv a x) p = Some v" using ne assms(2) by (simp add: received_def Let_def)
qed

lemma received_ok: "heap_ok s \<Longrightarrow> heap_ok (received s aid rv a x)"
  by (rule heap_ok_grow) (auto simp: received_def Let_def split: if_splits)

lemma received_served:
  assumes "heap_ok s" "heap s acc = Some (OAcc ac)" "acc_filp ac = FOpen fo"
  shows "served (received s aid rv a x) acc (next_addr s) fo ac (recv_req s aid rv a x) a"
  using received_old(1)[OF assms(1,2)] received_ok[OF assms(1)] assms(3)
  by (simp add: served_def) (simp add: received_def recv_req_def Let_def)

text \<open>The server answers the message in \<open>skb\<close> with the given arguments and data.\<close>

definition answers :: "kst \<Rightarrow> addr \<Rightarrow> addr \<Rightarrow> netdev_data \<Rightarrow> nlmsg \<Rightarrow> i32 \<Rightarrow> byte list \<Rightarrow> byte list \<Rightarrow> bool" where
  "answers s acc skb d m aid a x \<longleftrightarrow> (\<exists>v k. fo_execute acc skb s = Inr (0, v) \<and> heap v = (heap s)(skb := None) \<and>
     same_globals s v \<and> trace v = trace s @ delivered (ext_ret s k) (nlpid d) (reply_msg m (fo_wire aid 0 a x)))"

lemma received_simps:
  "next_addr (received s aid rv a []) = Suc (Suc (next_addr s))" "tick (received s aid rv a []) = Suc (Suc (tick s))"
  "trace (received s aid rv a x) = trace s" "alloc_ok (received s aid rv a x) = alloc_ok s" "ext_ret (received s aid rv a x) = ext_ret s"
  "heap (received s aid rv a []) = (heap s)(next_addr s \<mapsto> OReq (recv_req s aid rv a []), Suc (next_addr s) \<mapsto> OBuf a)"
  "same_globals s (received s aid rv a x)"
  by (simp_all add: received_def Let_def same_globals_def)

lemma recv_req_simps [simp]:
  "args (recv_req s aid rv a x) = Suc (next_addr s)" "data (recv_req s aid rv a []) = 0"
  "req_access_id (recv_req s aid rv a x) = aid" "size (recv_req s aid rv a x) = of_nat (length a)"
  "data_size (recv_req s aid rv a x) = of_nat (length x)" "rvalue (recv_req s aid rv a x) = rv"
  by (simp_all add: recv_req_def with_header_def)

lemma execute_llseek_run:
  assumes arr: "arrived s acc ac d skb m" and mem: "mem_avail s 8"
    and fo: "acc_filp ac = FOpen fo" "fop_llseek fo = Some f" "\<And>k. f k off wh = res"
    and m: "payload m = fo_wire aid rv (s_fo_llseek off wh r0) [] @ pad" "unat (nlmsg_type m) = MSGT_FO_LLSEEK"
  shows "answers s acc skb d m aid (s_fo_llseek off wh res) []"
proof -
  note o = arrivedD[OF arr] and mm = mem_avail8[OF mem]
  let ?a = "s_fo_llseek off wh r0" and ?a' = "s_fo_llseek off wh res" and ?q = "next_addr s"
  let ?R = "received s aid rv ?a []" and ?r = "recv_req s aid rv ?a []"
  note fr = received_fresh[OF o(1)]
  have ne: "acc \<noteq> ?q" "acc \<noteq> Suc ?q" "nddata ac \<noteq> ?q" "nddata ac \<noteq> Suc ?q" "queue_pool d \<noteq> ?q" "queue_pool d \<noteq> Suc ?q"
    "skb \<noteq> ?q" "skb \<noteq> Suc ?q"
    using received_old(2,3)[OF o(1)] o(2,3,5,6) by blast+
  let ?t = "?R\<lparr>heap := (heap ?R)(Suc ?q \<mapsto> OBuf ?a'), tick := Suc (tick ?R)\<rparr>"
  have op: "ndfo_recv_llseek acc ?q ?R = Inr (0, ?t)"
    using recv_llseek_run[OF received_served[OF o(1,2) fo(1)] fo(2)] fo(3) by simp
  let ?t' = "?t\<lparr>heap := (heap ?t)(?q \<mapsto> OReq (?r\<lparr>rvalue := 0\<rparr>))\<rparr>"
  have ok: "heap_ok ?t'"
    by (rule heap_ok_grow[OF received_ok[OF o(1), of aid rv ?a "[]"]]) (use fr(5) in \<open>auto simp: received_simps split: if_splits\<close>)
  have e: "executed ?t' acc ac d ?q (?r\<lparr>rvalue := 0\<rparr>) ?a' [] skb m"
    unfolding executed_def using ok by (simp add: received_simps ne o req_bytes_def)
  have "\<exists>v k. fo_execute acc skb s = Inr (0, v) \<and> heap v = (heap ?t)(skb := None, args ?r := None, data ?r := None, ?q := None) \<and>
    same_globals ?t v \<and>
    trace v = trace ?t @ delivered (ext_ret ?t k) (nlpid d) (reply_msg m (fo_wire (req_access_id ?r) 0 ?a' []))"
  proof (rule execute_op_run[where fofun = ndfo_recv_llseek, OF arr mm(8) m(1) _ _ m(2)[symmetric] _ _ _ _ op _ e])
    show "netdev_recv_fops ! (MSGT_FO_LLSEEK - (MSGT_FO_START + 1)) = Some ndfo_recv_llseek"
      by (simp add: netdev_recv_fops_def MSGT_FO_LLSEEK_def MSGT_FO_START_def)
    show "s_fo_llseek off wh r0 \<noteq> []" using s_fo_lengths(1)[of off wh r0] by fastforce
  qed (use mm in \<open>simp_all add: received_simps can_alloc_def MSG_MAX_def MSGT_FO_LLSEEK_def MSGT_FO_START_def MSGT_FO_END_def
        MSGT_FO_RELEASE_def\<close>)
  moreover have "(heap ?t)(skb := None, args ?r := None, data ?r := None, ?q := None) = (heap s)(skb := None)"
    by (simp add: received_simps fun_eq_iff fr(1,2) heap_ok_null[OF o(1)] ne)
  moreover have "same_globals s v" if "same_globals ?t v" for v
    using that received_simps(7)[of s aid rv ?a "[]"] by (simp add: same_globals_def)
  ultimately show ?thesis unfolding answers_def by (auto simp: received_simps)
qed

lemma execute_read_run:
  assumes arr: "arrived s acc ac d skb m" and mem: "mem_avail s 8"
    and fo: "acc_filp ac = FOpen fo" "fop_read fo = Some f" "\<And>k. f k sz off = (ret, bytes, off')"
      "length bytes \<le> unat sz" "0 < unat sz" "unat sz < NETDEV_MESSAGE_LIMIT"
    and m: "payload m = fo_wire aid rv (s_fo_rw ptr sz off r0) [] @ pad" "unat (nlmsg_type m) = MSGT_FO_READ"
  shows "answers s acc skb d m aid (s_fo_rw ptr sz off' ret) (bytes @ replicate (unat sz - length bytes) 0)"
proof -
  note o = arrivedD[OF arr] and mm = mem_avail8[OF mem]
  let ?a = "s_fo_rw ptr sz off r0" and ?a' = "s_fo_rw ptr sz off' ret" and ?q = "next_addr s"
  define x where "x = bytes @ replicate (unat sz - length bytes) 0"
  have x: "length x = unat sz" "x \<noteq> []" using fo(4,5) by (auto simp: x_def)
  let ?R = "received s aid rv ?a []" and ?r = "recv_req s aid rv ?a []" and ?z = "Suc (Suc (next_addr s))"
  note fr = received_fresh[OF o(1)]
  have ne: "acc \<noteq> ?q" "acc \<noteq> Suc ?q" "acc \<noteq> ?z" "nddata ac \<noteq> ?q" "nddata ac \<noteq> Suc ?q" "nddata ac \<noteq> ?z"
    "queue_pool d \<noteq> ?q" "queue_pool d \<noteq> Suc ?q" "queue_pool d \<noteq> ?z" "skb \<noteq> ?q" "skb \<noteq> Suc ?q" "skb \<noteq> ?z"
    using received_old(2-4)[OF o(1)] o(2,3,5,6) by blast+
  let ?r' = "?r\<lparr>data := ?z, data_size := sz\<rparr>"
  let ?t = "?R\<lparr>heap := (heap ?R)(?q \<mapsto> OReq ?r', ?z \<mapsto> OBuf x, Suc ?q \<mapsto> OBuf ?a'),
    next_addr := Suc ?z, tick := Suc (Suc (tick ?R))\<rparr>"
  have op: "ndfo_recv_read acc ?q ?R = Inr (0, ?t)"
    using recv_read_run[OF received_served[OF o(1,2) fo(1)] fo(2) _ fo(3,4)] mm
    by (simp add: received_simps(1,2,4) can_alloc_def x_def)
  let ?t' = "?t\<lparr>heap := (heap ?t)(?q \<mapsto> OReq (?r'\<lparr>rvalue := 0\<rparr>))\<rparr>"
  have ok: "heap_ok ?t'"
    by (rule heap_ok_grow[OF received_ok[OF o(1), of aid rv ?a "[]"]])
      (use fr(5) in \<open>auto simp: received_simps split: if_splits\<close>)
  have e: "executed ?t' acc ac d ?q (?r'\<lparr>rvalue := 0\<rparr>) ?a' x skb m"
    unfolding executed_def using ok x by (simp add: received_simps ne o req_bytes_def)
  have "\<exists>v k. fo_execute acc skb s = Inr (0, v) \<and> heap v = (heap ?t)(skb := None, args ?r' := None, data ?r' := None, ?q := None) \<and>
    same_globals ?t v \<and>
    trace v = trace ?t @ delivered (ext_ret ?t k) (nlpid d) (reply_msg m (fo_wire (req_access_id ?r') 0 ?a' x))"
  proof (rule execute_op_run[where fofun = ndfo_recv_read, OF arr mm(8) m(1) _ _ m(2)[symmetric] _ _ _ _ op _ e])
    show "netdev_recv_fops ! (MSGT_FO_READ - (MSGT_FO_START + 1)) = Some ndfo_recv_read"
      by (simp add: netdev_recv_fops_def MSGT_FO_READ_def MSGT_FO_START_def)
    show "24 + length (s_fo_rw ptr sz off' ret) + length x < 2147483632"
      using x(1) fo(6) by (simp add: NETDEV_MESSAGE_LIMIT_def)
  qed (use mm in \<open>simp_all add: received_simps can_alloc_def MSG_MAX_def MSGT_FO_READ_def MSGT_FO_START_def MSGT_FO_END_def
        MSGT_FO_RELEASE_def\<close>)
  moreover have "(heap ?t)(skb := None, args ?r' := None, data ?r' := None, ?q := None) = (heap s)(skb := None)"
    by (simp add: received_simps fun_eq_iff fr(1-3) ne)
  moreover have "same_globals s v" if "same_globals ?t v" for v
    using that received_simps(7)[of s aid rv ?a "[]"] by (simp add: same_globals_def)
  ultimately show ?thesis unfolding answers_def x_def[symmetric] by (auto simp: received_simps)
qed

end
