(* ===== verification/Kernel_Message.thy ===== *)
theory Kernel_Message
  imports Fo_Comm
begin

text \<open>
  A message of a daemon on its whole way through the module: the kernel calls \<open>netlink_recv\<close> with
  the buffer that holds it, and for a file operation the thread that was woken runs \<open>fo_recv\<close>,
  which looks the device up by the process id and the open file by the access id, both
  read from the message, and then executes or completes the operation.
\<close>

section \<open>Delivering a message\<close>

text \<open>The threads that a part of the trace has started, each on its copy of a message.\<close>

fun woken :: "kevent list \<Rightarrow> addr list" where
  "woken [] = []"
| "woken (Woken copy # es) = copy # woken es"
| "woken (_ # es) = woken es"

primrec run_threads :: "addr list \<Rightarrow> unit kprog" where
  "run_threads [] = returnK ()"
| "run_threads (copy # copies) = bindK (fo_recv copy) (\<lambda>_. run_threads copies)"

text \<open>
  The kernel puts the message into a buffer, calls \<open>netlink_recv\<close> and releases the buffer; then the
  threads run that were started.  (Before the acknowledgement they could not send: C8.)
\<close>

definition message_in :: "nlmsg \<Rightarrow> unit kprog" where
  "message_in m = bindK (kalloc (OSkb m)) (\<lambda>skb.
     if skb = NULL then returnK ()
     else bindK getK (\<lambda>s. thenK (netlink_recv (\<lambda>_. returnK ()) skb) (thenK (kfree skb)
       (bindK getK (\<lambda>t. run_threads (woken (drop (length (trace s)) (trace t))))))))"

section \<open>What the lookups depend on\<close>

text \<open>Everything a reply thread looks up is found again when only other fields of the objects changed.\<close>

definition same_index :: "kst \<Rightarrow> kst \<Rightarrow> bool" where
  "same_index s t \<longleftrightarrow> hash_min t = hash_min s \<and> netdev_htable t = netdev_htable s \<and> netdev_htable_sem t = netdev_htable_sem s \<and>
     (\<forall>p d. heap s p = Some (ODev d) \<longrightarrow> (\<exists>e. heap t p = Some (ODev e) \<and> nlpid e = nlpid d)) \<and>
     (\<forall>p a. heap s p = Some (OAcc a) \<longrightarrow> (\<exists>b. heap t p = Some (OAcc b) \<and> access_id b = access_id a))"

lemma device_of_same:
  assumes "devs_ok s" "same_index s t"
  shows "devs_ok t" "device_of t = device_of s"
proof -
  have "dev_key t p = dev_key s p" if "p \<in> set (hash_all (netdev_htable s))" for p
    using devs_ok_all[OF assms(1) that] assms(2) by (fastforce simp: dev_key_def same_index_def)
  then have "chains.lookup (hash_min s) (dev_key t) (netdev_htable s) = chains.lookup (hash_min s) (dev_key s) (netdev_htable s)"
    by (intro chains.lookup_cong) blast
  with assms(2) show "device_of t = device_of s" by (simp add: device_of_def same_index_def)
  show "devs_ok t" using assms unfolding devs_ok_def same_index_def by metis
qed

lemma open_files_same:
  assumes "accs_ok s d" "same_index s t" "foacc_htable e = foacc_htable d"
  shows "accs_ok t e" "open_files t e = open_files s d"
proof -
  have "acc_key t p = acc_key s p" if "p \<in> set (hash_all (foacc_htable d))" for p
    using accs_ok_all[OF assms(1) that] assms(2) by (fastforce simp: acc_key_def same_index_def)
  then have "chains.lookup (hash_min s) (acc_key t) (foacc_htable d) = chains.lookup (hash_min s) (acc_key s) (foacc_htable d)"
    by (intro chains.lookup_cong) blast
  with assms(2,3) show "open_files t e = open_files s d" by (simp add: open_files_def same_index_def)
  show "accs_ok t e" using assms unfolding accs_ok_def same_index_def by metis
qed

text \<open>The device of a daemon, not being torn down, and the open file of an access id.\<close>

definition attached :: "kst \<Rightarrow> i32 \<Rightarrow> addr \<Rightarrow> netdev_data \<Rightarrow> i32 \<Rightarrow> addr \<Rightarrow> bool" where
  "attached s pid nd d aid acc \<longleftrightarrow> heap_ok s \<and> devs_ok s \<and> \<not> writer (netdev_htable_sem s) \<and> device_of s pid = Some nd \<and>
     pid \<noteq> - 1 \<and> pid \<noteq> 0 \<and> heap s nd = Some (ODev d) \<and> \<not> nllock d \<and> \<not> writer (nd_sem d) \<and> accs_ok s d \<and>
     open_files s d aid = Some acc \<and> acc \<noteq> NULL \<and> next_addr s \<le> ADDR_LIMIT"

lemma attachedD:
  assumes "attached s pid nd d aid acc"
  shows "heap_ok s" "devs_ok s" "\<not> writer (netdev_htable_sem s)" "device_of s pid = Some nd"
     "pid \<noteq> - 1" "pid \<noteq> 0" "heap s nd = Some (ODev d)" "\<not> nllock d" "\<not> writer (nd_sem d)" "accs_ok s d"
     "open_files s d aid = Some acc" "acc \<noteq> NULL" "0 < nd" "nd < ADDR_LIMIT" "next_addr s \<le> ADDR_LIMIT"
proof -
  show h: "heap_ok s" and d: "heap s nd = Some (ODev d)" using assms by (simp_all add: attached_def)
  show "0 < nd" by (rule heap_ok_pos[OF h d])
  show "nd < ADDR_LIMIT" using heap_ok_less[OF h d] assms by (simp add: attached_def)
qed (use assms in \<open>simp_all add: attached_def\<close>)

lemma attached_same:
  assumes "attached s pid nd d aid acc" "same_index s t" "heap_ok t" "next_addr t \<le> ADDR_LIMIT"
    and "heap t nd = Some (ODev e)" "foacc_htable e = foacc_htable d" "nd_sem e = nd_sem d" "nllock e = nllock d"
  shows "attached t pid nd e aid acc"
  using attachedD[OF assms(1)] device_of_same[OF _ assms(2)] open_files_same[OF _ assms(2,6)] assms
  by (simp add: attached_def same_index_def)

lemma attached_pid: "attached s pid nd d aid acc \<Longrightarrow> nlpid d = pid"
  using chains.lookup_SomeD[of "hash_min s" "dev_key s" "netdev_htable s" pid nd]
  by (auto simp: attached_def device_of_def dev_key_def)

section \<open>The kernel hands a file operation to its thread\<close>

text \<open>The message is acknowledged, the thread has its copy.\<close>

definition handed :: "kst \<Rightarrow> nlmsg \<Rightarrow> kst" where
  "handed s m = s\<lparr>heap := (heap s)(Suc (next_addr s) \<mapsto> OSkb m), next_addr := Suc (Suc (next_addr s)),
     tick := Suc (Suc (Suc (tick s))),
     trace := trace s @ [Woken (Suc (next_addr s)), Ack (nlmsg_pid m) (nlmsg_seq m) 0]\<rparr>"

lemma handed_simps [simp]:
  "heap (handed s m) = (heap s)(Suc (next_addr s) \<mapsto> OSkb m)" "next_addr (handed s m) = Suc (Suc (next_addr s))"
  "tick (handed s m) = Suc (Suc (Suc (tick s)))" "alloc_ok (handed s m) = alloc_ok s" "ext_ret (handed s m) = ext_ret s"
  "trace (handed s m) = trace s @ [Woken (Suc (next_addr s)), Ack (nlmsg_pid m) (nlmsg_seq m) 0]"
  by (simp_all add: handed_def)

lemma handed_globals: "same_globals s (handed s m)"
  by (simp add: same_globals_def handed_def)

text \<open>A file operation that asks for an acknowledgement, as the module and the daemons send it.\<close>

definition fo_request :: "nlmsg \<Rightarrow> bool" where
  "fo_request m \<longleftrightarrow> MSGT_FO_START < unat (nlmsg_type m) \<and> unat (nlmsg_type m) < MSGT_FO_END \<and> wants_ack m"

lemma same_index_grow:
  assumes "heap_ok s" "hash_min t = hash_min s" "netdev_htable t = netdev_htable s" "netdev_htable_sem t = netdev_htable_sem s"
    and "\<And>p v. heap s p = Some v \<Longrightarrow> heap t p = Some v"
  shows "same_index s t"
  using assms unfolding same_index_def by blast

lemma handed_old: "heap_ok s \<Longrightarrow> heap s p = Some v \<Longrightarrow> heap (handed s m) p = Some v"
  using fresh_heap(2)[of s] by auto

lemma handed_ok: "heap_ok s \<Longrightarrow> heap_ok (handed s m)"
  by (auto simp: heap_ok_def less_Suc_eq split: if_splits)

lemma handed_same: "heap_ok s \<Longrightarrow> same_index s (handed s m)"
  using handed_old by (intro same_index_grow) (simp_all add: handed_def)

lemma bindK_getK: "bindK getK f s = f s s"
  by (simp add: bindK_def getK_def)

lemma message_in_run:
  assumes at: "attached s (nlmsg_pid m) nd d aid acc" and m: "fo_request m"
    and mem: "alloc_ok s (tick s)" "alloc_ok s (Suc (tick s))" "Suc (next_addr s) < ADDR_LIMIT"
    and thread: "ext_ret s (Suc (Suc (tick s))) = 0"
  shows "message_in m s = bindK (fo_recv (Suc (next_addr s))) (\<lambda>_. returnK ()) (handed s m)"
proof -
  note k = attachedD[OF at] and fr = fresh_heap[OF attachedD(1)[OF at]]
  let ?q = "next_addr s" and ?s = "s\<lparr>heap := (heap s)(next_addr s \<mapsto> OSkb m), next_addr := Suc (next_addr s), tick := Suc (tick s)\<rparr>"
  have old: "heap ?s p = Some v" if "heap s p = Some v" for p v using that fr(1) by auto
  have ok: "heap_ok ?s" using k(1) by (auto simp: heap_ok_def less_Suc_eq split: if_splits)
  have at': "attached ?s (nlmsg_pid m) nd d aid acc"
    by (rule attached_same[OF at same_index_grow[OF k(1)] ok _ old[OF k(7)]]) (use mem(3) old in simp_all)
  note k' = attachedD[OF at']
  have "netlink_recv (\<lambda>_. returnK ()) ?q ?s = netlink_answer ?q m nd 0 (fo_dispatched ?s m nd d)"
    using m mem thread by (subst recv_fo_run[OF k'(1-4,7,8) _ k'(6,5)])
      (simp_all add: fo_request_def can_alloc_def bindK_def returnK_def)
  moreover have "nd \<noteq> ?q" "nd \<noteq> Suc ?q" using k(7) fr by auto
  ultimately have "netlink_recv (\<lambda>_. returnK ()) ?q ?s = Inr ((), (handed s m)\<lparr>heap := (heap s)(?q \<mapsto> OSkb m, Suc ?q \<mapsto> OSkb m)\<rparr>)"
    using m k(7,8,13) by (subst (asm) answer_ack_run[where d = "d\<lparr>nllock := True\<rparr>"])
      (auto simp: fo_request_def fo_dispatched_def handed_def nllock_same fun_eq_iff)
  moreover have "kalloc (OSkb m) s = Inr (?q, ?s)" using mem by (simp add: kalloc_def can_alloc_def)
  moreover have "(heap s)(?q \<mapsto> OSkb m, Suc ?q \<mapsto> OSkb m, ?q := None) = heap (handed s m)" using fr(1) by (auto simp: fun_eq_iff)
  then have "kfree ?q ((handed s m)\<lparr>heap := (heap s)(?q \<mapsto> OSkb m, Suc ?q \<mapsto> OSkb m)\<rparr>) = Inr ((), handed s m)"
    using fr(5) by (simp add: handed_def)
  ultimately show ?thesis
    using fr(5) by (simp add: message_in_def bindK_Inr[where m = "kalloc (OSkb m)"] thenK_Inr bindK_getK)
qed

section \<open>The thread finds the open file\<close>

lemma read_wire_id: "read_bytes (fo_wire aid rv a x @ pad) 0 4 s = Inr (le_bytes 4 aid, s)"
  by (simp add: fo_wire_def read_bytes_def returnK_def)

text \<open>The thread holds a reference to the device while it works.\<close>

definition held :: "kst \<Rightarrow> addr \<Rightarrow> netdev_data \<Rightarrow> kst" where
  "held s nd d = s\<lparr>heap := (heap s)(nd \<mapsto> ODev (d\<lparr>users := users d + 1\<rparr>))\<rparr>"

lemma held_simps [simp]:
  "heap (held s nd d) = (heap s)(nd \<mapsto> ODev (d\<lparr>users := users d + 1\<rparr>))" "next_addr (held s nd d) = next_addr s"
  "tick (held s nd d) = tick s" "alloc_ok (held s nd d) = alloc_ok s" "ext_ret (held s nd d) = ext_ret s" "trace (held s nd d) = trace s"
  by (simp_all add: held_def)

lemma held_globals: "same_globals s (held s nd d)"
  by (simp add: same_globals_def held_def)

lemma held_ok: "heap_ok s \<Longrightarrow> heap s nd = Some (ODev d) \<Longrightarrow> heap_ok (held s nd d)"
  by (rule heap_ok_grow) (auto split: if_splits)

lemma held_attached:
  assumes "attached s pid nd d aid acc"
  shows "attached (held s nd d) pid nd (d\<lparr>users := users d + 1\<rparr>) aid acc"
proof -
  note k = attachedD[OF assms]
  have "same_index s (held s nd d)" using k(7) unfolding same_index_def by (auto simp: held_def)
  from attached_same[OF assms this held_ok[OF k(1,7)]] k(15) show ?thesis by simp
qed

lemma recv_start_run:
  assumes at: "attached s (nlmsg_pid m) nd d aid acc" and m: "heap s skb = Some (OSkb m)" "payload m = fo_wire aid rv a x @ pad"
  shows "fo_recv skb s = bindK (if dummy d then fo_complete acc skb else fo_execute acc skb) (\<lambda>rv.
    thenK (if rv = - 1 \<and> unat (nlmsg_type m) = MSGT_FO_OPEN then fo_acc_destroy acc else returnK ())
    (thenK (ndmgm_put nd) (returnK rv))) (held s nd d)"
proof -
  note k = attachedD[OF at] and h = attachedD[OF held_attached[OF at]]
  let ?s = "held s nd d"
  have find: "ndmgm_find (nlmsg_pid m) s = Inr (nd, s)" using find_run[OF k(1-3,5)] k(4) by simp
  have get: "ndmgm_get nd s = Inr ((), ?s)" using k(13) by (simp add: ndmgm_get_def k(7) held_def)
  have "ndmgm_find_acc nd aid ?s = Inr (acc, ?s)" using find_acc_run[OF h(1,7,9,10)] h(11) by simp
  then have acc: "fo_recv_acc m nd aid ?s = Inr (Inr acc, ?s)" using k(12) by (simp add: fo_recv_acc_def bindK_def returnK_def)
  have dev: "get_dev nd ?s = Inr (d\<lparr>users := users d + 1\<rparr>, ?s)" using k(13) by simp
  have skb: "0 < skb" by (rule heap_ok_pos[OF k(1) m(1)])
  have "\<not> IS_ERR nd" using k(14) by (rule not_IS_ERR)
  then show ?thesis
    using skb
    by (simp add: fo_recv_def bindK_Inr[where m = "get_skb skb"] m bindK_Inr[where m = "ndmgm_find (nlmsg_pid m)"] find
        thenK_Inr[where m = "ndmgm_get nd"] get bindK_Inr[where m = "read_bytes b 0 4" for b] read_wire_id le_word_bytes32
        bindK_Inr[where m = "fo_recv_acc m nd aid"] acc bindK_Inr[where m = "get_dev nd"] dev del: held_simps)
qed

lemma put_held:
  assumes "0 < nd" "heap v nd = Some (ODev (d\<lparr>users := users d + 1\<rparr>))"
  shows "ndmgm_put nd v = Inr ((), v\<lparr>heap := (heap v)(nd \<mapsto> ODev d)\<rparr>)"
proof -
  have "d\<lparr>users := users d\<rparr> = d" by simp
  then show ?thesis using assms by (simp add: ndmgm_put_def)
qed

section \<open>The server executes the operation of a message\<close>

text \<open>The server of a daemon with an opened file.\<close>

definition serves :: "kst \<Rightarrow> i32 \<Rightarrow> i32 \<Rightarrow> addr \<Rightarrow> fo_access \<Rightarrow> netdev_data \<Rightarrow> file_ops \<Rightarrow> bool" where
  "serves s pid aid acc ac d fo \<longleftrightarrow> attached s pid (nddata ac) d aid acc \<and> \<not> dummy d \<and> heap s acc = Some (OAcc ac) \<and>
     heap s (queue_pool d) = Some OPool \<and> acc_filp ac = FOpen fo \<and> mem_avail s 12 \<and> (\<forall>i. ext_ret s i = 0)"

lemma servesD:
  assumes "serves s pid aid acc ac d fo"
  shows "attached s pid (nddata ac) d aid acc" "\<not> dummy d" "heap s acc = Some (OAcc ac)" "heap s (queue_pool d) = Some OPool"
    "acc_filp ac = FOpen fo" "mem_avail s 12" "ext_ret s i = 0" "nlpid d = pid"
  using assms attached_pid by (auto simp: serves_def)

text \<open>The state in which the thread executes the operation.\<close>

abbreviation serving_thread :: "kst \<Rightarrow> nlmsg \<Rightarrow> addr \<Rightarrow> netdev_data \<Rightarrow> kst" where
  "serving_thread s m nd d \<equiv> held (handed s m) nd d"

lemma serves_arrived:
  assumes sv: "serves s (nlmsg_pid m) aid acc ac d fo" and m: "msg_ok m"
  shows "arrived (serving_thread s m (nddata ac) d) acc ac (d\<lparr>users := users d + 1\<rparr>) (Suc (next_addr s)) m"
    "mem_avail (serving_thread s m (nddata ac) d) 8"
proof -
  note k = servesD[OF sv] and at = attachedD[OF servesD(1)[OF sv]] and fr = fresh_heap[OF attachedD(1)[OF servesD(1)[OF sv]]]
  have ne: "acc \<noteq> nddata ac" "queue_pool d \<noteq> nddata ac" by (rule heap_neq[OF k(3) at(7)], simp, rule heap_neq[OF k(4) at(7)], simp)
  have new: "acc \<noteq> Suc (next_addr s)" "nddata ac \<noteq> Suc (next_addr s)" "queue_pool d \<noteq> Suc (next_addr s)"
    using k(3,4) at(7) fr(2) by (metis option.distinct(1))+
  have "heap_ok (serving_thread s m (nddata ac) d)" by (rule held_ok) (use handed_ok[OF at(1)] at(7) new in simp_all)
  then show "arrived (serving_thread s m (nddata ac) d) acc ac (d\<lparr>users := users d + 1\<rparr>) (Suc (next_addr s)) m"
    using at(8) k(3,4) ne new m by (simp add: arrived_def not_sym[OF new(2)])
  show "mem_avail (serving_thread s m (nddata ac) d) 8"
    unfolding mem_avail_def
  proof (intro conjI allI impI)
    fix i :: nat assume "i < 8"
    then show "alloc_ok (serving_thread s m (nddata ac) d) (tick (serving_thread s m (nddata ac) d) + i)"
      using mem_availD[OF k(6), of "i + 3"] by (simp add: numeral_3_eq_3)
  qed (use k(6) in \<open>simp add: mem_avail_def\<close>)
qed

lemma serves_run:
  assumes sv: "serves s (nlmsg_pid m) aid acc ac d fo" and m: "fo_request m" "payload m = fo_wire aid rv0 a0 x0 @ pad"
    and ans: "answers (serving_thread s m (nddata ac) d) acc (Suc (next_addr s)) (d\<lparr>users := users d + 1\<rparr>) m aid a x"
  shows "\<exists>v. message_in m s = Inr ((), v) \<and> heap v = heap s \<and> same_globals s v \<and> trace v = trace s @
    [Woken (Suc (next_addr s)), Ack (nlmsg_pid m) (nlmsg_seq m) 0, Unicast (nlmsg_pid m) (reply_msg m (fo_wire aid 0 a x))]"
proof -
  note k = servesD[OF sv] and at = attachedD[OF servesD(1)[OF sv]] and fr = fresh_heap[OF attachedD(1)[OF servesD(1)[OF sv]]]
  let ?nd = "nddata ac" and ?q = "Suc (next_addr s)" and ?u = "serving_thread s m (nddata ac) d"
  have new: "?nd \<noteq> ?q" using at(7) fr(2) by auto
  have mem: "alloc_ok s (tick s)" "alloc_ok s (Suc (tick s))" "Suc (next_addr s) < ADDR_LIMIT"
    using mem_availD[OF k(6), of 0] mem_availD[OF k(6), of 1] by simp_all
  have hat: "attached (handed s m) (nlmsg_pid m) ?nd d aid acc"
    by (rule attached_same[OF k(1) handed_same handed_ok]) (use at new mem(3) in simp_all)
  obtain v where v: "fo_execute acc ?q ?u = Inr (0, v)" "heap v = (heap ?u)(?q := None)" "same_globals ?u v"
    "trace v = trace ?u @ [Unicast (nlmsg_pid m) (reply_msg m (fo_wire aid 0 a x))]"
    using ans k(7,8) unfolding answers_def by (auto simp: delivered_def)
  let ?v = "v\<lparr>heap := (heap v)(?nd \<mapsto> ODev d)\<rparr>"
  have "heap v ?nd = Some (ODev (d\<lparr>users := users d + 1\<rparr>))" using new by (simp add: v(2))
  from put_held[OF at(13) this] have put: "ndmgm_put ?nd v = Inr ((), ?v)" .
  have "fo_recv ?q (handed s m) = Inr (0, ?v)"
    using k(2) by (simp add: recv_start_run[OF hat _ m(2)] bindK_Inr[where m = "fo_execute acc ?q"] v(1) thenK_Inr put returnK_def
        del: held_simps)
  then have "message_in m s = Inr ((), ?v)"
    by (simp add: message_in_run[OF k(1) m(1) mem k(7)] bindK_Inr[where m = "fo_recv ?q"] returnK_def)
  moreover have "(heap v)(?nd \<mapsto> ODev d) = heap s" using at(7) fr(2) new by (auto simp: v(2) fun_eq_iff)
  moreover have "same_globals s ?v" using v(3) held_globals handed_globals by (simp add: same_globals_def)
  ultimately show ?thesis using v(4) by auto
qed

end
