(* ===== verification/Fo_Client.thy ===== *)
theory Fo_Client
  imports Kernel_Message
begin

text \<open>
  A whole file operation as the client's machine sees it: \<open>fo_send\<close> sends the request, the
  reply comes in as a message while it waits, the thread that \<open>netlink_recv\<close> starts for it
  completes the request, and \<open>fo_send\<close> returns with the reply's result and the caller's buffers
  filled.
\<close>

section \<open>A reply thread on the client\<close>

text \<open>The client's side of a device: registered, not being torn down, with an open file.\<close>

definition client :: "kst \<Rightarrow> i32 \<Rightarrow> addr \<Rightarrow> netdev_data \<Rightarrow> i32 \<Rightarrow> addr \<Rightarrow> bool" where
  "client s pid nd d aid acc \<longleftrightarrow> attached s pid nd d aid acc \<and> dummy d"

lemma clientD:
  assumes "client s pid nd d aid acc"
  shows "attached s pid nd d aid acc" "dummy d" "heap s nd = Some (ODev d)" "heap_ok s"
  using assms by (auto simp: client_def dest: attachedD)

lemma client_same:
  assumes "client s pid nd d aid acc" "same_index s t" "heap_ok t" "next_addr t \<le> ADDR_LIMIT"
    and "heap t nd = Some (ODev e)" "foacc_htable e = foacc_htable d" "dummy e = dummy d" "nd_sem e = nd_sem d" "nllock e = nllock d"
  shows "client t pid nd e aid acc"
  using clientD(1,2)[OF assms(1)] attached_same[OF _ assms(2-6,8,9)] assms(7) by (simp add: client_def)

lemma waiting_held:
  assumes w: "waiting s acc a req r rest b c" and nd: "heap s nd = Some (ODev d)"
  shows "waiting (held s nd d) acc a req r rest b c"
proof -
  have o: "heap_ok s" "heap s acc = Some (OAcc a)" "heap s req = Some (OReq r)" "heap s (args r) = Some (OBuf b)"
    "pending_ok s (req # rest)" using w by (simp_all add: waiting_def)
  have ne: "nd \<noteq> acc" "nd \<noteq> req" "nd \<noteq> args r"
    by (rule heap_neq[OF nd o(2)], simp, rule heap_neq[OF nd o(3)], simp, rule heap_neq[OF nd o(4)], simp)
  have "pending_ok (held s nd d) (req # rest)" using o(5) nd unfolding pending_ok_def by fastforce
  moreover have "c \<noteq> [] \<longrightarrow> heap (held s nd d) (data r) = Some (OBuf c)" using w nd by (auto simp: waiting_def)
  ultimately show ?thesis using w held_ok[OF o(1) nd] ne unfolding waiting_def by simp
qed

text \<open>Completing a request does not look at the device, so holding it does not matter.\<close>

lemma completed_held:
  assumes "heap s nd = Some (ODev d)" "nd \<noteq> acc" "nd \<noteq> req" "nd \<noteq> args r" "nd \<noteq> skb" "xb \<noteq> [] \<Longrightarrow> nd \<noteq> data r"
  shows "heap (completed (held s nd d) acc a req r rest c aid rv ab xb skb) nd = Some (ODev (d\<lparr>users := users d + 1\<rparr>))"
    "(completed (held s nd d) acc a req r rest c aid rv ab xb skb)\<lparr>heap :=
       (heap (completed (held s nd d) acc a req r rest c aid rv ab xb skb))(nd \<mapsto> ODev d)\<rparr> =
     completed s acc a req r rest c aid rv ab xb skb"
proof -
  show "heap (completed (held s nd d) acc a req r rest c aid rv ab xb skb) nd = Some (ODev (d\<lparr>users := users d + 1\<rparr>))"
    using assms by (cases "xb = []") (simp_all add: completed_def Let_def)
  have "(heap (completed (held s nd d) acc a req r rest c aid rv ab xb skb))(nd \<mapsto> ODev d) =
      heap (completed s acc a req r rest c aid rv ab xb skb)"
    using assms by (cases "xb = []") (auto simp: completed_def Let_def fun_eq_iff)
  then show "(completed (held s nd d) acc a req r rest c aid rv ab xb skb)\<lparr>heap :=
       (heap (completed (held s nd d) acc a req r rest c aid rv ab xb skb))(nd \<mapsto> ODev d)\<rparr> =
     completed s acc a req r rest c aid rv ab xb skb"
    by (simp add: completed_def held_def)
qed

lemma recv_complete_run:
  assumes cl: "client s (nlmsg_pid m) nd d aid acc" and w: "waiting s acc a req r rest b c"
    and sq: "seq r = scast (nlmsg_seq m)"
    and m: "heap s skb = Some (OSkb m)" "payload m = fo_wire aid rv ab xb @ pad"
    and len: "length b = length ab" "ab \<noteq> []" "length xb \<le> length c" "24 + length ab + length xb < MSG_MAX"
  shows "fo_recv skb s = Inr (0, completed s acc a req r rest c aid rv ab xb skb)"
proof -
  note at = clientD(1)[OF cl] and nd = clientD(3)[OF cl]
  have o: "heap s acc = Some (OAcc a)" "heap s req = Some (OReq r)" "heap s (args r) = Some (OBuf b)"
    using w by (simp_all add: waiting_def)
  have ne: "nd \<noteq> acc" "nd \<noteq> req" "nd \<noteq> args r" "nd \<noteq> skb"
    by (rule heap_neq[OF nd o(1)], simp, rule heap_neq[OF nd o(2)], simp, rule heap_neq[OF nd o(3)], simp,
        rule heap_neq[OF nd m(1)], simp)
  have dne: "nd \<noteq> data r" if "xb \<noteq> []"
  proof -
    have "heap s (data r) = Some (OBuf c)" using w that len(3) by (auto simp: waiting_def)
    then show ?thesis by (rule heap_neq[OF nd]) simp
  qed
  let ?c = "completed (held s nd d) acc a req r rest c aid rv ab xb skb"
  note c = completed_held[OF nd ne dne]
  have comp: "fo_complete acc skb (held s nd d) = Inr (0, ?c)"
    using ne(4) m(1) by (intro complete_run[OF waiting_held[OF w nd] sq _ m(2) len]) simp
  have put: "ndmgm_put nd ?c = Inr ((), completed s acc a req r rest c aid rv ab xb skb)"
    using put_held[OF attachedD(13)[OF at] c(1)] c(2) by simp
  show ?thesis
    using clientD(2)[OF cl]
    by (simp add: recv_start_run[OF at m] bindK_Inr[where m = "fo_complete acc skb"] comp thenK_Inr[where m = "ndmgm_put nd"] put)
      (simp add: thenK_def bindK_def returnK_def put)
qed

section \<open>Sending a request\<close>

text \<open>An idle open file of an active device, and the buffers of an operation on it.\<close>

definition idle :: "kst \<Rightarrow> addr \<Rightarrow> fo_access \<Rightarrow> netdev_data \<Rightarrow> bool" where
  "idle s acc ac d \<longleftrightarrow> heap_ok s \<and> heap s acc = Some (OAcc ac) \<and> heap s (nddata ac) = Some (ODev d) \<and> active d \<and> \<not> nllock d \<and>
     heap s (queue_pool d) = Some OPool \<and> acc_sem ac = sem_free \<and> fo_queue ac = [] \<and> curseq d + 1 \<noteq> 0"

definition op_bufs :: "kst \<Rightarrow> addr \<Rightarrow> i64 \<Rightarrow> addr \<Rightarrow> i64 \<Rightarrow> byte list \<Rightarrow> byte list \<Rightarrow> bool" where
  "op_bufs s ar sz da dsz a x \<longleftrightarrow> 0 < ar \<and> heap s ar = Some (OBuf a) \<and> unat sz = length a \<and> unat dsz = length x \<and>
     (x \<noteq> [] \<longrightarrow> 0 < da \<and> heap s da = Some (OBuf x)) \<and> 24 + length a + length x < 2147483632"

definition sent_req :: "nat \<Rightarrow> fo_access \<Rightarrow> netdev_data \<Rightarrow> addr \<Rightarrow> i64 \<Rightarrow> addr \<Rightarrow> i64 \<Rightarrow> fo_req" where
  "sent_req mt ac d ar sz da dsz = \<lparr>seq = scast (curseq d + 1), msgtype = of_nat mt, req_access_id = access_id ac, args = ar,
     data = da, size = sz, data_size = dsz, rvalue = - 1, comp_done = False\<rparr>"

definition sent_msg :: "nat \<Rightarrow> fo_access \<Rightarrow> netdev_data \<Rightarrow> byte list \<Rightarrow> byte list \<Rightarrow> nlmsg" where
  "sent_msg mt ac d a x = built_msg (nlpid d) (curseq d + 1) (of_nat mt) NLM_F_REQUEST (fo_wire (access_id ac) (- 1) a x)"

text \<open>The request is in the queue, the device has a reference more.\<close>

definition queued :: "kst \<Rightarrow> nat \<Rightarrow> addr \<Rightarrow> fo_access \<Rightarrow> netdev_data \<Rightarrow> addr \<Rightarrow> i64 \<Rightarrow> addr \<Rightarrow> i64 \<Rightarrow> kst" where
  "queued s mt acc ac d ar sz da dsz = s\<lparr>heap := (heap s)(nddata ac \<mapsto> ODev (d\<lparr>users := users d + 1\<rparr>),
       next_addr s \<mapsto> OReq ((sent_req mt ac d ar sz da dsz)\<lparr>seq := junk_seq s\<rparr>), acc \<mapsto> OAcc (ac\<lparr>fo_queue := [next_addr s]\<rparr>)),
     next_addr := Suc (next_addr s), tick := Suc (tick s)\<rparr>"

text \<open>The request is sent: its number and the device's counter are set.\<close>

definition sent :: "kst \<Rightarrow> nat \<Rightarrow> addr \<Rightarrow> fo_access \<Rightarrow> netdev_data \<Rightarrow> addr \<Rightarrow> i64 \<Rightarrow> addr \<Rightarrow> i64 \<Rightarrow> byte list \<Rightarrow> byte list \<Rightarrow> kst" where
  "sent s mt acc ac d ar sz da dsz a x = (let q = next_addr s in
     s\<lparr>heap := (heap s)(acc \<mapsto> OAcc (ac\<lparr>fo_queue := [q]\<rparr>), Suc q \<mapsto> OBuf (fo_wire (access_id ac) (- 1) a x),
         nddata ac \<mapsto> ODev (d\<lparr>users := users d + 1, curseq := curseq d + 1\<rparr>), q \<mapsto> OReq (sent_req mt ac d ar sz da dsz)),
       next_addr := Suc (Suc (Suc q)), tick := Suc (Suc (Suc (Suc (tick s)))),
       trace := trace s @ [Unicast (nlpid d) (sent_msg mt ac d a x)]\<rparr>)"

lemma ucast_scast_seq: "ucast (scast (w :: i32) :: i64) = w"
  by (rule bit_word_eqI) (auto simp: bit_simps)

text \<open>A caller that has an idle open file, its buffers, and a kernel that refuses nothing.\<close>

definition asks :: "kst \<Rightarrow> addr \<Rightarrow> fo_access \<Rightarrow> netdev_data \<Rightarrow> addr \<Rightarrow> i64 \<Rightarrow> addr \<Rightarrow> i64 \<Rightarrow> byte list \<Rightarrow> byte list \<Rightarrow> bool" where
  "asks s acc ac d ar sz da dsz a x \<longleftrightarrow> idle s acc ac d \<and> op_bufs s ar sz da dsz a x \<and> mem_avail s 8 \<and> (\<forall>i. ext_ret s i = 0)"

lemma asksD:
  assumes "asks s acc ac d ar sz da dsz a x"
  shows "heap_ok s" "heap s acc = Some (OAcc ac)" "heap s (nddata ac) = Some (ODev d)" "active d" "\<not> nllock d"
     "heap s (queue_pool d) = Some OPool" "acc_sem ac = sem_free" "fo_queue ac = []" "curseq d + 1 \<noteq> 0"
    "0 < ar" "heap s ar = Some (OBuf a)" "unat sz = length a" "unat dsz = length x" "x \<noteq> [] \<Longrightarrow> 0 < da"
    "x \<noteq> [] \<Longrightarrow> heap s da = Some (OBuf x)" "24 + length a + length x < 2147483632" "mem_avail s 8" "ext_ret s i = 0"
  using assms by (simp_all add: asks_def idle_def op_bufs_def)

lemma asks_pos:
  assumes "asks s acc ac d ar sz da dsz a x"
  shows "0 < acc" "0 < nddata ac" "0 < queue_pool d" "0 < next_addr s" "acc < next_addr s" "nddata ac < next_addr s"
    "queue_pool d < next_addr s" "ar < next_addr s"
proof -
  note o = asksD(2,3,6,11)[OF assms] and ok = asksD(1)[OF assms]
  show "0 < acc" "0 < nddata ac" "0 < queue_pool d" by (rule heap_ok_pos[OF ok o(1)] heap_ok_pos[OF ok o(2)] heap_ok_pos[OF ok o(3)])+
  show "acc < next_addr s" "nddata ac < next_addr s" "queue_pool d < next_addr s" "ar < next_addr s"
    by (rule heap_ok_less[OF ok o(1)] heap_ok_less[OF ok o(2)] heap_ok_less[OF ok o(3)] heap_ok_less[OF ok o(4)])+
  show "0 < next_addr s" using ok by (simp add: heap_ok_def)
qed

lemma asks_ne:
  assumes "asks s acc ac d ar sz da dsz a x"
  shows "acc \<noteq> nddata ac" "nddata ac \<noteq> acc" "queue_pool d \<noteq> nddata ac" "queue_pool d \<noteq> acc" "ar \<noteq> nddata ac" "ar \<noteq> acc" "ar \<noteq> queue_pool d"
proof -
  note o = asksD(2,3,6,11)[OF assms]
  show "acc \<noteq> nddata ac" "queue_pool d \<noteq> nddata ac" "queue_pool d \<noteq> acc" "ar \<noteq> nddata ac" "ar \<noteq> acc" "ar \<noteq> queue_pool d"
    by (rule heap_neq[OF o(1,2)], simp, rule heap_neq[OF o(3,2)], simp, rule heap_neq[OF o(3,1)], simp,
        rule heap_neq[OF o(4,2)], simp, rule heap_neq[OF o(4,1)], simp, rule heap_neq[OF o(4,3)], simp)
  then show "nddata ac \<noteq> acc" by simp
qed

lemma send_queue_run:
  assumes k: "asks s acc ac d ar sz da dsz a x"
  shows "fo_send others mt acc ar sz da dsz s =
    fo_send_queued others mt acc (nddata ac) (next_addr s) (queued s mt acc ac d ar sz da dsz)"
proof -
  note o = asksD[OF k] and p = asks_pos[OF k] and ne = asks_ne[OF k]
  note mm = mem_avail8[OF o(17)]
  let ?q = "next_addr s" and ?nd = "nddata ac"
  define r1 where "r1 = (sent_req mt ac d ar sz da dsz)\<lparr>seq := junk_seq s\<rparr>"
  let ?h1 = "(heap s)(?nd \<mapsto> ODev (d\<lparr>users := users d + 1\<rparr>))"
  let ?s1 = "s\<lparr>heap := ?h1\<rparr>"
  have get: "ndmgm_get ?nd s = Inr ((), ?s1)" using p(2) by (simp add: ndmgm_get_def o(3))
  let ?s2 = "\<lambda>r. s\<lparr>heap := ?h1(?q \<mapsto> OReq r), next_addr := Suc ?q, tick := Suc (tick s)\<rparr>"
  have alloc: "kmem_cache_alloc (queue_pool d) ?s1 = Inr (?q, ?s2 (stale_req (junk_seq s)))"
    using p(3) mm(9) by (simp add: kmem_cache_alloc_def kflow kalloc_def can_alloc_def ne o(6) junk_seq_def)
  have fill: "mod_req ?q (\<lambda>r. r\<lparr>rvalue := - 1, msgtype := of_nat mt, req_access_id := access_id ac, args := ar,
        size := sz, data := da, data_size := dsz, comp_done := False\<rparr>) (?s2 (stale_req (junk_seq s))) = Inr ((), ?s2 r1)"
    using p(4) by (simp add: r1_def sent_req_def stale_req_def)
  have add: "fo_acc_foreq_add acc ?q (?s2 r1) = Inr (0, queued s mt acc ac d ar sz da dsz)"
    using p by (subst foreq_add_run[where a = ac])
      (simp_all add: ne o(2,7,8) with_queue_def kfifo_in_def kfifo_capacity_def NETDEV_FO_QUEUE_SIZE_def queued_def r1_def)
  show ?thesis
    using p o(4)
    by (simp add: fo_send_def bindK_Inr[where m = "get_acc acc"] bindK_Inr[where m = "get_dev ?nd"] o(2,3)
        thenK_Inr[where m = "ndmgm_get ?nd"] get bindK_Inr[where m = "kmem_cache_alloc (queue_pool d)"] alloc
        thenK_Inr[where m = "mod_req ?q f" for f] fill bindK_Inr[where m = "fo_acc_foreq_add acc ?q"] add
        del: fun_upd_apply mod_req_of)
qed

lemma queued_ok: "asks s acc ac d ar sz da dsz a x \<Longrightarrow> heap_ok (queued s mt acc ac d ar sz da dsz)"
  by (rule heap_ok_grow[OF asksD(1)]) (auto simp: queued_def dest: asksD(2,3) split: if_splits)

lemma queued_bytes:
  assumes k: "asks s acc ac d ar sz da dsz a x"
  shows "heap (queued s mt acc ac d ar sz da dsz) (next_addr s) = Some (OReq ((sent_req mt ac d ar sz da dsz)\<lparr>seq := junk_seq s\<rparr>))"
    "req_bytes (queued s mt acc ac d ar sz da dsz) ((sent_req mt ac d ar sz da dsz)\<lparr>seq := junk_seq s\<rparr>) a x"
proof -
  note o = asksD[OF k] and p = asks_pos[OF k] and ne = asks_ne[OF k]
  show "heap (queued s mt acc ac d ar sz da dsz) (next_addr s) = Some (OReq ((sent_req mt ac d ar sz da dsz)\<lparr>seq := junk_seq s\<rparr>))"
    using p by (simp add: queued_def)
  have dne: "da < next_addr s" "da \<noteq> nddata ac" "da \<noteq> acc" if "x \<noteq> []"
    using heap_ok_less[OF o(1) o(15)[OF that]] heap_neq[OF o(15)[OF that] o(3)] heap_neq[OF o(15)[OF that] o(2)] by simp_all
  show "req_bytes (queued s mt acc ac d ar sz da dsz) ((sent_req mt ac d ar sz da dsz)\<lparr>seq := junk_seq s\<rparr>) a x"
    using o(10-15) p ne dne by (cases "x = []") (simp_all add: req_bytes_def queued_def sent_req_def)
qed

lemma send_queued_run:
  assumes k: "asks s acc ac d ar sz da dsz a x"
  shows "fo_send_queued others mt acc (nddata ac) (next_addr s) (queued s mt acc ac d ar sz da dsz) =
    thenK others (thenK (wait_for_completion (next_addr s)) (bindK (get_req (next_addr s)) (\<lambda>r.
      fo_send_out mt acc (Suc (next_addr s)) (next_addr s) (rvalue r)))) (sent s mt acc ac d ar sz da dsz a x)"
proof -
  note o = asksD[OF k] and p = asks_pos[OF k] and ne = asks_ne[OF k]
  note mm = mem_avail8[OF o(17)]
  let ?q = "next_addr s" and ?nd = "nddata ac" and ?r = "sent_req mt ac d ar sz da dsz" and ?d1 = "d\<lparr>users := users d + 1\<rparr>"
  define w where "w = fo_wire (access_id ac) (- 1) a x"
  define n where "n = (of_nat (24 + length a + length x) :: i64)"
  let ?u = "queued s mt acc ac d ar sz da dsz"
  let ?s = "\<lambda>h. s\<lparr>heap := h, next_addr := Suc (Suc ?q), tick := Suc (Suc (tick s))\<rparr>"
  let ?h4 = "(heap ?u)(Suc ?q \<mapsto> OBuf w)"
  have u: "next_addr ?u = Suc ?q" "tick ?u = Suc (tick s)" "alloc_ok ?u = alloc_ok s" "heap ?u ?nd = Some (ODev ?d1)"
    "?u\<lparr>heap := h, next_addr := i, tick := j\<rparr> = s\<lparr>heap := h, next_addr := i, tick := j\<rparr>" for h i j
    using p ne by (simp_all add: queued_def)
  have big: "24 + length a + length x < MSG_MAX" using o(16) by (simp add: MSG_MAX_def)
  have ser: "fo_serialize ?q ?u = Inr ((Suc ?q, n), ?s ?h4)"
    using serialize_run[OF queued_ok[OF k] queued_bytes[OF k] big, of mt] mm
    by (simp add: u can_alloc_def n_def w_def) (simp add: sent_req_def queued_def)
  let ?h5 = "?h4(?nd \<mapsto> ODev (?d1\<lparr>curseq := curseq d + 1\<rparr>))"
  have inc: "ndmgm_incseq ?nd (?s ?h4) = Inr (curseq d + 1, ?s ?h5)"
    using p(2,6) u(4) by (simp add: ndmgm_incseq_def thenK_def bindK_def returnK_def)
  let ?h6 = "?h5(?q \<mapsto> OReq ?r)"
  have set: "mod_req ?q (\<lambda>r. r\<lparr>seq := scast (curseq d + 1)\<rparr>) (?s ?h5) = Inr ((), ?s ?h6)"
    using p queued_bytes(1)[OF k, of mt] by (simp add: sent_req_def)
  have req: "get_req ?q (?s ?h6) = Inr (?r, ?s ?h6)" using p(4) by simp
  have buf: "get_buf (Suc ?q) (?s ?h6) = Inr (w, ?s ?h6)" using p by simp
  have ok6: "heap_ok (?s ?h6)" by (rule heap_ok_grow[OF queued_ok[OF k, of mt]]) (use u(1,4) queued_bytes(1)[OF k, of mt] in \<open>auto split: if_splits\<close>)
  have n: "length w = unat n" "unat n < 2147483648"
    using unat_of_small[OF big] o(16) by (simp_all add: w_def n_def del: unat_of_nat)
  have "?h6 = heap (sent s mt acc ac d ar sz da dsz a x)"
    using p ne by (auto simp: queued_def sent_def Let_def w_def fun_eq_iff)
  then have send: "netlink_send ?nd (curseq d + 1) (of_nat mt) NLM_F_REQUEST (Some w) n (?s ?h6) = Inr (0, sent s mt acc ac d ar sz da dsz a x)"
    using p(2,6) mm o(5,18) by (subst send_run[OF ok6 _ _ _ n, where d = "?d1\<lparr>curseq := curseq d + 1\<rparr>"])
      (simp_all add: can_alloc_def send_result_def delivered_def sent_def Let_def sent_msg_def w_def)
  have f: "ucast (seq ?r) = curseq d + 1" "msgtype ?r = of_nat mt"
    unfolding sent_req_def by (simp_all only: fo_req.simps ucast_scast_seq)
  show ?thesis
    using o(9)
    by (simp add: fo_send_queued_def bindK_Inr[where m = "fo_serialize ?q"] ser bindK_Inr[where m = "ndmgm_incseq ?nd"] inc
        thenK_Inr[where m = "mod_req ?q f" for f] set bindK_Inr[where m = "get_req ?q"] req bindK_Inr[where m = "get_buf (Suc ?q)"] buf
        bindK_Inr[where m = "netlink_send ?nd i j k l m" for i j k l m] f send del: fun_upd_apply mod_req_of)
qed

section \<open>A request and its reply\<close>

text \<open>The state in which the request is under way.\<close>

lemma sent_simps [simp]:
  "next_addr (sent s mt acc ac d ar sz da dsz a x) = Suc (Suc (Suc (next_addr s)))"
  "tick (sent s mt acc ac d ar sz da dsz a x) = Suc (Suc (Suc (Suc (tick s))))"
  "alloc_ok (sent s mt acc ac d ar sz da dsz a x) = alloc_ok s" "ext_ret (sent s mt acc ac d ar sz da dsz a x) = ext_ret s"
  "trace (sent s mt acc ac d ar sz da dsz a x) = trace s @ [Unicast (nlpid d) (sent_msg mt ac d a x)]"
  by (simp_all add: sent_def Let_def)

lemma sent_globals: "same_globals s (sent s mt acc ac d ar sz da dsz a x)"
  by (simp add: sent_def Let_def same_globals_def)

text \<open>The open file and the device while the request is under way.\<close>

abbreviation busy_acc :: "kst \<Rightarrow> fo_access \<Rightarrow> fo_access" where
  "busy_acc s ac \<equiv> ac\<lparr>fo_queue := [next_addr s]\<rparr>"

abbreviation busy_dev :: "netdev_data \<Rightarrow> netdev_data" where
  "busy_dev d \<equiv> d\<lparr>users := users d + 1, curseq := curseq d + 1\<rparr>"

lemma sent_at:
  assumes k: "asks s acc ac d ar sz da dsz a x"
  shows "heap (sent s mt acc ac d ar sz da dsz a x) acc = Some (OAcc (busy_acc s ac))"
    "heap (sent s mt acc ac d ar sz da dsz a x) (nddata ac) = Some (ODev (busy_dev d))"
    "heap (sent s mt acc ac d ar sz da dsz a x) (next_addr s) = Some (OReq (sent_req mt ac d ar sz da dsz))"
    "heap (sent s mt acc ac d ar sz da dsz a x) (Suc (next_addr s)) = Some (OBuf (fo_wire (access_id ac) (- 1) a x))"
    "heap_ok (sent s mt acc ac d ar sz da dsz a x)"
proof -
  note o = asksD[OF k] and p = asks_pos[OF k] and ne = asks_ne[OF k]
  show "heap (sent s mt acc ac d ar sz da dsz a x) acc = Some (OAcc (busy_acc s ac))"
    "heap (sent s mt acc ac d ar sz da dsz a x) (nddata ac) = Some (ODev (busy_dev d))"
    "heap (sent s mt acc ac d ar sz da dsz a x) (next_addr s) = Some (OReq (sent_req mt ac d ar sz da dsz))"
    "heap (sent s mt acc ac d ar sz da dsz a x) (Suc (next_addr s)) = Some (OBuf (fo_wire (access_id ac) (- 1) a x))"
    using p ne by (simp_all add: sent_def Let_def)
  show "heap_ok (sent s mt acc ac d ar sz da dsz a x)"
    by (rule heap_ok_grow[OF o(1)]) (use o(2,3) in \<open>auto simp: sent_def Let_def split: if_splits\<close>)
qed

lemma sent_old:
  assumes "asks s acc ac d ar sz da dsz a x" "heap s p = Some v" "p \<noteq> acc" "p \<noteq> nddata ac"
  shows "heap (sent s mt acc ac d ar sz da dsz a x) p = Some v"
  using assms(2-4) heap_ok_less[OF asksD(1)[OF assms(1)] assms(2)] by (simp add: sent_def Let_def)

lemma sent_same:
  assumes k: "asks s acc ac d ar sz da dsz a x"
  shows "same_index s (sent s mt acc ac d ar sz da dsz a x)"
proof -
  note o = asksD[OF k] and at = sent_at[OF k, of mt]
  let ?u = "sent s mt acc ac d ar sz da dsz a x"
  note old = sent_old[OF k, of _ _ mt]
  have "\<exists>e. heap ?u p = Some (ODev e) \<and> nlpid e = nlpid y" if "heap s p = Some (ODev y)" for p y
    using that old[OF that] at(2) o(2,3) by (cases "p = nddata ac"; cases "p = acc") auto
  moreover have "\<exists>e. heap ?u p = Some (OAcc e) \<and> access_id e = access_id y" if "heap s p = Some (OAcc y)" for p y
    using that old[OF that] at(1) o(2,3) by (cases "p = nddata ac"; cases "p = acc") auto
  ultimately show ?thesis
    using sent_globals[of s mt acc ac d ar sz da dsz a x] unfolding same_index_def same_globals_def by simp
qed

lemma sent_client:
  assumes cl: "client s pid (nddata ac) d aid acc" and k: "asks s acc ac d ar sz da dsz a x"
  shows "client (sent s mt acc ac d ar sz da dsz a x) pid (nddata ac) (busy_dev d) aid acc"
  by (rule client_same[OF cl sent_same[OF k] sent_at(5)[OF k] _ sent_at(2)[OF k]])
    (use mem_avail8(10)[OF asksD(17)[OF k]] in simp_all)

text \<open>The caller's buffer \<open>c\<close> takes the data of a reply.\<close>

definition takes :: "kst \<Rightarrow> addr \<Rightarrow> addr \<Rightarrow> byte list \<Rightarrow> byte list \<Rightarrow> bool" where
  "takes s ar da x c \<longleftrightarrow> (x \<noteq> [] \<longrightarrow> 0 < da \<and> da \<noteq> ar \<and> heap s da = Some (OBuf c) \<and> length x \<le> length c)"

lemma takesD:
  assumes "takes s ar da x' c" "asks s acc ac d ar sz da dsz a x" "x' \<noteq> []"
  shows "0 < da" "da \<noteq> ar" "heap s da = Some (OBuf c)" "length x' \<le> length c" "da < next_addr s" "da \<noteq> acc" "da \<noteq> nddata ac"
    "da \<noteq> queue_pool d"
proof -
  show d: "0 < da" "da \<noteq> ar" "heap s da = Some (OBuf c)" "length x' \<le> length c" using assms(1,3) by (simp_all add: takes_def)
  note o = asksD[OF assms(2)]
  show "da < next_addr s" by (rule heap_ok_less[OF o(1) d(3)])
  show "da \<noteq> acc" "da \<noteq> nddata ac" "da \<noteq> queue_pool d"
    by (rule heap_neq[OF d(3) o(2)], simp, rule heap_neq[OF d(3) o(3)], simp, rule heap_neq[OF d(3) o(6)], simp)
qed

lemma sent_waiting:
  assumes k: "asks s acc ac d ar sz da dsz a x" and t: "takes s ar da x' c"
  shows "waiting (handed (sent s mt acc ac d ar sz da dsz a x) m) acc (busy_acc s ac) (next_addr s) (sent_req mt ac d ar sz da dsz)
    [] a (if x' = [] then [] else c)"
proof -
  note o = asksD[OF k] and p = asks_pos[OF k] and ne = asks_ne[OF k] and at = sent_at[OF k, of mt]
  let ?u = "sent s mt acc ac d ar sz da dsz a x"
  note old = handed_old[OF at(5), of _ _ m]
  have ar: "heap ?u ar = Some (OBuf a)" by (rule sent_old[OF k o(11) ne(6,5)])
  have da: "heap ?u da = Some (OBuf c)" if "x' \<noteq> []" using sent_old[OF k] takesD[OF t k that] by blast
  have sr: "args (sent_req mt ac d ar sz da dsz) = ar" "data (sent_req mt ac d ar sz da dsz) = da" by (simp_all add: sent_req_def)
  show ?thesis
    unfolding waiting_def pending_ok_def sr
    using handed_ok[OF at(5)] old[OF at(1)] old[OF at(3)] old[OF ar] old[OF da] o(7,10) p(4) takesD[OF t k] t mem_avail8(10)[OF o(17)]
    by (auto simp: kfifo_capacity_def NETDEV_FO_QUEUE_SIZE_def simp del: handed_simps)
qed

lemma sent_handed_client:
  assumes cl: "client s pid (nddata ac) d aid acc" and k: "asks s acc ac d ar sz da dsz a x"
  shows "client (handed (sent s mt acc ac d ar sz da dsz a x) m) pid (nddata ac) (busy_dev d) aid acc"
  by (rule client_same[OF sent_client[OF cl k] handed_same[OF sent_at(5)[OF k]] handed_ok[OF sent_at(5)[OF k]] _
        handed_old[OF sent_at(5)[OF k] sent_at(2)[OF k]]])
    (use mem_avail8(10)[OF asksD(17)[OF k]] in simp_all)

text \<open>The reply comes in: its thread completes the request.\<close>

definition reply_to :: "nlmsg \<Rightarrow> fo_access \<Rightarrow> netdev_data \<Rightarrow> i32 \<Rightarrow> byte list \<Rightarrow> byte list \<Rightarrow> bool" where
  "reply_to m ac d rv a x \<longleftrightarrow> nlmsg_pid m = nlpid d \<and> nlmsg_seq m = curseq d + 1 \<and> fo_request m \<and>
     (\<exists>pad. payload m = fo_wire (access_id ac) rv a x @ pad)"

lemma reply_in_run:
  assumes cl: "client s (nlpid d) (nddata ac) d (access_id ac) acc" and k: "asks s acc ac d ar sz da dsz a x"
    and t: "takes s ar da x' c" and m: "reply_to m ac d rv a' x'"
    and len: "length a' = length a" "a' \<noteq> []" "24 + length a' + length x' < MSG_MAX"
  shows "message_in m (sent s mt acc ac d ar sz da dsz a x) = Inr ((), completed (handed (sent s mt acc ac d ar sz da dsz a x) m)
    acc (busy_acc s ac) (next_addr s) (sent_req mt ac d ar sz da dsz) [] (if x' = [] then [] else c) (access_id ac) rv a' x'
    (Suc (Suc (Suc (Suc (next_addr s))))))"
proof -
  let ?u = "sent s mt acc ac d ar sz da dsz a x" and ?copy = "Suc (Suc (Suc (Suc (next_addr s))))"
  note mm = mem_avail8[OF asksD(17)[OF k]]
  obtain pad where pad: "payload m = fo_wire (access_id ac) rv a' x' @ pad" and pid: "nlmsg_pid m = nlpid d"
    and req: "fo_request m" and sq: "nlmsg_seq m = curseq d + 1" using m by (auto simp: reply_to_def)
  have at: "attached ?u (nlmsg_pid m) (nddata ac) (busy_dev d) (access_id ac) acc"
    using clientD(1)[OF sent_client[OF cl k]] pid by simp
  have "client (handed ?u m) (nlmsg_pid m) (nddata ac) (busy_dev d) (access_id ac) acc"
    using sent_handed_client[OF cl k] pid by simp
  then have "fo_recv ?copy (handed ?u m) = Inr (0, completed (handed ?u m) acc (busy_acc s ac) (next_addr s) (sent_req mt ac d ar sz da dsz) []
      (if x' = [] then [] else c) (access_id ac) rv a' x' ?copy)"
    by (rule recv_complete_run[OF _ sent_waiting[OF k t] _ _ pad]) (use sq len t in \<open>auto simp: sent_req_def takes_def\<close>)
  moreover have "message_in m ?u = bindK (fo_recv ?copy) (\<lambda>_. returnK ()) (handed ?u m)"
    using message_in_run[OF at req] mm asksD(18)[OF k] by simp
  ultimately show ?thesis by (simp add: bindK_Inr[where m = "fo_recv ?copy"] returnK_def del: handed_simps)
qed

lemma send_out_run:
  assumes "0 < acc" "heap s acc = Some (OAcc ac)" "0 < nddata ac" "heap s (nddata ac) = Some (ODev d)" "0 < queue_pool d"
    and "heap s (queue_pool d) = Some OPool" "0 < req" "heap s req = Some (OReq r)" "0 < buff" "heap s buff = Some (OBuf b)"
    and "mt \<noteq> MSGT_FO_RELEASE"
  shows "fo_send_out mt acc buff req rv s = Inr (rv, s\<lparr>heap := (heap s)(buff := None, nddata ac \<mapsto> ODev (d\<lparr>users := users d - 1\<rparr>),
    req := None)\<rparr>)"
proof -
  have ne: "acc \<noteq> buff" "nddata ac \<noteq> buff" "queue_pool d \<noteq> buff" "queue_pool d \<noteq> nddata ac" "req \<noteq> buff" "req \<noteq> nddata ac"
    "queue_pool d \<noteq> req"
    by (rule heap_neq[OF assms(2,10)], simp, rule heap_neq[OF assms(4,10)], simp, rule heap_neq[OF assms(6,10)], simp,
        rule heap_neq[OF assms(6,4)], simp, rule heap_neq[OF assms(8,10)], simp, rule heap_neq[OF assms(8,4)], simp,
        rule heap_neq[OF assms(6,8)], simp)
  show ?thesis
    using assms(1,3,5,7,9,11) by (simp add: fo_send_out_def kflow kmem_cache_free_def ndmgm_put_def assms(2,4,6,8,10) ne)
qed

text \<open>What the caller finds after a reply: its buffers filled, the device's counter advanced.\<close>

definition replied_heap :: "kst \<Rightarrow> addr \<Rightarrow> netdev_data \<Rightarrow> addr \<Rightarrow> byte list \<Rightarrow> addr \<Rightarrow> byte list \<Rightarrow> byte list \<Rightarrow> addr \<Rightarrow> obj option" where
  "replied_heap s nd d ar a da x c = (let h = (heap s)(nd \<mapsto> ODev (d\<lparr>curseq := curseq d + 1\<rparr>), ar \<mapsto> OBuf a) in
     if x = [] then h else h(da \<mapsto> OBuf (x @ drop (length x) c)))"

text \<open>The state after the completion, seen from the waiting \<open>fo_send\<close>.\<close>

definition replied :: "kst \<Rightarrow> nat \<Rightarrow> addr \<Rightarrow> fo_access \<Rightarrow> netdev_data \<Rightarrow> addr \<Rightarrow> i64 \<Rightarrow> addr \<Rightarrow> i64 \<Rightarrow> byte list \<Rightarrow> byte list \<Rightarrow> nlmsg \<Rightarrow>
    byte list \<Rightarrow> i32 \<Rightarrow> byte list \<Rightarrow> byte list \<Rightarrow> kst" where
  "replied s mt acc ac d ar sz da dsz a x m c rv a' x' = completed (handed (sent s mt acc ac d ar sz da dsz a x) m)
    acc (busy_acc s ac) (next_addr s) (sent_req mt ac d ar sz da dsz) [] (if x' = [] then [] else c) (access_id ac) rv a' x'
    (Suc (Suc (Suc (Suc (next_addr s)))))"

definition done_req :: "nat \<Rightarrow> fo_access \<Rightarrow> netdev_data \<Rightarrow> addr \<Rightarrow> i64 \<Rightarrow> addr \<Rightarrow> i64 \<Rightarrow> i32 \<Rightarrow> byte list \<Rightarrow> byte list \<Rightarrow> fo_req" where
  "done_req mt ac d ar sz da dsz rv a' x' = (reply_req (sent_req mt ac d ar sz da dsz) (access_id ac) rv a' x')\<lparr>comp_done := True\<rparr>"

lemma replied_heap_eq:
  assumes k: "asks s acc ac d ar sz da dsz a x" and t: "takes s ar da x' c"
  shows "heap (replied s mt acc ac d ar sz da dsz a x m c rv a' x') = (replied_heap s (nddata ac) d ar a' da x' c)
    (nddata ac \<mapsto> ODev (busy_dev d), next_addr s \<mapsto> OReq (done_req mt ac d ar sz da dsz rv a' x'),
     Suc (next_addr s) \<mapsto> OBuf (fo_wire (access_id ac) (- 1) a x))" (is "?l = ?r")
proof
  fix p
  note o = asksD[OF k] and ps = asks_pos[OF k] and ne = asks_ne[OF k] and fr = fresh_heap[OF asksD(1)[OF k]]
  have gone: "heap s (Suc (Suc (Suc (Suc (next_addr s))))) = None" using heap_ok_less[OF o(1)] by fastforce
  have ac: "(busy_acc s ac)\<lparr>fo_queue := []\<rparr> = ac" using o(8) by simp
  have sr: "args (sent_req mt ac d ar sz da dsz) = ar" "data (sent_req mt ac d ar sz da dsz) = da" by (simp_all add: sent_req_def)
  show "?l p = ?r p"
    unfolding replied_def completed_def replied_heap_def Let_def done_req_def sr ac
    using ps ne takesD[OF t k] o(2) gone
    by (cases "x' = []") (auto simp: sent_def Let_def fun_upd_apply)
qed

text \<open>The end of \<open>fo_send\<close>: it finds its request complete and releases what it had.\<close>

lemma replied_finish_run:
  assumes k: "asks s acc ac d ar sz da dsz a x" and t: "takes s ar da x' c" and mt: "mt \<noteq> MSGT_FO_RELEASE"
  shows "\<exists>t. thenK (wait_for_completion (next_addr s)) (bindK (get_req (next_addr s)) (\<lambda>r.
      fo_send_out mt acc (Suc (next_addr s)) (next_addr s) (rvalue r))) (replied s mt acc ac d ar sz da dsz a x m c rv a' x') = Inr (rv, t) \<and>
    heap t = replied_heap s (nddata ac) d ar a' da x' c \<and> trace t = trace (replied s mt acc ac d ar sz da dsz a x m c rv a' x') \<and>
    same_globals s t \<and> ext_ret t = ext_ret s"
proof -
  note o = asksD[OF k] and p = asks_pos[OF k] and ne = asks_ne[OF k] and fr = fresh_heap[OF asksD(1)[OF k]]
  let ?q = "next_addr s" and ?v = "replied s mt acc ac d ar sz da dsz a x m c rv a' x'" and ?nd = "nddata ac"
  let ?r = "done_req mt ac d ar sz da dsz rv a' x'" and ?w = "fo_wire (access_id ac) (- 1) a x"
  note hv = replied_heap_eq[OF k t, of mt m rv a']
  have at: "heap ?v acc = Some (OAcc ac)" "heap ?v ?nd = Some (ODev (busy_dev d))" "heap ?v (queue_pool d) = Some OPool"
    "heap ?v ?q = Some (OReq ?r)" "heap ?v (Suc ?q) = Some (OBuf ?w)"
    unfolding hv using p ne takesD[OF t k] o(2,6) by (cases "x' = []"; simp add: replied_heap_def Let_def)+
  let ?t = "?v\<lparr>heap := (heap ?v)(Suc ?q := None, ?nd \<mapsto> ODev ((busy_dev d)\<lparr>users := users (busy_dev d) - 1\<rparr>), ?q := None)\<rparr>"
  have out: "fo_send_out mt acc (Suc ?q) ?q rv ?v = Inr (rv, ?t)"
    using send_out_run[where d = "busy_dev d" and r = ?r and b = ?w and rv = rv, OF p(1) at(1) p(2) at(2) _ _ p(4) at(4) _ at(5) mt] p(3) at(3)
    by simp
  have get: "get_req ?q ?v = Inr (?r, ?v)" using p(4) at(4) by (rule req_of)
  have rv: "rvalue ?r = rv" "comp_done ?r" by (simp_all add: done_req_def reply_req_def with_header_def)
  have run: "thenK (wait_for_completion ?q) (bindK (get_req ?q) (\<lambda>r. fo_send_out mt acc (Suc ?q) ?q (rvalue r))) ?v = Inr (rv, ?t)"
    using rv out unfolding wait_for_completion_def
    by (simp add: thenK_def bindK_Inr[where m = "get_req ?q"] get bindK_Inr[where m = "bindK (get_req q) f" for q f] returnK_def
        del: rv(1))
  have d: "(busy_dev d)\<lparr>users := users (busy_dev d) - 1\<rparr> = d\<lparr>curseq := curseq d + 1\<rparr>" by (cases d) simp
  let ?h = "replied_heap s ?nd d ar a' da x' c"
  have "?h ?q = None" "?h (Suc ?q) = None" "?h ?nd = Some (ODev (d\<lparr>curseq := curseq d + 1\<rparr>))"
    using fr(1,2) p ne takesD[OF t k] by (cases "x' = []"; simp add: replied_heap_def Let_def)+
  then have "heap ?t = ?h" by (simp add: hv d fun_eq_iff)
  moreover have "same_globals s ?t" by (simp add: same_globals_def replied_def completed_def handed_def sent_def Let_def)
  ultimately show ?thesis using run by (auto simp: replied_def completed_def)
qed

lemma send_reply_run:
  assumes cl: "client s (nlpid d) (nddata ac) d (access_id ac) acc" and k: "asks s acc ac d ar sz da dsz a x"
    and t: "takes s ar da x' c" and m: "reply_to m ac d rv a' x'"
    and len: "length a' = length a" "a' \<noteq> []" "24 + length a' + length x' < MSG_MAX" and mt: "mt \<noteq> MSGT_FO_RELEASE"
  shows "\<exists>t copy. fo_send (message_in m) mt acc ar sz da dsz s = Inr (rv, t) \<and>
    heap t = replied_heap s (nddata ac) d ar a' da x' c \<and> trace t = trace s @
      [Unicast (nlpid d) (sent_msg mt ac d a x), Woken copy, Ack (nlpid d) (curseq d + 1) 0, Completed (next_addr s)] \<and>
    same_globals s t \<and> ext_ret t = ext_ret s"
proof -
  let ?v = "replied s mt acc ac d ar sz da dsz a x m c rv a' x'"
  have "message_in m (sent s mt acc ac d ar sz da dsz a x) = Inr ((), ?v)"
    using reply_in_run[OF cl k t m len, of mt] by (simp add: replied_def)
  then have "fo_send (message_in m) mt acc ar sz da dsz s = thenK (wait_for_completion (next_addr s)) (bindK (get_req (next_addr s)) (\<lambda>r.
      fo_send_out mt acc (Suc (next_addr s)) (next_addr s) (rvalue r))) ?v"
    by (simp add: send_queue_run[OF k] send_queued_run[OF k] thenK_Inr[where m = "message_in m"])
  moreover have "trace ?v = trace s @ [Unicast (nlpid d) (sent_msg mt ac d a x), Woken (Suc (Suc (Suc (Suc (next_addr s))))),
      Ack (nlpid d) (curseq d + 1) 0, Completed (next_addr s)]"
    using m by (simp add: replied_def completed_def reply_to_def)
  ultimately show ?thesis using replied_finish_run[OF k t mt, of m rv a'] by auto
qed

end
