(* ===== verification/Fo_Send.thy ===== *)
theory Fo_Send
  imports Fo_Client
begin

text \<open>
  \<open>fo_send.c\<close>: the operations of the character device a dummy device offers.  Each puts its
  arguments into a structure on its stack, sends them with \<open>fo_send\<close> and returns the result
  field of the structure, which the reply has overwritten.  The stack frame is an object of the
  heap that is released when the function returns.  \<open>filp->private_data\<close> is the parameter
  \<open>acc\<close>, and \<open>others\<close> is what other threads do while the operation waits.
\<close>

section \<open>The stack frame and the user's memory\<close>

definition local_new :: "byte list \<Rightarrow> addr kprog" where
  "local_new b s = Inr (next_addr s, s\<lparr>heap := (heap s)(next_addr s \<mapsto> OBuf b), next_addr := Suc (next_addr s)\<rparr>)"

definition with_args :: "byte list \<Rightarrow> (addr \<Rightarrow> 'a kprog) \<Rightarrow> 'a kprog" where
  "with_args b body = bindK (local_new b) (\<lambda>p. bindK (body p) (\<lambda>r. thenK (kfree p) (returnK r)))"

text \<open>
  \<open>copy_to_user\<close> and \<open>copy_from_user\<close> return how many bytes they did not copy.  A
  length of \<open>2 ^ 63\<close> or more ends outside the user's address space, so nothing is copied;
  otherwise the kernel decides how far it gets.
\<close>

definition user_stops :: "nat \<Rightarrow> nat kprog" where
  "user_stops n = bindK ext_call (\<lambda>k. returnK (min (unat k) n))"

definition copy_to_user :: "addr \<Rightarrow> i64 \<Rightarrow> i64 kprog" where
  "copy_to_user p n = (if 9223372036854775808 \<le> unat n then returnK n
     else bindK (read_mem p 0 (unat n)) (\<lambda>b. bindK (user_stops (unat n)) (\<lambda>k.
       thenK (emit (ToUser (take (unat n - k) b))) (returnK (of_nat k)))))"

text \<open>What the user's buffer holds is the parameter \<open>ubuf\<close>; the part that was not read is
  zeroed.\<close>

definition copy_from_user :: "addr \<Rightarrow> byte list \<Rightarrow> i64 \<Rightarrow> i64 kprog" where
  "copy_from_user p ubuf n = bindK (user_stops (unat n)) (\<lambda>k.
     thenK (write_mem p 0 (take (unat n - k) ubuf @ replicate k 0)) (returnK (of_nat k)))"

section \<open>Operations\<close>

definition ndfo_send_llseek :: "unit kprog \<Rightarrow> addr \<Rightarrow> i64 \<Rightarrow> i32 \<Rightarrow> i64 kprog" where
  "ndfo_send_llseek others acc offset whence = with_args (s_fo_llseek offset whence (- EIO)) (\<lambda>args.
     bindK (fo_send others MSGT_FO_LLSEEK acc args 24 NULL 0) (\<lambda>rv.
       if rv <s 0 then returnK (scast rv) else arg_get64 args 16))"

text \<open>The result is the return value and the user's new file position.\<close>

definition ndfo_send_read :: "unit kprog \<Rightarrow> addr \<Rightarrow> i64 \<Rightarrow> i64 \<Rightarrow> (i64 \<times> i64) kprog" where
  "ndfo_send_read others acc sz offset = with_args (s_fo_rw 0 sz offset (- EIO)) (\<lambda>args.
     if NETDEV_MESSAGE_LIMIT \<le> unat sz then returnK (- EINVAL, offset)
     else bindK (kalloc (OBuf (replicate (unat sz) 0))) (\<lambda>buf. thenK (arg_put64 args 0 (of_nat buf))
       (if buf = NULL then returnK (- ENOMEM, offset)
        else bindK (fo_send others MSGT_FO_READ acc args 32 buf 0) (\<lambda>rv.
          if rv <s 0 then returnK (scast rv, offset)
          else bindK (arg_get64 args 16) (\<lambda>offset. bindK (arg_get64 args 0) (\<lambda>from. bindK (arg_get64 args 24) (\<lambda>n.
            bindK (copy_to_user (unat from) n) (\<lambda>left.
              if 0 <s left then returnK (- 1, offset)
              else bindK (arg_get64 args 0) (\<lambda>buf. thenK (kfree (unat buf))
                (bindK (arg_get64 args 24) (\<lambda>ret. returnK (ret, offset))))))))))))"

text \<open>\<open>rvalue\<close> is a \<open>size_t\<close> here, so the test for a negative value after
  \<open>fo_send\<close> never succeeds.\<close>

definition ndfo_send_write :: "unit kprog \<Rightarrow> addr \<Rightarrow> byte list \<Rightarrow> i64 \<Rightarrow> i64 \<Rightarrow> (i64 \<times> i64) kprog" where
  "ndfo_send_write others acc ubuf sz offset = with_args (s_fo_rw 0 sz offset (- EIO)) (\<lambda>args.
     if NETDEV_MESSAGE_LIMIT \<le> unat sz then returnK (- EINVAL, offset)
     else bindK (kalloc (OBuf (replicate (unat sz) 0))) (\<lambda>buf. thenK (arg_put64 args 0 (of_nat buf))
       (if buf = NULL then returnK (- ENOMEM, offset)
        else bindK (arg_get64 args 16) (\<lambda>offset. bindK (copy_from_user buf ubuf sz) (\<lambda>left.
          if 0 < unat left then returnK (- EIO, offset)
          else bindK (fo_send others MSGT_FO_WRITE acc args 32 buf sz) (\<lambda>_.
            bindK (arg_get64 args 0) (\<lambda>buf. thenK (kfree (unat buf))
              (bindK (arg_get64 args 24) (\<lambda>ret. returnK (ret, offset))))))))))"

definition ndfo_send_unlocked_ioctl :: "unit kprog \<Rightarrow> addr \<Rightarrow> i32 \<Rightarrow> i64 \<Rightarrow> i64 kprog" where
  "ndfo_send_unlocked_ioctl others acc cmd arg = with_args (s_fo_ioctl cmd arg (- EIO)) (\<lambda>args.
     bindK (fo_send others MSGT_FO_UNLOCKED_IOCTL acc args 24 NULL 0) (\<lambda>rv.
       if rv <s 0 then returnK (scast rv) else arg_get64 args 16))"

definition ndfo_send_compat_ioctl :: "unit kprog \<Rightarrow> addr \<Rightarrow> i32 \<Rightarrow> i64 \<Rightarrow> i64 kprog" where
  "ndfo_send_compat_ioctl others acc cmd arg = with_args (s_fo_ioctl cmd arg (- EIO)) (\<lambda>args.
     bindK (fo_send others MSGT_FO_COMPAT_IOCTL acc args 24 NULL 0) (\<lambda>rv.
       if rv <s 0 then returnK (scast rv) else arg_get64 args 16))"

text \<open>\<open>open\<close> also sets \<open>filp->private_data\<close>, returned with the result.\<close>

definition ndfo_send_open :: "unit kprog \<Rightarrow> i32 \<Rightarrow> nat \<Rightarrow> addr \<Rightarrow> (i32 \<times> addr) kprog" where
  "ndfo_send_open others pid minor private = with_args (s_fo_open 0 (- EIO)) (\<lambda>args.
     bindK (ndmgm_find_pid minor) (\<lambda>owner. bindK (ndmgm_find owner) (\<lambda>nd. bindK (fo_acc_start nd pid) (\<lambda>acc.
       if acc = NULL then returnK (- ENOMEM, private)
       else bindK (fo_send others MSGT_FO_OPEN acc args 16 NULL 0) (\<lambda>rv.
         if rv <s 0 then returnK (rv, acc)
         else bindK (arg_get32 args 8) (\<lambda>r. returnK (r, acc)))))))"

definition ndfo_send_flush :: "unit kprog \<Rightarrow> addr \<Rightarrow> i32 kprog" where
  "ndfo_send_flush others acc = with_args (s_fo_flush (- EIO)) (\<lambda>args.
     bindK (fo_send others MSGT_FO_FLUSH acc args 4 NULL 0) (\<lambda>rv.
       if rv <s 0 then returnK rv else arg_get32 args 0))"

definition ndfo_send_release :: "unit kprog \<Rightarrow> addr \<Rightarrow> i32 kprog" where
  "ndfo_send_release others acc = with_args (s_fo_flush (- EIO)) (\<lambda>args.
     bindK (fo_send others MSGT_FO_RELEASE acc args 4 NULL 0) (\<lambda>rv.
       if rv <s 0 then returnK rv else arg_get32 args 0))"

text \<open>Operations that are not forwarded.\<close>

definition ndfo_send_aio_read :: i64 where "ndfo_send_aio_read = - EIO"
definition ndfo_send_aio_write :: i64 where "ndfo_send_aio_write = - EIO"
definition ndfo_send_poll :: i32 where "ndfo_send_poll = - EIO"
definition ndfo_send_mmap :: i32 where "ndfo_send_mmap = - EIO"
definition ndfo_send_fsync :: i32 where "ndfo_send_fsync = - EIO"
definition ndfo_send_aio_fsync :: i32 where "ndfo_send_aio_fsync = - EIO"
definition ndfo_send_fasync :: i32 where "ndfo_send_fasync = - EIO"
definition ndfo_send_lock :: i32 where "ndfo_send_lock = - EIO"
definition ndfo_send_sendpage :: i64 where "ndfo_send_sendpage = - EIO"
definition ndfo_send_get_unmapped_area :: i64 where "ndfo_send_get_unmapped_area = - EIO"
definition ndfo_send_check_flags :: i32 where "ndfo_send_check_flags = - EIO"
definition ndfo_send_flock :: i32 where "ndfo_send_flock = - EIO"
definition ndfo_send_splice_write :: i64 where "ndfo_send_splice_write = - EIO"
definition ndfo_send_splice_read :: i64 where "ndfo_send_splice_read = - EIO"
definition ndfo_send_setlease :: i32 where "ndfo_send_setlease = - EIO"
definition ndfo_send_fallocate :: i64 where "ndfo_send_fallocate = - EIO"
definition ndfo_send_show_fdinfo :: i32 where "ndfo_send_show_fdinfo = - EIO"

text \<open>
  The table \<open>netdev_fops\<close>, a \<open>struct file_operations\<close>: in every slot the handler, or nothing where
  the table has \<open>NULL\<close>.  The operations that are not forwarded are their results.
\<close>

record file_operations =
  fops_llseek :: "(unit kprog \<Rightarrow> addr \<Rightarrow> i64 \<Rightarrow> i32 \<Rightarrow> i64 kprog) option"
  fops_read :: "(unit kprog \<Rightarrow> addr \<Rightarrow> i64 \<Rightarrow> i64 \<Rightarrow> (i64 \<times> i64) kprog) option"
  fops_write :: "(unit kprog \<Rightarrow> addr \<Rightarrow> byte list \<Rightarrow> i64 \<Rightarrow> i64 \<Rightarrow> (i64 \<times> i64) kprog) option"
  fops_aio_read :: "i64 option"
  fops_aio_write :: "i64 option"
  fops_readdir :: "i32 option"
  fops_poll :: "i32 option"
  fops_unlocked_ioctl :: "(unit kprog \<Rightarrow> addr \<Rightarrow> i32 \<Rightarrow> i64 \<Rightarrow> i64 kprog) option"
  fops_compat_ioctl :: "(unit kprog \<Rightarrow> addr \<Rightarrow> i32 \<Rightarrow> i64 \<Rightarrow> i64 kprog) option"
  fops_mmap :: "i32 option"
  fops_open :: "(unit kprog \<Rightarrow> i32 \<Rightarrow> nat \<Rightarrow> addr \<Rightarrow> (i32 \<times> addr) kprog) option"
  fops_flush :: "(unit kprog \<Rightarrow> addr \<Rightarrow> i32 kprog) option"
  fops_release :: "(unit kprog \<Rightarrow> addr \<Rightarrow> i32 kprog) option"
  fops_fsync :: "i32 option"
  fops_aio_fsync :: "i32 option"
  fops_fasync :: "i32 option"
  fops_lock :: "i32 option"
  fops_sendpage :: "i64 option"
  fops_get_unmapped_area :: "i64 option"
  fops_check_flags :: "i32 option"
  fops_flock :: "i32 option"
  fops_splice_write :: "i64 option"
  fops_splice_read :: "i64 option"
  fops_setlease :: "i32 option"
  fops_fallocate :: "i64 option"
  fops_show_fdinfo :: "i32 option"

definition netdev_fops :: file_operations where
  "netdev_fops = \<lparr>
     fops_llseek = Some ndfo_send_llseek,
     fops_read = Some ndfo_send_read,
     fops_write = Some ndfo_send_write,
     fops_aio_read = None,
     fops_aio_write = None,
     fops_readdir = None,
     fops_poll = Some ndfo_send_poll,
     fops_unlocked_ioctl = Some ndfo_send_unlocked_ioctl,
     fops_compat_ioctl = Some ndfo_send_compat_ioctl,
     fops_mmap = None,
     fops_open = Some ndfo_send_open,
     fops_flush = None,
     fops_release = Some ndfo_send_release,
     fops_fsync = Some ndfo_send_fsync,
     fops_aio_fsync = None,
     fops_fasync = Some ndfo_send_fasync,
     fops_lock = None,
     fops_sendpage = None,
     fops_get_unmapped_area = None,
     fops_check_flags = Some ndfo_send_check_flags,
     fops_flock = Some ndfo_send_flock,
     fops_splice_write = None,
     fops_splice_read = None,
     fops_setlease = Some ndfo_send_setlease,
     fops_fallocate = Some ndfo_send_fallocate,
     fops_show_fdinfo = Some ndfo_send_show_fdinfo\<rparr>"

lemma s_fo_nonempty [simp]:
  "s_fo_llseek o1 w r \<noteq> []" "s_fo_rw p n o2 r \<noteq> []" "s_fo_ioctl c a r \<noteq> []" "s_fo_open i e \<noteq> []" "s_fo_flush e \<noteq> []"
  using s_fo_lengths by (metis list.size(3) zero_neq_numeral)+

lemma bindK_thenK: "bindK (thenK m n) f = thenK m (bindK n f)"
  by (simp add: thenK_def bindK_assoc)

section \<open>Running an operation up to its reply\<close>

lemma mem_avail_later:
  assumes "mem_avail s N" "alloc_ok t = alloc_ok s" "tick t = tick s + i" "next_addr t = next_addr s + j" "n + i \<le> N" "n + j \<le> N"
  shows "mem_avail t n"
  unfolding mem_avail_def
proof (intro conjI allI impI)
  fix k assume "k < n"
  then have "i + k < N" using assms(5) by linarith
  then show "alloc_ok t (tick t + k)" using assms(1-3) by (simp add: mem_avail_def add.assoc)
next
  show "next_addr t + n < ADDR_LIMIT" using assms(1,4,6) by (simp add: mem_avail_def)
qed

text \<open>A stack frame does not disturb the file or the device.\<close>

definition framed :: "kst \<Rightarrow> byte list \<Rightarrow> kst" where
  "framed s b = s\<lparr>heap := (heap s)(next_addr s \<mapsto> OBuf b), next_addr := Suc (next_addr s)\<rparr>"

lemma framed_simps [simp]:
  "tick (framed s b) = tick s" "next_addr (framed s b) = Suc (next_addr s)" "alloc_ok (framed s b) = alloc_ok s"
  "ext_ret (framed s b) = ext_ret s" "trace (framed s b) = trace s"
  "heap (framed s b) = (heap s)(next_addr s \<mapsto> OBuf b)"
  by (simp_all add: framed_def)

lemma framed_ok: "heap_ok s \<Longrightarrow> heap_ok (framed s b)"
  by (rule heap_ok_grow) (auto simp: framed_def split: if_splits)

lemma framed_old: "heap_ok s \<Longrightarrow> heap s p = Some v \<Longrightarrow> heap (framed s b) p = Some v \<and> p \<noteq> next_addr s"
  using heap_ok_less by fastforce

lemma framed_same: "heap_ok s \<Longrightarrow> same_index s (framed s b)"
  using framed_old unfolding same_index_def by (auto simp: framed_def)

lemma framed_client:
  assumes "client s pid nd d aid acc" "next_addr s < ADDR_LIMIT"
  shows "client (framed s b) pid nd d aid acc"
  using client_same[OF assms(1) framed_same framed_ok] clientD(3,4)[OF assms(1)] framed_old assms(2) by simp

lemma framed_idle: "idle s acc ac d \<Longrightarrow> idle (framed s b) acc ac d"
  using framed_old[of s] framed_ok[of s b] unfolding idle_def by blast

lemma same_globals_framed: "same_globals (framed s b) t \<Longrightarrow> same_globals s t"
  by (simp add: same_globals_def framed_def)

text \<open>What the caller needs for an operation to be answered, and what the answer leaves behind.\<close>

definition ready :: "kst \<Rightarrow> addr \<Rightarrow> fo_access \<Rightarrow> netdev_data \<Rightarrow> bool" where
  "ready s acc ac d \<longleftrightarrow> client s (nlpid d) (nddata ac) d (access_id ac) acc \<and> idle s acc ac d \<and> mem_avail s 10 \<and>
     (\<forall>i. ext_ret s i = 0)"

definition answered :: "kst \<Rightarrow> fo_access \<Rightarrow> netdev_data \<Rightarrow> nat \<Rightarrow> byte list \<Rightarrow> byte list \<Rightarrow> kevent list \<Rightarrow> kst \<Rightarrow> bool" where
  "answered s ac d mt a x rest t \<longleftrightarrow> heap t = (heap s)(nddata ac \<mapsto> ODev (d\<lparr>curseq := curseq d + 1\<rparr>)) \<and> same_globals s t \<and>
     (\<exists>copy req. trace t = trace s @
       [Unicast (nlpid d) (sent_msg mt ac d a x), Woken copy, Ack (nlpid d) (curseq d + 1) 0, Completed req] @ rest)"

lemma framed_send:
  assumes rd: "ready s acc ac d"
    and m: "reply_to m ac d rv a' []" and len: "length a' = length a" "a \<noteq> []" "length a < 1000" "sz = of_nat (length a)"
    and mt: "mt \<noteq> MSGT_FO_RELEASE"
  shows "\<exists>t copy req. fo_send (message_in m) mt acc (next_addr s) sz NULL 0 (framed s a) = Inr (rv, t) \<and>
    heap t = (heap s)(nddata ac \<mapsto> ODev (d\<lparr>curseq := curseq d + 1\<rparr>), next_addr s \<mapsto> OBuf a') \<and> same_globals s t \<and>
    trace t = trace s @ [Unicast (nlpid d) (sent_msg mt ac d a []), Woken copy, Ack (nlpid d) (curseq d + 1) 0, Completed req]"
proof -
  have r: "client s (nlpid d) (nddata ac) d (access_id ac) acc" "idle s acc ac d" "mem_avail s 10" "\<And>i. ext_ret s i = 0"
    using rd by (simp_all add: ready_def)
  have ok: "heap_ok s" using r(2) by (simp add: idle_def)
  have mem: "mem_avail (framed s a) 8" by (rule mem_avail_later[OF r(3), where i = 0 and j = 1]) simp_all
  have lim: "next_addr s < ADDR_LIMIT" using r(3) by (simp add: mem_avail_def)
  have "op_bufs (framed s a) (next_addr s) sz NULL 0 a []"
    using fresh_heap(5)[OF ok] len(3,4) by (simp add: op_bufs_def unsigned_of_nat take_bit_nat_eq_self)
  then have asks: "asks (framed s a) acc ac d (next_addr s) sz NULL 0 a []"
    using framed_idle[OF r(2)] mem r(4) by (simp add: asks_def)
  have "\<exists>t copy. fo_send (message_in m) mt acc (next_addr s) sz NULL 0 (framed s a) = Inr (rv, t) \<and>
    heap t = replied_heap (framed s a) (nddata ac) d (next_addr s) a' NULL [] [] \<and> trace t = trace (framed s a) @
      [Unicast (nlpid d) (sent_msg mt ac d a []), Woken copy, Ack (nlpid d) (curseq d + 1) 0, Completed (next_addr (framed s a))] \<and>
    same_globals (framed s a) t \<and> ext_ret t = ext_ret (framed s a)"
    using len by (intro send_reply_run[OF framed_client[OF r(1) lim] asks _ m _ _ _ mt]) (auto simp: takes_def MSG_MAX_def)
  moreover have "nddata ac \<noteq> next_addr s" using framed_old[OF ok clientD(3)[OF r(1)]] by simp
  ultimately show ?thesis
    by (auto simp: replied_heap_def fun_upd_twist same_globals_framed)
qed

lemma with_args_reply:
  assumes "ready s acc ac d"
    and "reply_to m ac d rv a' []" "length a' = length a" "a \<noteq> []" "length a < 1000" "sz = of_nat (length a)" "mt \<noteq> MSGT_FO_RELEASE"
    and rest: "\<And>t. heap t (next_addr s) = Some (OBuf a') \<Longrightarrow> rest (next_addr s) rv t = Inr (r, t)"
  shows "\<exists>t. with_args a (\<lambda>p. bindK (fo_send (message_in m) mt acc p sz NULL 0) (rest p)) s = Inr (r, t) \<and>
    answered s ac d mt a [] [] t"
proof -
  obtain t copy req where t: "fo_send (message_in m) mt acc (next_addr s) sz NULL 0 (framed s a) = Inr (rv, t)"
    "heap t = (heap s)(nddata ac \<mapsto> ODev (d\<lparr>curseq := curseq d + 1\<rparr>), next_addr s \<mapsto> OBuf a')" "same_globals s t"
    "trace t = trace s @ [Unicast (nlpid d) (sent_msg mt ac d a []), Woken copy, Ack (nlpid d) (curseq d + 1) 0, Completed req]"
    using framed_send[OF assms(1-7)] by blast
  have ok: "heap_ok s" "heap s (nddata ac) = Some (ODev d)" using assms(1) by (simp_all add: ready_def idle_def)
  note fr = fresh_heap[OF ok(1)]
  have ne: "nddata ac \<noteq> next_addr s" using framed_old[OF ok] by simp
  have new: "local_new a s = Inr (next_addr s, framed s a)" by (simp add: local_new_def framed_def)
  have at: "heap t (next_addr s) = Some (OBuf a')" using t(2) by simp
  have free: "kfree (next_addr s) t = Inr ((), t\<lparr>heap := (heap t)(next_addr s := None)\<rparr>)" using fr(5) at by simp
  have h: "(heap t)(next_addr s := None) = (heap s)(nddata ac \<mapsto> ODev (d\<lparr>curseq := curseq d + 1\<rparr>))"
    using ne fr(1) unfolding t(2) by (auto simp: fun_eq_iff)
  have "with_args a (\<lambda>p. bindK (fo_send (message_in m) mt acc p sz NULL 0) (rest p)) s =
    Inr (r, t\<lparr>heap := (heap t)(next_addr s := None)\<rparr>)"
    by (simp add: with_args_def bindK_Inr[where m = "local_new a"] new bindK_assoc
        bindK_Inr[where m = "fo_send (message_in m) mt acc (next_addr s) sz NULL 0"] t(1)
        bindK_Inr[where m = "rest (next_addr s) rv"] rest[OF at] thenK_Inr[where m = "kfree (next_addr s)"] free
        returnK_def del: fun_upd_apply)
  moreover have "answered s ac d mt a [] [] (t\<lparr>heap := (heap t)(next_addr s := None)\<rparr>)"
    using t(3,4) by (auto simp: answered_def h same_globals_def)
  ultimately show ?thesis by blast
qed

text \<open>A state with more memory in use serves the same file.\<close>

lemma client_grow:
  assumes "client s pid nd d aid acc" "heap_ok t" "next_addr t \<le> ADDR_LIMIT" "\<And>p v. heap s p = Some v \<Longrightarrow> heap t p = Some v"
    and "hash_min t = hash_min s" "netdev_htable t = netdev_htable s" "netdev_htable_sem t = netdev_htable_sem s"
  shows "client t pid nd d aid acc"
proof -
  have "same_index s t" using assms(4-7) unfolding same_index_def by blast
  with client_same[OF assms(1) _ assms(2,3)] clientD(3)[OF assms(1)] assms(4) show ?thesis by blast
qed

lemma idle_grow:
  assumes "idle s acc ac d" "heap_ok t" "\<And>p v. heap s p = Some v \<Longrightarrow> heap t p = Some v"
  shows "idle t acc ac d"
  using assms unfolding idle_def by blast

text \<open>The value that \<open>copy_to_user\<close> answers for a length, and what the user sees.\<close>

definition user_sees :: "i64 \<Rightarrow> byte list \<Rightarrow> kevent list" where
  "user_sees n x = (if n <s 0 then [] else [ToUser (take (unat n) x)])"

lemma neg_unat: "(n :: i64) <s 0 \<longleftrightarrow> 9223372036854775808 \<le> unat n"
proof -
  have u: "unat n < 18446744073709551616" using unsigned_less[of n, where 'a = nat] by simp
  have "n <s 0 \<longleftrightarrow> bit n 63"
    by (simp add: word_sless_alt sint_uint bit_uint_iff)
  also have "\<dots> \<longleftrightarrow> odd (unat n div 9223372036854775808)"
    using bit_unsigned_iff[of n 63, where 'a = nat] by (simp add: bit_iff_odd[of "unat n"])
  also have "\<dots> \<longleftrightarrow> 9223372036854775808 \<le> unat n"
  proof (cases "9223372036854775808 \<le> unat n")
    case True
    then have "unat n div 9223372036854775808 = 1" using u by (intro div_nat_eqI) simp_all
    then show ?thesis using True by simp
  qed simp
  finally show ?thesis .
qed

lemma addr_unat: "p < ADDR_LIMIT \<Longrightarrow> unat (of_nat p :: i64) = p"
  by (simp add: unsigned_of_nat take_bit_nat_eq_self ADDR_LIMIT_def)

lemma copy_to_user_run:
  assumes "0 < p" "heap s p = Some (OBuf b)" "\<not> n <s 0 \<Longrightarrow> unat n \<le> length b" "\<And>i. ext_ret s i = 0"
  shows "copy_to_user p n s = Inr (if n <s 0 then n else 0,
    s\<lparr>tick := (if n <s 0 then tick s else Suc (tick s)), trace := trace s @ user_sees n b\<rparr>)"
proof (cases "n <s 0")
  case True
  then show ?thesis by (simp add: copy_to_user_def user_sees_def neg_unat[symmetric] returnK_def)
next
  case False
  then have "read_mem p 0 (unat n) s = Inr (take (unat n) b, s)" using read_mem_run[OF assms(1,2)] assms(3) by simp
  with False show ?thesis
    by (simp add: copy_to_user_def user_sees_def neg_unat[symmetric] bindK_Inr[where m = "read_mem p 0 (unat n)"]
        user_stops_def ext_call_def kflow assms(4))
qed

text \<open>
  The frame of \<open>read\<close> and \<open>write\<close>: the arguments, and the kernel buffer whose address they hold.
\<close>

definition rw_frame :: "kst \<Rightarrow> byte list \<Rightarrow> byte list \<Rightarrow> nat \<Rightarrow> kst" where
  "rw_frame c a z k = c\<lparr>heap := (heap c)(next_addr c \<mapsto> OBuf a, Suc (next_addr c) \<mapsto> OBuf z),
     next_addr := Suc (Suc (next_addr c)), tick := tick c + k\<rparr>"

definition rw_args :: "kst \<Rightarrow> i64 \<Rightarrow> i64 \<Rightarrow> byte list" where
  "rw_args c sz off = s_fo_rw (of_nat (Suc (next_addr c))) sz off (- EIO)"

lemma rw_frame_simps [simp]:
  "next_addr (rw_frame c a z k) = Suc (Suc (next_addr c))" "tick (rw_frame c a z k) = tick c + k"
  "alloc_ok (rw_frame c a z k) = alloc_ok c" "ext_ret (rw_frame c a z k) = ext_ret c" "trace (rw_frame c a z k) = trace c"
  "heap (rw_frame c a z k) = (heap c)(next_addr c \<mapsto> OBuf a, Suc (next_addr c) \<mapsto> OBuf z)"
  by (simp_all add: rw_frame_def)

definition frame_ok :: "kst \<Rightarrow> bool" where
  "frame_ok c \<longleftrightarrow> heap_ok c \<and> alloc_ok c (tick c) \<and> Suc (Suc (next_addr c)) < ADDR_LIMIT"

lemma rw_frame_start:
  assumes ok: "frame_ok c"
  shows "local_new (s_fo_rw 0 sz off (- EIO)) c = Inr (next_addr c, framed c (s_fo_rw 0 sz off (- EIO)))"
    "bindK (kalloc (OBuf z)) (\<lambda>b. thenK (arg_put64 (next_addr c) 0 (of_nat b)) (f b)) (framed c (s_fo_rw 0 sz off (- EIO))) =
      f (Suc (next_addr c)) (rw_frame c (rw_args c sz off) z (Suc 0))"
proof -
  have "can_alloc (framed c (s_fo_rw 0 sz off (- EIO)))" using ok by (simp add: can_alloc_def frame_ok_def)
  then show "bindK (kalloc (OBuf z)) (\<lambda>b. thenK (arg_put64 (next_addr c) 0 (of_nat b)) (f b)) (framed c (s_fo_rw 0 sz off (- EIO))) =
      f (Suc (next_addr c)) (rw_frame c (rw_args c sz off) z (Suc 0))"
    using ok fresh_heap(5)[of c]
    by (simp add: bindK_def kalloc_def thenK_def arg_put64_run framed_def rw_frame_def rw_args_def fun_upd_twist frame_ok_def)
qed (simp add: local_new_def framed_def)

lemma ready_frame_ok: "ready c acc ac d \<Longrightarrow> frame_ok c"
  using mem_availD[of c 10 0] by (auto simp: ready_def idle_def frame_ok_def mem_avail_def)

lemma ready_facts:
  assumes rd: "ready c acc ac d"
  shows "client c (nlpid d) (nddata ac) d (access_id ac) acc" "idle c acc ac d" "mem_avail c 10"
    "nddata ac \<noteq> next_addr c" "nddata ac \<noteq> Suc (next_addr c)"
    "0 < next_addr c" "heap c (next_addr c) = None" "heap c (Suc (next_addr c)) = None"
    "unat (of_nat (Suc (next_addr c)) :: i64) = Suc (next_addr c)" "heap_ok c" "\<And>i. ext_ret c i = 0"
proof -
  show r: "client c (nlpid d) (nddata ac) d (access_id ac) acc" "idle c acc ac d" "mem_avail c 10"
    using rd by (simp_all add: ready_def)
  show "ext_ret c i = 0" for i using rd by (simp add: ready_def)
  show ok: "heap_ok c" using r(2) by (simp add: idle_def)
  note fr = fresh_heap[OF ok]
  show "0 < next_addr c" "heap c (next_addr c) = None" "heap c (Suc (next_addr c)) = None" by (rule fr)+
  have "Suc (next_addr c) < ADDR_LIMIT" using r(3) by (simp add: mem_avail_def)
  then show "unat (of_nat (Suc (next_addr c)) :: i64) = Suc (next_addr c)" by (rule addr_unat)
  show "nddata ac \<noteq> next_addr c" "nddata ac \<noteq> Suc (next_addr c)" using clientD(3)[OF r(1)] fr(1,2) by auto
qed

lemma rw_frame_ready:
  assumes rd: "ready c acc ac d" and k: "k \<le> 2"
  shows "client (rw_frame c a z k) (nlpid d) (nddata ac) d (access_id ac) acc" "idle (rw_frame c a z k) acc ac d"
    "mem_avail (rw_frame c a z k) 8"
proof -
  note r = ready_facts[OF rd]
  note fr = fresh_heap[OF r(10)]
  have lim: "Suc (Suc (next_addr c)) < ADDR_LIMIT" using r(3) by (simp add: mem_avail_def)
  have ok': "heap_ok (rw_frame c a z k)" by (rule heap_ok_grow[OF r(10)]) (auto split: if_splits)
  have old: "heap (rw_frame c a z k) p = Some v" if "heap c p = Some v" for p v using that fr by auto
  show "client (rw_frame c a z k) (nlpid d) (nddata ac) d (access_id ac) acc"
    by (rule client_grow[OF r(1) ok' _ old]) (use lim in \<open>simp_all\<close>, simp_all add: rw_frame_def)
  show "idle (rw_frame c a z k) acc ac d" by (rule idle_grow[OF r(2) ok' old])
  show "mem_avail (rw_frame c a z k) 8" by (rule mem_avail_later[OF r(3), where i = k and j = 2]) (use k in simp_all)
qed

lemma rw_frame_send:
  assumes rd: "ready c acc ac d" and k: "k \<le> 2"
    and x: "x = [] \<and> dsz = 0 \<or> x = z \<and> unat dsz = length z" and a: "length a = 32" "length a' = 32" "length z < NETDEV_MESSAGE_LIMIT"
    and m: "reply_to m ac d rv a' x'" "x' = [] \<or> length x' = length z" and mt: "mt \<noteq> MSGT_FO_RELEASE"
  shows "\<exists>t copy req. fo_send (message_in m) mt acc (next_addr c) 32 (Suc (next_addr c)) dsz (rw_frame c a z k) = Inr (rv, t) \<and>
    heap t = (heap c)(nddata ac \<mapsto> ODev (d\<lparr>curseq := curseq d + 1\<rparr>), next_addr c \<mapsto> OBuf a',
      Suc (next_addr c) \<mapsto> OBuf (if x' = [] then z else x')) \<and>
    trace t = trace c @ [Unicast (nlpid d) (sent_msg mt ac d a x), Woken copy, Ack (nlpid d) (curseq d + 1) 0, Completed req] \<and>
    same_globals c t \<and> ext_ret t = ext_ret c"
proof -
  note f = rw_frame_ready[OF rd k, of a z] ready_facts(4-11)[OF rd]
  let ?s = "rw_frame c a z k" and ?q = "next_addr c" and ?b = "Suc (next_addr c)"
  have "op_bufs ?s ?q 32 ?b dsz a x"
    using x a f(6) by (auto simp: op_bufs_def NETDEV_MESSAGE_LIMIT_def)
  then have asks: "asks ?s acc ac d ?q 32 ?b dsz a x" using f(2,3,11) by (simp add: asks_def)
  have "takes ?s ?q ?b x' z" using m(2) by (auto simp: takes_def)
  from send_reply_run[OF f(1) asks this m(1) _ _ _ mt] a m(2)
  obtain t copy where t: "fo_send (message_in m) mt acc ?q 32 ?b dsz ?s = Inr (rv, t)"
    "heap t = replied_heap ?s (nddata ac) d ?q a' ?b x' z" "same_globals ?s t" "ext_ret t = ext_ret ?s"
    "trace t = trace ?s @ [Unicast (nlpid d) (sent_msg mt ac d a x), Woken copy, Ack (nlpid d) (curseq d + 1) 0, Completed (next_addr ?s)]"
    by (fastforce simp: MSG_MAX_def NETDEV_MESSAGE_LIMIT_def)
  have "heap t = (heap c)(nddata ac \<mapsto> ODev (d\<lparr>curseq := curseq d + 1\<rparr>), ?q \<mapsto> OBuf a', ?b \<mapsto> OBuf (if x' = [] then z else x'))"
    using f(4,5) m(2) by (auto simp: t(2) replied_heap_def fun_eq_iff)
  moreover have "same_globals c t" using t(3) by (simp add: same_globals_def rw_frame_def)
  ultimately show ?thesis using t by auto
qed

text \<open>The end of \<open>read\<close> and \<open>write\<close>: both buffers are released.\<close>

definition rw_end :: "kst \<Rightarrow> addr \<Rightarrow> addr \<Rightarrow> kst" where
  "rw_end t q b = t\<lparr>heap := (heap t)(b := None, q := None)\<rparr>"

lemma rw_end_run:
  assumes "0 < q" "b \<noteq> q" "heap t q = Some (OBuf (s_fo_rw (of_nat b) sz off ret))" "heap t b = Some v" "unat (of_nat b :: i64) = b" "0 < b"
  shows "bindK (arg_get64 q 0) (\<lambda>p. thenK (kfree (unat p)) (bindK (arg_get64 q 24) (\<lambda>r.
    thenK (kfree q) (returnK (r, off'))))) t = Inr ((ret, off'), rw_end t q b)"
  using assms by (simp add: kflow arg_get64_run rw_end_def)

lemma rw_end_answered:
  assumes rd: "ready c acc ac d" and h: "heap t = (heap c)(nddata ac \<mapsto> ODev (d\<lparr>curseq := curseq d + 1\<rparr>), next_addr c \<mapsto> OBuf a',
      Suc (next_addr c) \<mapsto> OBuf y)"
    and t: "trace t = trace c @ [Unicast (nlpid d) (sent_msg mt ac d a x), Woken copy, Ack (nlpid d) (curseq d + 1) 0, Completed req] @ es"
      "same_globals c t"
  shows "answered c ac d mt a x es (rw_end t (next_addr c) (Suc (next_addr c)))"
proof -
  note f = ready_facts[OF rd]
  have "heap (rw_end t (next_addr c) (Suc (next_addr c))) = (heap c)(nddata ac \<mapsto> ODev (d\<lparr>curseq := curseq d + 1\<rparr>))"
    using f(4,5,7,8) by (auto simp: rw_end_def h fun_eq_iff)
  with t show ?thesis by (auto simp: answered_def rw_end_def same_globals_def)
qed

lemma read_reply_run:
  assumes rd: "ready c acc ac d" and sz: "unat sz < NETDEV_MESSAGE_LIMIT"
    and m: "reply_to m ac d 0 (s_fo_rw (of_nat (Suc (next_addr c))) sz off' ret) x" "length x = unat sz"
    and ret: "\<not> ret <s 0 \<Longrightarrow> unat ret \<le> unat sz"
  shows "\<exists>t. ndfo_send_read (message_in m) acc sz off c = Inr ((ret, off'), t) \<and>
    answered c ac d MSGT_FO_READ (rw_args c sz off) [] (user_sees ret x) t"
proof -
  let ?q = "next_addr c" and ?b = "Suc (next_addr c)" and ?z = "replicate (unat sz) (0 :: byte)"
  define a2 where "a2 = s_fo_rw (of_nat ?b) sz off' ret"
  note f = ready_facts[OF rd] and quiet = ready_facts(11)[OF rd]
  have len: "length (rw_args c sz off) = 32" "length a2 = 32" by (simp_all add: rw_args_def a2_def)
  obtain t copy req where t: "fo_send (message_in m) MSGT_FO_READ acc ?q 32 ?b 0 (rw_frame c (rw_args c sz off) ?z (Suc 0)) = Inr (0, t)"
    "heap t = (heap c)(nddata ac \<mapsto> ODev (d\<lparr>curseq := curseq d + 1\<rparr>), ?q \<mapsto> OBuf a2, ?b \<mapsto> OBuf x)"
    "trace t = trace c @ [Unicast (nlpid d) (sent_msg MSGT_FO_READ ac d (rw_args c sz off) []), Woken copy,
       Ack (nlpid d) (curseq d + 1) 0, Completed req]"
    "same_globals c t" "ext_ret t = ext_ret c"
    using rw_frame_send[OF rd _ _ len _ m(1)[folded a2_def], of "Suc 0" "[]" 0 ?z MSGT_FO_READ] m(2) sz
    by (cases "x = []") (auto simp: MSGT_FO_READ_def MSGT_FO_RELEASE_def)
  define u where "u = t\<lparr>tick := (if ret <s 0 then tick t else Suc (tick t)), trace := trace t @ user_sees ret x\<rparr>"
  define pt where "pt = (of_nat ?b :: i64)"
  have p: "unat pt = ?b" using f(9) by (simp only: pt_def)
  have g: "arg_get64 ?q 16 t = Inr (off', t)" "arg_get64 ?q 0 t = Inr (pt, t)" "arg_get64 ?q 24 t = Inr (ret, t)"
    using f(6) by (simp_all add: arg_get64_run t(2) a2_def pt_def)
  have copy: "copy_to_user ?b ret t = Inr (if ret <s 0 then ret else 0, u)"
    unfolding u_def by (rule copy_to_user_run) (use ret m(2) quiet t(5) in \<open>simp_all add: t(2)\<close>)
  have left: "\<not> 0 <s (if ret <s 0 then ret else 0)" by (auto simp: word_sless_alt)
  have fin: "bindK (arg_get64 ?q 0) (\<lambda>p. thenK (kfree (unat p)) (bindK (arg_get64 ?q 24) (\<lambda>r.
    thenK (kfree ?q) (returnK (r, off'))))) u = Inr ((ret, off'), rw_end u ?q ?b)"
    by (rule rw_end_run) (use f(6,9) in \<open>simp_all add: u_def t(2) a2_def\<close>)
  have "ndfo_send_read (message_in m) acc sz off c = Inr ((ret, off'), rw_end u ?q ?b)"
    using sz left
    by (simp add: ndfo_send_read_def with_args_def bindK_Inr[where m = "local_new a" for a] rw_frame_start[OF ready_frame_ok[OF rd]] bindK_assoc bindK_thenK
        bindK_Inr[where m = "fo_send others mt acc ar n buf k" for others mt ar n buf k] t(1)
        bindK_Inr[where m = "arg_get64 ?q k" for k] g bindK_Inr[where m = "copy_to_user p k" for p k] p copy fin
        del: fun_upd_apply split del: if_split)
  moreover have "answered c ac d MSGT_FO_READ (rw_args c sz off) [] (user_sees ret x) (rw_end u ?q ?b)"
    by (rule rw_end_answered[OF rd, where a' = a2 and y = x and copy = copy and req = req])
      (use t(4) in \<open>simp_all add: u_def t(2,3) same_globals_def\<close>)
  ultimately show ?thesis by blast
qed

lemma copy_from_user_run:
  assumes "length ubuf = unat sz" "\<And>i. ext_ret c i = 0"
  shows "copy_from_user (Suc (next_addr c)) ubuf sz (rw_frame c a (replicate (unat sz) 0) (Suc 0)) = Inr (0, rw_frame c a ubuf 2)"
proof -
  let ?z = "replicate (unat sz) (0 :: byte)" and ?b = "Suc (next_addr c)"
  have "poke 0 ubuf ?z = ubuf" using assms(1) by (simp add: poke_def)
  moreover have "user_stops (unat sz) (rw_frame c a ?z (Suc 0)) = Inr (0, rw_frame c a ?z 2)"
    by (simp add: user_stops_def ext_call_def kflow assms(2)) (simp add: rw_frame_def)
  moreover have "write_mem ?b 0 ubuf (rw_frame c a ?z 2) = Inr ((), rw_frame c a (poke 0 ubuf ?z) 2)"
    using assms(1) by (simp add: write_mem_run) (simp add: rw_frame_def)
  ultimately show ?thesis using assms(1) by (simp add: copy_from_user_def bindK_def thenK_def returnK_def)
qed

text \<open>A write takes the position from the arguments before they are sent, so the user's position stays.\<close>

lemma write_reply_run:
  assumes rd: "ready c acc ac d" and sz: "unat sz < NETDEV_MESSAGE_LIMIT" "length ubuf = unat sz"
    and m: "reply_to m ac d rv (s_fo_rw (of_nat (Suc (next_addr c))) sz off' ret) []"
  shows "\<exists>t. ndfo_send_write (message_in m) acc ubuf sz off c = Inr ((ret, off), t) \<and>
    answered c ac d MSGT_FO_WRITE (rw_args c sz off) ubuf [] t"
proof -
  let ?q = "next_addr c" and ?b = "Suc (next_addr c)" and ?z = "replicate (unat sz) (0 :: byte)"
  define a1 where "a1 = rw_args c sz off"
  define a2 where "a2 = s_fo_rw (of_nat ?b) sz off' ret"
  note f = ready_facts[OF rd] and quiet = ready_facts(11)[OF rd]
  have len: "length a1 = 32" "length a2 = 32" by (simp_all add: rw_args_def a1_def a2_def)
  have pos: "arg_get64 ?q 16 (rw_frame c a1 ?z (Suc 0)) = Inr (off, rw_frame c a1 ?z (Suc 0))"
    using f(6) by (simp add: arg_get64_run a1_def rw_args_def)
  have copy: "copy_from_user ?b ubuf sz (rw_frame c a1 ?z (Suc 0)) = Inr (0, rw_frame c a1 ubuf 2)"
    by (rule copy_from_user_run[OF sz(2) quiet])
  obtain t copy req where t: "fo_send (message_in m) MSGT_FO_WRITE acc ?q 32 ?b sz (rw_frame c a1 ubuf 2) = Inr (rv, t)"
    "heap t = (heap c)(nddata ac \<mapsto> ODev (d\<lparr>curseq := curseq d + 1\<rparr>), ?q \<mapsto> OBuf a2, ?b \<mapsto> OBuf ubuf)"
    "trace t = trace c @ [Unicast (nlpid d) (sent_msg MSGT_FO_WRITE ac d a1 ubuf), Woken copy,
       Ack (nlpid d) (curseq d + 1) 0, Completed req]"
    "same_globals c t"
    using rw_frame_send[OF rd _ _ len _ m[folded a2_def], of 2 ubuf sz ubuf MSGT_FO_WRITE] sz
    by (auto simp: MSGT_FO_WRITE_def MSGT_FO_RELEASE_def)
  have fin: "bindK (arg_get64 ?q 0) (\<lambda>p. thenK (kfree (unat p)) (bindK (arg_get64 ?q 24) (\<lambda>r.
    thenK (kfree ?q) (returnK (r, off))))) t = Inr ((ret, off), rw_end t ?q ?b)"
    by (rule rw_end_run) (use f(6,9) in \<open>simp_all add: t(2) a2_def\<close>)
  have "ndfo_send_write (message_in m) acc ubuf sz off c = Inr ((ret, off), rw_end t ?q ?b)"
    using sz(1)
    by (simp add: ndfo_send_write_def with_args_def bindK_Inr[where m = "local_new a" for a] rw_frame_start[OF ready_frame_ok[OF rd]] bindK_assoc bindK_thenK
        a1_def[symmetric] bindK_Inr[where m = "arg_get64 q 16" for q] pos bindK_Inr[where m = "copy_from_user p b k" for p b k] copy
        bindK_Inr[where m = "fo_send others mt acc ar n buf k" for others mt ar n buf k] t(1) fin
        del: fun_upd_apply)
  moreover have "answered c ac d MSGT_FO_WRITE a1 ubuf [] (rw_end t ?q ?b)"
    by (rule rw_end_answered[OF rd, where a' = a2 and y = ubuf and copy = copy and req = req]) (use t in simp_all)
  ultimately show ?thesis unfolding a1_def by blast
qed

section \<open>A device whose connection was lost\<close>

text \<open>
  C32.  When the device was deactivated, \<open>fo_send\<close> refuses with \<open>-EBUSY\<close>.  A read reports
  that, and leaves its kernel buffer allocated; a write cannot notice it, as it keeps the result
  in an unsigned variable: it releases its buffer and reports the \<open>-EIO\<close> it started with.
\<close>

theorem refused_read_leaks_write_hides:
  assumes "frame_ok s" "heap s acc = Some (OAcc ac)" "heap s (nddata ac) = Some (ODev d)" "\<not> active d"
    and "unat sz < NETDEV_MESSAGE_LIMIT" "length ubuf = unat sz" "\<And>i. ext_ret s i = 0"
  shows "\<exists>t u. ndfo_send_read others acc sz off s = Inr ((- EBUSY, off), t) \<and>
    heap t = (heap s)(Suc (next_addr s) \<mapsto> OBuf (replicate (unat sz) 0)) \<and>
    ndfo_send_write others acc ubuf sz off s = Inr ((- EIO, off), u) \<and> heap u = heap s"
proof -
  let ?q = "next_addr s" and ?b = "Suc (next_addr s)" and ?z = "replicate (unat sz) (0 :: byte)"
  define a where "a = rw_args s sz off"
  have ok: "heap_ok s" using assms(1) by (simp add: frame_ok_def)
  note fr = fresh_heap[OF ok]
  have ne: "acc \<noteq> ?q" "acc \<noteq> ?b" "nddata ac \<noteq> ?q" "nddata ac \<noteq> ?b" using assms(2,3) fr(1,2) by auto
  note pos = heap_ok_pos[OF ok assms(2)] heap_ok_pos[OF ok assms(3)]
  have refuse: "fo_send others mt acc ar n buf k (rw_frame s a z i) = Inr (- EBUSY, rw_frame s a z i)" for mt ar n buf k z i
    by (simp add: fo_send_def bindK_def pos ne assms(2-4) returnK_def)
  have ptr: "unat (of_nat ?b :: i64) = ?b" using assms(1) by (intro addr_unat) (simp add: frame_ok_def)
  have neg: "- EBUSY <s (0 :: i32)" "scast (- EBUSY :: i32) = (- EBUSY :: i64)" by (simp_all add: EBUSY_def word_sless_alt)
  have free: "kfree ?q (rw_frame s a ?z (Suc 0)) = Inr ((), (rw_frame s a ?z (Suc 0))\<lparr>heap := (heap s)(?b \<mapsto> OBuf ?z)\<rparr>)"
    using fr(1,5) by (simp add: fun_eq_iff)
  have rd: "ndfo_send_read others acc sz off s = Inr ((- EBUSY, off), (rw_frame s a ?z (Suc 0))\<lparr>heap := (heap s)(?b \<mapsto> OBuf ?z)\<rparr>)"
    using assms(5)
    by (simp add: ndfo_send_read_def with_args_def bindK_Inr[where m = "local_new a" for a] rw_frame_start[OF assms(1)] bindK_assoc bindK_thenK
        a_def[symmetric] bindK_Inr[where m = "fo_send others mt acc ar n buf k" for others mt ar n buf k] refuse neg
        returnK_def del: fun_upd_apply) (simp add: bindK_def thenK_def free del: rw_frame_simps)
  have off: "arg_get64 ?q 16 (rw_frame s a ?z (Suc 0)) = Inr (off, rw_frame s a ?z (Suc 0))"
    using fr(5) by (simp add: arg_get64_run a_def rw_args_def)
  have fin: "bindK (arg_get64 ?q 0) (\<lambda>p. thenK (kfree (unat p)) (bindK (arg_get64 ?q 24) (\<lambda>r.
    thenK (kfree ?q) (returnK (r, off))))) (rw_frame s a ubuf 2) = Inr ((- EIO, off), rw_end (rw_frame s a ubuf 2) ?q ?b)"
    by (rule rw_end_run) (use fr(5) ptr in \<open>simp_all add: a_def rw_args_def\<close>)
  have wr: "ndfo_send_write others acc ubuf sz off s = Inr ((- EIO, off), rw_end (rw_frame s a ubuf 2) ?q ?b)"
    using assms(5)
    by (simp add: ndfo_send_write_def with_args_def bindK_Inr[where m = "local_new a" for a] rw_frame_start[OF assms(1)] bindK_assoc bindK_thenK
        a_def[symmetric] bindK_Inr[where m = "arg_get64 q 16" for q] off bindK_Inr[where m = "copy_from_user p b k" for p b k]
        copy_from_user_run[OF assms(6,7)]
        bindK_Inr[where m = "fo_send others mt acc ar n buf k" for others mt ar n buf k] refuse fin
        del: fun_upd_apply)
  have "heap (rw_end (rw_frame s a ubuf 2) ?q ?b) = heap s" using fr(1,2) by (auto simp: rw_end_def fun_eq_iff)
  with rd wr show ?thesis by auto
qed

text \<open>Process 42 has the dummy device of daemon 7 open.\<close>

lemma open_dummy_ready: "ready open_dummy 5 (new_acc 1 42 6) (dev_with_acc one_dummy 42 5 (dummy_dev 7 1))"
proof -
  let ?d = "dev_with_acc one_dummy 42 5 (dummy_dev 7 1)"
  have key: "acc_key open_dummy 5 = 42" by (simp add: open_dummy_def acc_key_def)
  have "open_files open_dummy ?d 42 = Some 5"
    using lookup_one[of "acc_key open_dummy" 5 42, OF key]
    by (simp add: open_files_def open_dummy_def one_dummy_def boot_minor_ok dev_with_acc_def)
  moreover have "accs_ok open_dummy ?d"
    by (simp add: accs_ok_def dev_with_acc_def hash_add_def hash_init_def open_dummy_def)
  moreover have "alloc_ok open_dummy i" "tick open_dummy = 6" "next_addr open_dummy = 7" "ext_ret open_dummy i = 0" for i
    by (simp_all add: open_dummy_def one_dummy_def boot_minor_def minors_state_def kst0_def)
  ultimately show ?thesis
    using open_dummy_ok
    by (simp add: ready_def client_def attached_def idle_def mem_avail_def ADDR_LIMIT_def)
      (simp add: open_dummy_def one_dummy_def dev_with_acc_def dummy_dev_def fresh_dev_def zero_dev_def)
qed

definition revoked_dummy :: kst where
  "revoked_dummy = open_dummy\<lparr>heap := (heap open_dummy)
     (1 \<mapsto> ODev ((dev_with_acc one_dummy 42 5 (dummy_dev 7 1))\<lparr>active := False\<rparr>))\<rparr>"

lemma refused_read_leaks_write_hides_witness:
  "\<exists>t u. ndfo_send_read (returnK ()) 5 2 0 revoked_dummy = Inr ((- 16, 0), t) \<and> heap t 8 = Some (OBuf [0, 0]) \<and>
    ndfo_send_write (returnK ()) 5 [65, 66] 2 0 revoked_dummy = Inr ((- 5, 0), u)"
proof -
  have n: "next_addr revoked_dummy = 7" by (simp add: revoked_dummy_def open_dummy_def)
  have ok: "heap_ok revoked_dummy"
    using open_dummy_ok(1) by (rule heap_ok_grow)
      (auto simp: revoked_dummy_def open_dummy_def one_dummy_def split: if_splits)
  moreover have "alloc_ok revoked_dummy i" "ext_ret revoked_dummy i = 0" for i
    by (simp_all add: revoked_dummy_def open_dummy_def one_dummy_def boot_minor_def minors_state_def kst0_def)
  ultimately have fr: "frame_ok revoked_dummy" "\<And>i. ext_ret revoked_dummy i = 0" by (simp_all add: frame_ok_def ADDR_LIMIT_def n)
  have hp: "heap revoked_dummy 5 = Some (OAcc (new_acc 1 42 6))"
    "heap revoked_dummy (nddata (new_acc 1 42 6)) = Some (ODev ((dev_with_acc one_dummy 42 5 (dummy_dev 7 1))\<lparr>active := False\<rparr>))"
    by (simp_all add: revoked_dummy_def open_dummy_def new_acc_def)
  have "replicate 2 (0 :: byte) = [0, 0]" by (simp add: numeral_2_eq_2)
  with refused_read_leaks_write_hides[OF fr(1) hp, of 2 "[65, 66]" "returnK ()" 0] fr(2) show ?thesis
    by (auto simp: NETDEV_MESSAGE_LIMIT_def EBUSY_def EIO_def n)
qed

end
