(* ===== verification/Remote.thy ===== *)
theory Remote
  imports Fo_Send
begin

text \<open>
  The two kernels together: what a program on the client gets from an operation on the dummy
  device is what the device on the server answers, when the daemons in between hand on messages
  unchanged but for the process id in the header.
\<close>

section \<open>An operation on the client is the operation on the server\<close>

text \<open>
  The daemons carry a message from one kernel to the other and back; all they change is the process
  id in its header, which becomes their own.
\<close>

definition relayed :: "i32 \<Rightarrow> nlmsg \<Rightarrow> nlmsg" where
  "relayed pid m = m\<lparr>nlmsg_pid := pid\<rparr>"

lemma relayed_simps [simp]:
  "nlmsg_pid (relayed pid m) = pid" "nlmsg_seq (relayed pid m) = nlmsg_seq m" "payload (relayed pid m) = payload m"
  "nlmsg_type (relayed pid m) = nlmsg_type m" "nlmsg_len (relayed pid m) = nlmsg_len m"
  by (simp_all add: relayed_def)

lemma sent_msg_simps [simp]:
  "payload (sent_msg mt ac d a x) = fo_wire (access_id ac) (- 1) a x" "nlmsg_seq (sent_msg mt ac d a x) = curseq d + 1"
  "nlmsg_type (sent_msg mt ac d a x) = of_nat mt"
  by (simp_all add: sent_msg_def built_msg_def)

lemma reply_msg_simps [simp]:
  "payload (reply_msg m w) = w" "nlmsg_seq (reply_msg m w) = nlmsg_seq m" "nlmsg_type (reply_msg m w) = nlmsg_type m"
  by (simp_all add: reply_msg_def)

text \<open>Requests and replies ask for an acknowledgement.\<close>

lemma fo_request_relayed [simp]: "fo_request (relayed pid m) = fo_request m"
  by (simp add: fo_request_def wants_ack_def relayed_def)

lemma fo_request_sent: "MSGT_FO_START < mt \<Longrightarrow> mt < MSGT_FO_END \<Longrightarrow> fo_request (sent_msg mt ac d a x)"
  by (simp add: fo_request_def wants_ack_def)
    (simp add: sent_msg_def built_msg_def NLM_F_REQUEST_def NLM_F_ACK_def MSGT_FO_END_def unsigned_of_nat take_bit_nat_eq_self)

lemma fo_request_reply: "fo_request m \<Longrightarrow> fo_request (reply_msg m w)"
  by (auto simp: fo_request_def wants_ack_def) (auto simp: reply_msg_def NLM_F_ACK_def split: if_splits)

lemma reply_relayed:
  "nlmsg_seq m = curseq d + 1 \<Longrightarrow> fo_request m \<Longrightarrow>
    reply_to (relayed (nlpid d) (reply_msg m (fo_wire (access_id ac) rv a x))) ac d rv a x"
  by (simp add: reply_to_def fo_request_reply)

lemma sent_msg_ok:
  assumes "24 + length a + length x < 2147483632"
  shows "msg_ok (relayed pid (sent_msg mt ac d a x))"
  using assms by (simp add: msg_ok_def) (simp add: sent_msg_def built_msg_def NLMSG_HDRLEN_def)

text \<open>
  The server's kernel is handed a request of a client: it acknowledges it, a thread finds the device
  of the daemon and the open file of the access id, executes the operation and sends the reply, and
  nothing of it stays in memory.
\<close>

definition replies :: "kst \<Rightarrow> nlmsg \<Rightarrow> nlmsg \<Rightarrow> bool" where
  "replies s q r \<longleftrightarrow> (\<exists>v copy. message_in q s = Inr ((), v) \<and> heap v = heap s \<and> same_globals s v \<and>
     trace v = trace s @ [Woken copy, Ack (nlmsg_pid q) (nlmsg_seq q) 0, Unicast (nlmsg_pid q) r])"

lemma serves_request:
  assumes sv: "serves s pid (access_id ac) acc' ac' d' fo" and q: "q = relayed pid (sent_msg mt ac d a0 x0)"
    and mt: "MSGT_FO_START < mt" "mt < MSGT_FO_END" and small: "24 + length a0 + length x0 < 2147483632"
    and ans: "\<And>u k. arrived u acc' ac' (d'\<lparr>users := users d' + 1\<rparr>) k q \<Longrightarrow> mem_avail u 8 \<Longrightarrow>
      answers u acc' k (d'\<lparr>users := users d' + 1\<rparr>) q (access_id ac) a x"
  shows "replies s q (reply_msg q (fo_wire (access_id ac) 0 a x))"
proof -
  have sv': "serves s (nlmsg_pid q) (access_id ac) acc' ac' d' fo" using sv q by simp
  have ok: "msg_ok q" unfolding q by (rule sent_msg_ok[OF small])
  have "payload q = fo_wire (access_id ac) (- 1) a0 x0 @ []" "fo_request q" using q fo_request_sent[OF mt] by simp_all
  from serves_run[OF sv' this(2,1) ans[OF serves_arrived[OF sv' ok]]] show ?thesis unfolding replies_def by blast
qed

text \<open>
  A remote seek is the seek of the device.  The client's \<open>ndfo_send_llseek\<close> sends one
  message; the server's kernel, handed that message by its daemon, runs the operation of the
  opened device and sends one reply; and when that reply is handed to the client's kernel,
  the waiting \<open>ndfo_send_llseek\<close> returns what the device answered, with the memory of
  both machines as it was before but for the client's sequence number.
\<close>

lemma remote_llseek:
  assumes rd: "ready c acc ac d" and sv: "serves s pid (access_id ac) acc' ac' d' fo"
    and q: "q = relayed pid (sent_msg MSGT_FO_LLSEEK ac d (s_fo_llseek off wh (- EIO)) [])"
    and f: "fop_llseek fo = Some f" "\<And>k. f k off wh = res"
    and reply: "reply = reply_msg q (fo_wire (access_id ac) 0 (s_fo_llseek off wh res) [])"
  shows "\<exists>t. replies s q reply \<and> ndfo_send_llseek (message_in (relayed (nlpid d) reply)) acc off wh c = Inr (res, t) \<and>
    answered c ac d MSGT_FO_LLSEEK (s_fo_llseek off wh (- EIO)) [] [] t"
proof -
  let ?a = "s_fo_llseek off wh (- EIO)" and ?a' = "s_fo_llseek off wh res"
  have mt: "MSGT_FO_START < MSGT_FO_LLSEEK" "MSGT_FO_LLSEEK < MSGT_FO_END"
    by (simp_all add: MSGT_FO_LLSEEK_def MSGT_FO_START_def MSGT_FO_END_def)
  have "replies s q reply"
    unfolding reply
  proof (rule serves_request[OF sv q mt])
    fix u k assume "arrived u acc' ac' (d'\<lparr>users := users d' + 1\<rparr>) k q" "mem_avail u 8"
    then show "answers u acc' k (d'\<lparr>users := users d' + 1\<rparr>) q (access_id ac) ?a' []"
      by (rule execute_llseek_run[OF _ _ servesD(5)[OF sv] f, where pad = "[]"]) (simp_all add: q MSGT_FO_LLSEEK_def)
  qed simp
  moreover have "\<exists>t. with_args ?a (\<lambda>p. bindK (fo_send (message_in (relayed (nlpid d) reply)) MSGT_FO_LLSEEK acc p 24 NULL 0)
      (\<lambda>rv. if rv <s 0 then returnK (scast rv) else arg_get64 p 16)) c = Inr (res, t) \<and> answered c ac d MSGT_FO_LLSEEK ?a [] [] t"
    unfolding reply
  proof (rule with_args_reply[OF rd reply_relayed])
    fix t :: kst assume "heap t (next_addr c) = Some (OBuf ?a')"
    moreover have "0 < next_addr c" using rd by (simp add: ready_def idle_def fresh_heap(5))
    ultimately show "(if 0 <s 0 then returnK (scast 0) else arg_get64 (next_addr c) 16) t = Inr (res, t)"
      by (simp add: arg_get64_run)
  qed (simp_all add: q fo_request_sent[OF mt], simp add: MSGT_FO_LLSEEK_def MSGT_FO_RELEASE_def)
  ultimately show ?thesis unfolding ndfo_send_llseek_def by blast
qed

text \<open>
  A remote read is the read of the device.  When the device the server has opened answers a
  read with \<open>ret\<close>, some bytes and a new position, the client's \<open>ndfo_send_read\<close>
  returns \<open>ret\<close> and that position, and the user finds the bytes in the buffer: all of
  them and nothing else when \<open>ret\<close> is their number, none when \<open>ret\<close> is an
  error.  Nothing stays allocated on either machine.
\<close>

lemma remote_read:
  assumes rd: "ready c acc ac d" and sv: "serves s pid (access_id ac) acc' ac' d' fo"
    and q: "q = relayed pid (sent_msg MSGT_FO_READ ac d (rw_args c sz off) [])"
    and f: "fop_read fo = Some f" "\<And>k. f k sz off = (ret, bytes, off')"
      "length bytes \<le> unat sz" "0 < unat sz" "unat sz < NETDEV_MESSAGE_LIMIT" and ret: "ret <s 0 \<or> unat ret = length bytes"
    and reply: "reply = reply_msg q
      (fo_wire (access_id ac) 0 (s_fo_rw (of_nat (Suc (next_addr c))) sz off' ret) (bytes @ replicate (unat sz - length bytes) 0))"
  shows "\<exists>t. replies s q reply \<and> ndfo_send_read (message_in (relayed (nlpid d) reply)) acc sz off c = Inr ((ret, off'), t) \<and>
    answered c ac d MSGT_FO_READ (rw_args c sz off) [] (if ret <s 0 then [] else [ToUser bytes]) t"
proof -
  let ?pt = "of_nat (Suc (next_addr c)) :: i64" and ?x = "bytes @ replicate (unat sz - length bytes) 0"
  have mt: "MSGT_FO_START < MSGT_FO_READ" "MSGT_FO_READ < MSGT_FO_END"
    by (simp_all add: MSGT_FO_READ_def MSGT_FO_START_def MSGT_FO_END_def)
  have pay: "payload q = fo_wire (access_id ac) (- 1) (s_fo_rw ?pt sz off (- EIO)) [] @ []" "unat (nlmsg_type q) = MSGT_FO_READ"
    by (simp_all add: q rw_args_def MSGT_FO_READ_def)
  have "replies s q reply"
    unfolding reply
  proof (rule serves_request[OF sv q mt])
    fix u k assume "arrived u acc' ac' (d'\<lparr>users := users d' + 1\<rparr>) k q" "mem_avail u 8"
    then show "answers u acc' k (d'\<lparr>users := users d' + 1\<rparr>) q (access_id ac) (s_fo_rw ?pt sz off' ret) ?x"
      by (rule execute_read_run[OF _ _ servesD(5)[OF sv] f pay])
  qed (simp add: rw_args_def)
  moreover have sees: "user_sees ret ?x = (if ret <s 0 then [] else [ToUser bytes])" using ret by (auto simp: user_sees_def)
  have "reply_to (relayed (nlpid d) reply) ac d 0 (s_fo_rw ?pt sz off' ret) ?x"
    unfolding reply by (rule reply_relayed) (simp_all add: q fo_request_sent[OF mt])
  then have "\<exists>t. ndfo_send_read (message_in (relayed (nlpid d) reply)) acc sz off c = Inr ((ret, off'), t) \<and>
    answered c ac d MSGT_FO_READ (rw_args c sz off) [] (user_sees ret ?x) t"
    by (rule read_reply_run[OF rd f(5)]) (use f(3) ret in auto)
  ultimately show ?thesis unfolding sees by blast
qed

section \<open>Writing\<close>

lemma execute_write_run:
  assumes arr: "arrived s acc ac d skb m" and mem: "mem_avail s 8"
    and fo: "acc_filp ac = FOpen fo" "fop_write fo = Some f" "\<And>k. f k x sz off = (ret, off')"
      "length x = unat sz" "x \<noteq> []" "unat sz < NETDEV_MESSAGE_LIMIT"
    and m: "payload m = fo_wire aid rv (s_fo_rw ptr sz off r0) x @ pad" "unat (nlmsg_type m) = MSGT_FO_WRITE"
  shows "answers s acc skb d m aid (s_fo_rw ptr sz off' ret) []"
proof -
  note o = arrivedD[OF arr] and mm = mem_avail8[OF mem]
  let ?a = "s_fo_rw ptr sz off r0" and ?a' = "s_fo_rw ptr sz off' ret" and ?q = "next_addr s" and ?z = "Suc (Suc (next_addr s))"
  let ?R = "received s aid rv ?a x" and ?r = "recv_req s aid rv ?a x"
  note fr = received_fresh[OF o(1)]
  have R: "heap ?R = (heap s)(?q \<mapsto> OReq ?r, Suc ?q \<mapsto> OBuf ?a, ?z \<mapsto> OBuf x)" "next_addr ?R = Suc ?z"
    "tick ?R = Suc (Suc (Suc (tick s)))" "data ?r = ?z"
    using fo(5) by (simp_all add: received_def Let_def recv_req_def)
  have ne: "acc \<noteq> ?q" "acc \<noteq> Suc ?q" "acc \<noteq> ?z" "nddata ac \<noteq> ?q" "nddata ac \<noteq> Suc ?q" "nddata ac \<noteq> ?z"
    "queue_pool d \<noteq> ?q" "queue_pool d \<noteq> Suc ?q" "queue_pool d \<noteq> ?z" "skb \<noteq> ?q" "skb \<noteq> Suc ?q" "skb \<noteq> ?z"
    using received_old(2-4)[OF o(1)] o(2,3,5,6) by blast+
  let ?r' = "?r\<lparr>data := NULL, data_size := 0\<rparr>"
  let ?t = "?R\<lparr>heap := (heap ?R)(Suc ?q \<mapsto> OBuf ?a', ?z := None, ?q \<mapsto> OReq ?r'), tick := Suc (tick ?R)\<rparr>"
  have op: "ndfo_recv_write acc ?q ?R = Inr (0, ?t)"
    using recv_write_run[OF received_served[OF o(1,2) fo(1)] fo(2) fo(3), of aid rv ptr r0] fo(4,5) R by simp
  let ?t' = "?t\<lparr>heap := (heap ?t)(?q \<mapsto> OReq (?r'\<lparr>rvalue := 0\<rparr>))\<rparr>"
  have ok: "heap_ok ?t'"
    by (rule heap_ok_grow[OF received_ok[OF o(1), of aid rv ?a x]]) (use fr(5) in \<open>auto simp: R split: if_splits\<close>)
  have e: "executed ?t' acc ac d ?q (?r'\<lparr>rvalue := 0\<rparr>) ?a' [] skb m"
    unfolding executed_def using ok by (simp add: R ne o req_bytes_def)
  have "\<exists>v k. fo_execute acc skb s = Inr (0, v) \<and> heap v = (heap ?t)(skb := None, args ?r' := None, data ?r' := None, ?q := None) \<and>
    same_globals ?t v \<and>
    trace v = trace ?t @ delivered (ext_ret ?t k) (nlpid d) (reply_msg m (fo_wire (req_access_id ?r') 0 ?a' []))"
  proof (rule execute_op_run[where fofun = ndfo_recv_write, OF arr mm(8) m(1) _ _ m(2)[symmetric] _ _ _ _ op _ e])
    show "netdev_recv_fops ! (MSGT_FO_WRITE - (MSGT_FO_START + 1)) = Some ndfo_recv_write"
      by (simp add: netdev_recv_fops_def MSGT_FO_WRITE_def MSGT_FO_START_def)
    show "24 + length ?a + length x < MSG_MAX" using fo(4,6) by (simp add: NETDEV_MESSAGE_LIMIT_def MSG_MAX_def)
  qed (use mm in \<open>simp_all add: R received_simps can_alloc_def MSGT_FO_WRITE_def MSGT_FO_START_def MSGT_FO_END_def
        MSGT_FO_RELEASE_def\<close>)
  moreover have "(heap ?t)(skb := None, args ?r' := None, data ?r' := None, ?q := None) = (heap s)(skb := None)"
    by (simp add: R fun_eq_iff fr(1-3) heap_ok_null[OF o(1)] ne)
  moreover have "same_globals s v" if "same_globals ?t v" for v
    using that received_simps(7)[of s aid rv ?a x] by (simp add: same_globals_def)
  ultimately show ?thesis unfolding answers_def by (auto simp: received_simps)
qed

text \<open>
  A remote write is the write of the device, except for the position.  The device on the
  server is given exactly the user's bytes, and its answer is the result on the client; but the
  user's file position stays where it was, whatever the device says, because the client takes it
  from the arguments before they are sent.
\<close>

lemma remote_write:
  assumes rd: "ready c acc ac d" and sv: "serves s pid (access_id ac) acc' ac' d' fo"
    and q: "q = relayed pid (sent_msg MSGT_FO_WRITE ac d (rw_args c sz off) bytes)"
    and f: "fop_write fo = Some f" "\<And>k. f k bytes sz off = (ret, off')"
      "length bytes = unat sz" "bytes \<noteq> []" "unat sz < NETDEV_MESSAGE_LIMIT"
    and reply: "reply = reply_msg q (fo_wire (access_id ac) 0 (s_fo_rw (of_nat (Suc (next_addr c))) sz off' ret) [])"
  shows "\<exists>t. replies s q reply \<and> ndfo_send_write (message_in (relayed (nlpid d) reply)) acc bytes sz off c = Inr ((ret, off), t) \<and>
    answered c ac d MSGT_FO_WRITE (rw_args c sz off) bytes [] t"
proof -
  let ?pt = "of_nat (Suc (next_addr c)) :: i64"
  have mt: "MSGT_FO_START < MSGT_FO_WRITE" "MSGT_FO_WRITE < MSGT_FO_END"
    by (simp_all add: MSGT_FO_WRITE_def MSGT_FO_START_def MSGT_FO_END_def)
  have pay: "payload q = fo_wire (access_id ac) (- 1) (s_fo_rw ?pt sz off (- EIO)) bytes @ []" "unat (nlmsg_type q) = MSGT_FO_WRITE"
    by (simp_all add: q rw_args_def MSGT_FO_WRITE_def)
  have "replies s q reply"
    unfolding reply
  proof (rule serves_request[OF sv q mt])
    fix u k assume "arrived u acc' ac' (d'\<lparr>users := users d' + 1\<rparr>) k q" "mem_avail u 8"
    then show "answers u acc' k (d'\<lparr>users := users d' + 1\<rparr>) q (access_id ac) (s_fo_rw ?pt sz off' ret) []"
      by (rule execute_write_run[OF _ _ servesD(5)[OF sv] f pay])
  qed (use f(3,5) in \<open>simp add: rw_args_def NETDEV_MESSAGE_LIMIT_def\<close>)
  moreover have "reply_to (relayed (nlpid d) reply) ac d 0 (s_fo_rw ?pt sz off' ret) []"
    unfolding reply by (rule reply_relayed) (simp_all add: q fo_request_sent[OF mt])
  then have "\<exists>t. ndfo_send_write (message_in (relayed (nlpid d) reply)) acc bytes sz off c = Inr ((ret, off), t) \<and>
    answered c ac d MSGT_FO_WRITE (rw_args c sz off) bytes [] t"
    by (rule write_reply_run[OF rd f(5,3)])
  ultimately show ?thesis by blast
qed

text \<open>A server whose daemon 7 holds the opened device \<open>fo\<close> for the access id 42.\<close>

definition opened_server :: "file_ops \<Rightarrow> kst" where
  "opened_server fo = (one_server (server_dev 7 1))
     \<lparr>heap := (heap (one_server (server_dev 7 1)))
        (1 \<mapsto> ODev (dev_with_acc (one_server (server_dev 7 1)) 42 4 (server_dev 7 1)), 4 \<mapsto> OAcc ((new_acc 1 42 NULL)\<lparr>acc_filp := FOpen fo\<rparr>)),
      next_addr := 5\<rparr>"

lemma opened_server_serves:
  "serves (opened_server fo) 7 42 4 ((new_acc 1 42 NULL)\<lparr>acc_filp := FOpen fo\<rparr>)
    (dev_with_acc (one_server (server_dev 7 1)) 42 4 (server_dev 7 1)) fo"
  "trace (opened_server fo) = []"
proof -
  let ?s = "opened_server fo" and ?d = "dev_with_acc (one_server (server_dev 7 1)) 42 4 (server_dev 7 1)"
  have keys: "acc_key ?s 4 = 42" "dev_key ?s 1 = 7"
    by (simp_all add: opened_server_def acc_key_def dev_key_def dev_with_acc_def server_dev_def new_acc_def)
  have "open_files ?s ?d 42 = Some 4"
    using lookup_one[of "acc_key ?s" 4 42, OF keys(1)]
    by (simp add: open_files_def opened_server_def one_server_def kst0_def dev_with_acc_def server_dev_def zero_dev_def)
  moreover have "device_of ?s 7 = Some 1"
    using lookup_one[of "dev_key ?s" 1 7, OF keys(2)] by (simp add: device_of_def opened_server_def one_server_def kst0_def)
  moreover have "accs_ok ?s ?d" "devs_ok ?s" "heap_ok ?s"
    by (auto simp: accs_ok_def devs_ok_def heap_ok_def dev_with_acc_def hash_add_def hash_init_def opened_server_def one_server_def
        server_dev_def zero_dev_def kst0_def split: if_splits)
  ultimately show "serves ?s 7 42 4 ((new_acc 1 42 NULL)\<lparr>acc_filp := FOpen fo\<rparr>) ?d fo"
    by (simp add: serves_def attached_def mem_avail_def ADDR_LIMIT_def)
      (simp add: opened_server_def one_server_def kst0_def dev_with_acc_def server_dev_def zero_dev_def new_acc_def)
qed (simp add: opened_server_def one_server_def kst0_def)

end
