(* ===== verification/Daemon_IO.thy ===== *)
theory Daemon_IO
  imports Knetlink
begin

text \<open>
  The daemon's process: its two sockets, and the part of \<open>daemon/conn.c\<close> that moves bytes
  (\<open>recvall\<close>, \<open>sendall\<close>, \<open>conn_send\<close>, \<open>conn_recv\<close>).

  What other parties send is in the state from the start: \<open>net_in\<close> is everything the peer's
  daemon sends before it closes the connection, \<open>nl_in\<close> the messages the kernel sends.  What the
  process sends is appended to \<open>net_out\<close> and \<open>nl_out\<close>.  What the operating system
  decides is read from streams indexed by a clock: whether \<open>malloc\<close> succeeds and where the block
  is, how many bytes a call on a socket moves (negative for an error), and what the other system
  calls return.
\<close>

section \<open>The process\<close>

text \<open>What a process does on a signal.\<close>

datatype sighandler = SigIgn | ParentSigChld | ProxySigHup

record dst =
  d_tick :: nat
  d_mem :: "nat \<Rightarrow> bool"
  d_ptr :: "nat \<Rightarrow> i64"
  d_io :: "nat \<Rightarrow> int"
  d_call :: "nat \<Rightarrow> i32"
  net_in :: "byte list"
  net_out :: "byte list"
  nl_in :: "byte list list"
  nl_out :: "byte list list"
  overruns :: "nat list"          \<comment> \<open>bytes written past the end of a buffer\<close>
  proxy_pid :: i32
  pdev_zeroed :: bool             \<comment> \<open>whether the \<open>struct proxy_dev\<close> was zeroed when it was made\<close>
  remote_dev_name :: "byte list"  \<comment> \<open>the bytes of the block\<close>
  dummy_dev_name :: "byte list"
  sig_actions :: "nat \<rightharpoonup> sighandler \<times> i32"  \<comment> \<open>of each signal the handler and its flags\<close>

type_synonym 'a dprog = "(dst, 'a) prog"

text \<open>Updates of the state are kept in one order, as for the kernel's state.\<close>

lemma dst_sort [simp]:
  "net_in_update f1 (d_tick_update f0 s) = d_tick_update f0 (net_in_update f1 s)"
  "net_out_update f2 (d_tick_update f0 s) = d_tick_update f0 (net_out_update f2 s)"
  "net_out_update f2 (net_in_update f1 s) = net_in_update f1 (net_out_update f2 s)"
  "nl_in_update f3 (d_tick_update f0 s) = d_tick_update f0 (nl_in_update f3 s)"
  "nl_in_update f3 (net_in_update f1 s) = net_in_update f1 (nl_in_update f3 s)"
  "nl_in_update f3 (net_out_update f2 s) = net_out_update f2 (nl_in_update f3 s)"
  "nl_out_update f4 (d_tick_update f0 s) = d_tick_update f0 (nl_out_update f4 s)"
  "nl_out_update f4 (net_in_update f1 s) = net_in_update f1 (nl_out_update f4 s)"
  "nl_out_update f4 (net_out_update f2 s) = net_out_update f2 (nl_out_update f4 s)"
  "nl_out_update f4 (nl_in_update f3 s) = nl_in_update f3 (nl_out_update f4 s)"
  "overruns_update f5 (d_tick_update f0 s) = d_tick_update f0 (overruns_update f5 s)"
  "overruns_update f5 (net_in_update f1 s) = net_in_update f1 (overruns_update f5 s)"
  "overruns_update f5 (net_out_update f2 s) = net_out_update f2 (overruns_update f5 s)"
  "overruns_update f5 (nl_in_update f3 s) = nl_in_update f3 (overruns_update f5 s)"
  "overruns_update f5 (nl_out_update f4 s) = nl_out_update f4 (overruns_update f5 s)"
  "remote_dev_name_update f6 (d_tick_update f0 s) = d_tick_update f0 (remote_dev_name_update f6 s)"
  "remote_dev_name_update f6 (net_in_update f1 s) = net_in_update f1 (remote_dev_name_update f6 s)"
  "remote_dev_name_update f6 (net_out_update f2 s) = net_out_update f2 (remote_dev_name_update f6 s)"
  "remote_dev_name_update f6 (nl_in_update f3 s) = nl_in_update f3 (remote_dev_name_update f6 s)"
  "remote_dev_name_update f6 (nl_out_update f4 s) = nl_out_update f4 (remote_dev_name_update f6 s)"
  "remote_dev_name_update f6 (overruns_update f5 s) = overruns_update f5 (remote_dev_name_update f6 s)"
  "sig_actions_update f7 (d_tick_update f0 s) = d_tick_update f0 (sig_actions_update f7 s)"
  "sig_actions_update f7 (overruns_update f5 s) = overruns_update f5 (sig_actions_update f7 s)"
  by simp_all

definition d_clock :: "nat dprog" where
  "d_clock s = Inr (d_tick s, s\<lparr>d_tick := Suc (d_tick s)\<rparr>)"

definition d_malloc :: "i64 option dprog" where
  "d_malloc s = Inr (if d_mem s (d_tick s) then Some (d_ptr s (d_tick s)) else None, s\<lparr>d_tick := Suc (d_tick s)\<rparr>)"

definition sys_call :: "i32 dprog" where
  "sys_call s = Inr (d_call s (d_tick s), s\<lparr>d_tick := Suc (d_tick s)\<rparr>)"

section \<open>Sockets\<close>

text \<open>
  \<open>recvmsg\<close> with one buffer of \<open>n\<close> bytes; \<open>None\<close> is the result -1.  A stream gives at
  least one byte of what has arrived and nothing at its end; of a message, what does not fit is
  dropped, and without a message the call waits.  \<open>MSG_PEEK\<close> leaves the data in the socket.
\<close>

datatype sock = RmFd | NlFd

definition recvmsg :: "sock \<Rightarrow> bool \<Rightarrow> nat \<Rightarrow> byte list option dprog" where
  "recvmsg fd peek n s = (let k = d_io s (d_tick s); t = s\<lparr>d_tick := Suc (d_tick s)\<rparr> in
     if k < 0 then Inr (None, t)
     else case fd of
       RmFd \<Rightarrow> (let j = min n (max 1 (nat k)) in
         Inr (Some (take j (net_in s)), if peek then t else t\<lparr>net_in := drop j (net_in s)\<rparr>))
     | NlFd \<Rightarrow> (case nl_in s of [] \<Rightarrow> Inl Blocked
         | m # ms \<Rightarrow> Inr (Some (take n m), if peek then t else t\<lparr>nl_in := ms\<rparr>)))"

text \<open>
  \<open>sendmsg\<close> of the first \<open>n\<close> bytes at a pointer into a block; \<open>b\<close> is the block from
  there to its end.  A stream may take fewer bytes, a message is sent as a whole.
\<close>

definition sendmsg :: "sock \<Rightarrow> byte list \<Rightarrow> nat \<Rightarrow> int dprog" where
  "sendmsg fd b n s = (let k = d_io s (d_tick s); t = s\<lparr>d_tick := Suc (d_tick s)\<rparr>;
       j = (case fd of RmFd \<Rightarrow> min n (nat k) | NlFd \<Rightarrow> n) in
     if k < 0 then Inr (- 1, t)
     else if length b < j then Inl OutOfBounds
     else Inr (int j, case fd of RmFd \<Rightarrow> t\<lparr>net_out := net_out s @ take j b\<rparr> | NlFd \<Rightarrow> t\<lparr>nl_out := nl_out s @ [take j b]\<rparr>))"

section \<open>Moving a whole buffer\<close>

text \<open>
  The loops of \<open>recvall\<close> and \<open>sendall\<close>.  After each round the pointer moves on by the bytes
  of the round, and the length of the buffer is set to \<open>bytes\<close>, the bytes of all rounds: not to
  what is left.  \<open>got\<close> is what was received so far, \<open>rx\<close> the call on the socket.
\<close>

function recv_loop :: "(nat \<Rightarrow> ('s, byte list option) prog) \<Rightarrow> int \<Rightarrow> byte list \<Rightarrow> nat \<Rightarrow> ('s, byte list option) prog" where
  "recv_loop rx sz got n s = (case rx n s of
       Inl e \<Rightarrow> Inl e
     | Inr (None, t) \<Rightarrow> Inr (None, t)
     | Inr (Some bs, t) \<Rightarrow>
         if bs = [] then Inr (None, t)
         else if int (length (got @ bs)) < sz then recv_loop rx sz (got @ bs) (length (got @ bs)) t
         else Inr (Some (got @ bs), t))"
  by pat_completeness auto
termination
  by (relation "measure (\<lambda>(rx, sz, got, n, s). nat (sz - int (length got)))") auto

text \<open>The buffer has \<open>n\<close> bytes; what is received beyond them is written past its end.\<close>

definition recvall :: "(nat \<Rightarrow> byte list option dprog) \<Rightarrow> nat \<Rightarrow> int \<Rightarrow> byte list option dprog" where
  "recvall rx n sz = bindK (recv_loop rx sz [] n) (\<lambda>r. case r of
       None \<Rightarrow> returnK None
     | Some got \<Rightarrow> thenK (if length got \<le> n then returnK ()
           else modifyK (\<lambda>s. s\<lparr>overruns := overruns s @ [length got - n]\<rparr>))
         (returnK (Some (take n got))))"

function send_loop :: "(byte list \<Rightarrow> nat \<Rightarrow> ('s, int) prog) \<Rightarrow> byte list \<Rightarrow> int \<Rightarrow> int \<Rightarrow> nat \<Rightarrow> ('s, i32) prog" where
  "send_loop tx b sz bytes n s = (case tx b n s of
       Inl e \<Rightarrow> Inl e
     | Inr (r, t) \<Rightarrow>
         if r = - 1 then Inr (- 1, t)
         else if r \<le> 0 then Inr (- 1, t)
         else if bytes + r < sz then send_loop tx (drop (nat r) b) sz (bytes + r) (nat (bytes + r)) t
         else Inr (0, t))"
  by pat_completeness auto
termination
  by (relation "measure (\<lambda>(tx, b, sz, bytes, n, s). nat (sz - bytes))") auto

definition sendall :: "sock \<Rightarrow> byte list \<Rightarrow> nat \<Rightarrow> int \<Rightarrow> i32 dprog" where
  "sendall fd b n sz = send_loop (sendmsg fd) b sz 0 n"

section \<open>Messages between daemons\<close>

text \<open>\<open>struct netdev_header\<close>: the pointer \<open>payload\<close> is the address \<open>hd_payload\<close> of a block
  with the bytes \<open>hd_data\<close>.\<close>

record netdev_header =
  hd_msgtype :: i32
  hd_size :: i64
  hd_payload :: i64
  hd_data :: "byte list"

definition header_bytes :: "netdev_header \<Rightarrow> byte list" where
  "header_bytes h = le_bytes 4 (hd_msgtype h) @ replicate 4 0 @ le_bytes 8 (hd_size h) @ le_bytes 8 (hd_payload h)"

definition HEADER_SIZE :: nat where "HEADER_SIZE = 24"

text \<open>The last parameter of \<open>sendall\<close> and \<open>recvall\<close> is an \<open>int\<close>.\<close>

definition as_int :: "i64 \<Rightarrow> int" where
  "as_int n = sint (ucast n :: i32)"

definition conn_send :: "netdev_header \<Rightarrow> i32 dprog" where
  "conn_send h = bindK d_malloc (\<lambda>buff. case buff of
       None \<Rightarrow> returnK (- 1)
     | Some _ \<Rightarrow>
         if length (hd_data h) < unat (hd_size h) then failK OutOfBounds
         else (let sz = of_nat HEADER_SIZE + hd_size h; b = header_bytes h @ take (unat (hd_size h)) (hd_data h) in
           bindK (sendall RmFd b (unat sz) (as_int sz)) (\<lambda>r. if r = - 1 then returnK (- 1) else returnK 0)))"

text \<open>A block that could not be allocated makes the call on the socket fail.\<close>

definition recv_block :: "nat \<Rightarrow> int \<Rightarrow> (i64 \<times> byte list) option dprog" where
  "recv_block n sz = bindK d_malloc (\<lambda>p. case p of
       None \<Rightarrow> returnK None
     | Some a \<Rightarrow> bindK (recvall (recvmsg RmFd False) n sz) (\<lambda>r. case r of
           None \<Rightarrow> returnK None | Some b \<Rightarrow> returnK (Some (a, b))))"

definition conn_recv :: "netdev_header option dprog" where
  "conn_recv = bindK (recv_block HEADER_SIZE (int HEADER_SIZE)) (\<lambda>r. case r of
       None \<Rightarrow> returnK None
     | Some (_, b) \<Rightarrow> (let sz = get64 8 b in
         bindK (recv_block (unat sz) (as_int sz)) (\<lambda>r. case r of
           None \<Rightarrow> returnK None
         | Some (p, x) \<Rightarrow> returnK (Some \<lparr>hd_msgtype = get32 0 b, hd_size = sz, hd_payload = p, hd_data = x\<rparr>))))"

declare recv_loop.simps [simp del] send_loop.simps [simp del]

section \<open>Sockets that deliver promptly\<close>

text \<open>
  What the callers of \<open>recvall\<close> rely on: when \<open>n\<close> bytes can be had at once, one call
  delivers them.  Then the loop ends after its first round, before it sets a wrong length.
\<close>

locale source =
  fixes rx :: "nat \<Rightarrow> byte list option dprog" and ready :: "dst \<Rightarrow> nat \<Rightarrow> bool"
    and front :: "dst \<Rightarrow> nat \<Rightarrow> byte list" and rest :: "dst \<Rightarrow> nat \<Rightarrow> dst"
  assumes get: "ready s n \<Longrightarrow> 0 < n \<Longrightarrow> rx n s = Inr (Some (front s n), rest s n)"
    and front_len: "ready s n \<Longrightarrow> 0 < n \<Longrightarrow> length (front s n) = n"
begin

lemma loop_once:
  assumes "ready s n" "0 < n" "sz \<le> int n"
  shows "recv_loop rx sz [] n s = Inr (Some (front s n), rest s n)"
proof -
  have "front s n \<noteq> []" using front_len[OF assms(1,2)] assms(2) by fastforce
  then show ?thesis using front_len[OF assms(1,2)] assms(3) by (simp add: recv_loop.simps get[OF assms(1,2)])
qed

lemma recvall_exact:
  assumes "ready s n" "0 < n" "sz \<le> int n"
  shows "recvall rx n sz s = Inr (Some (front s n), rest s n)"
  using front_len[OF assms(1,2)]
  by (simp add: recvall_def bindK_Inr[where m = "recv_loop rx sz [] n"] loop_once[OF assms] thenK_def returnK_def bindK_def)

end

definition can_move :: "dst \<Rightarrow> nat \<Rightarrow> bool" where
  "can_move s n \<longleftrightarrow> int n \<le> d_io s (d_tick s)"

interpretation net: source "recvmsg RmFd False" "\<lambda>s n. can_move s n \<and> n \<le> length (net_in s)"
    "\<lambda>s n. take n (net_in s)" "\<lambda>s n. s\<lparr>d_tick := Suc (d_tick s), net_in := drop n (net_in s)\<rparr>"
proof
  fix s :: dst and n :: nat
  assume "can_move s n \<and> n \<le> length (net_in s)" "0 < n"
  then have "\<not> d_io s (d_tick s) < 0" "min n (max 1 (nat (d_io s (d_tick s)))) = n" by (auto simp: can_move_def)
  then show "recvmsg RmFd False n s = Inr (Some (take n (net_in s)), s\<lparr>d_tick := Suc (d_tick s), net_in := drop n (net_in s)\<rparr>)"
    by (simp add: recvmsg_def Let_def)
qed simp

interpretation nl: source "recvmsg NlFd False" "\<lambda>s n. can_move s n \<and> nl_in s \<noteq> [] \<and> n \<le> length (hd (nl_in s))"
    "\<lambda>s n. take n (hd (nl_in s))" "\<lambda>s n. s\<lparr>d_tick := Suc (d_tick s), nl_in := tl (nl_in s)\<rparr>"
  by unfold_locales (auto simp: recvmsg_def can_move_def Let_def split: list.splits)

interpretation peek: source "recvmsg NlFd True" "\<lambda>s n. can_move s n \<and> nl_in s \<noteq> [] \<and> n \<le> length (hd (nl_in s))"
    "\<lambda>s n. take n (hd (nl_in s))" "\<lambda>s n. s\<lparr>d_tick := Suc (d_tick s)\<rparr>"
  by unfold_locales (auto simp: recvmsg_def can_move_def Let_def split: list.splits)

text \<open>A machine on which allocations succeed and sockets move what they are asked to.\<close>

definition prompt :: "dst \<Rightarrow> bool" where
  "prompt s \<longleftrightarrow> (\<forall>i. d_mem s i \<and> 4294967296 \<le> d_io s i)"

lemma prompt_mem: "prompt s \<Longrightarrow> d_mem s i"
  by (simp add: prompt_def)

lemma prompt_move: "prompt s \<Longrightarrow> n < 4294967296 \<Longrightarrow> can_move s n"
  by (auto simp: prompt_def can_move_def intro: order_trans[of _ 4294967296])

lemma prompt_cong [simp]:
  "prompt (s\<lparr>d_tick := k\<rparr>) = prompt s" "prompt (s\<lparr>net_in := b\<rparr>) = prompt s" "prompt (s\<lparr>nl_in := m\<rparr>) = prompt s"
  "prompt (s\<lparr>net_out := b\<rparr>) = prompt s" "prompt (s\<lparr>nl_out := m\<rparr>) = prompt s"
  "prompt (s\<lparr>remote_dev_name := b\<rparr>) = prompt s"
  by (simp_all add: prompt_def)

lemma sendall_once:
  assumes "can_move s n" "0 < n" "n \<le> length b" "sz \<le> int n"
  shows "sendall fd b n sz s = Inr (0, case fd of
      RmFd \<Rightarrow> s\<lparr>d_tick := Suc (d_tick s), net_out := net_out s @ take n b\<rparr>
    | NlFd \<Rightarrow> s\<lparr>d_tick := Suc (d_tick s), nl_out := nl_out s @ [take n b]\<rparr>)"
proof -
  have "sendmsg fd b n s = Inr (int n, case fd of
      RmFd \<Rightarrow> s\<lparr>d_tick := Suc (d_tick s), net_out := net_out s @ take n b\<rparr>
    | NlFd \<Rightarrow> s\<lparr>d_tick := Suc (d_tick s), nl_out := nl_out s @ [take n b]\<rparr>)"
    using assms by (auto simp: sendmsg_def can_move_def Let_def min_def split: sock.split)
  then show ?thesis using assms(2,4) by (simp add: sendall_def send_loop.simps)
qed

section \<open>Messages arrive as they were sent\<close>

definition wire_of :: "netdev_header \<Rightarrow> byte list" where
  "wire_of h = header_bytes h @ take (unat (hd_size h)) (hd_data h)"

lemma header_len [simp]: "length (header_bytes h) = 24"
  by (simp add: header_bytes_def)

lemma header_fields [simp]:
  "get32 0 (header_bytes h) = hd_msgtype h" "get64 8 (header_bytes h) = hd_size h"
  by (simp_all add: header_bytes_def get32_def get64_def le_word_bytes32 le_word_bytes64)

lemma as_int_small: "unat n < 2147483648 \<Longrightarrow> as_int n = int (unat n)"
proof -
  assume n: "unat n < 2147483648"
  have "ucast n = (of_nat (unat n) :: i32)" by simp
  then have "as_int n = signed_take_bit 31 (int (unat n))" unfolding as_int_def by (simp only: signed_of_nat) simp
  also have "\<dots> = int (unat n)" using n by (intro signed_take_bit_int_eq_self) (simp_all del: of_nat_unat)
  finally show ?thesis .
qed

lemma conn_send_run:
  assumes "prompt s" "unat (hd_size h) \<le> length (hd_data h)" "unat (hd_size h) < 2147483000"
  shows "conn_send h s = Inr (0, s\<lparr>d_tick := Suc (Suc (d_tick s)), net_out := net_out s @ wire_of h\<rparr>)"
proof -
  have n: "unat (of_nat HEADER_SIZE + hd_size h) = 24 + unat (hd_size h)"
    using assms(3) by (simp add: HEADER_SIZE_def unat_word_ariths)
  then have sz: "as_int (of_nat HEADER_SIZE + hd_size h) = int (24 + unat (hd_size h))"
    using assms(3) by (subst as_int_small) simp_all
  let ?s = "s\<lparr>d_tick := Suc (d_tick s)\<rparr>"
  have "sendall RmFd (wire_of h) (24 + unat (hd_size h)) (int (24 + unat (hd_size h))) ?s =
    Inr (0, s\<lparr>d_tick := Suc (Suc (d_tick s)), net_out := net_out s @ wire_of h\<rparr>)"
    using assms by (subst sendall_once) (auto simp: wire_of_def intro!: prompt_move)
  then show ?thesis
    using assms(2) n sz
    by (simp add: conn_send_def bindK_def d_malloc_def prompt_mem[OF assms(1)] Let_def wire_of_def returnK_def)
qed

lemma recv_block_run:
  assumes "prompt s" "0 < n" "n < 4294967296" "n \<le> length (net_in s)" "sz \<le> int n"
  shows "recv_block n sz s = Inr (Some (d_ptr s (d_tick s), take n (net_in s)),
    s\<lparr>d_tick := Suc (Suc (d_tick s)), net_in := drop n (net_in s)\<rparr>)"
  using assms
  by (simp add: recv_block_def bindK_def d_malloc_def prompt_mem returnK_def net.recvall_exact prompt_move)

lemma conn_recv_run:
  assumes "prompt s" "net_in s = wire_of h @ later" "unat (hd_size h) = length (hd_data h)" "hd_data h \<noteq> []"
    "length (hd_data h) < 2147483000"
  shows "\<exists>p k. conn_recv s = Inr (Some (h\<lparr>hd_payload := p\<rparr>), s\<lparr>d_tick := k, net_in := later\<rparr>)"
proof -
  let ?s = "s\<lparr>d_tick := Suc (Suc (d_tick s)), net_in := hd_data h @ later\<rparr>" and ?n = "length (hd_data h)"
  have n: "0 < ?n" using assms(4) by simp
  have 1: "recv_block HEADER_SIZE (int HEADER_SIZE) s = Inr (Some (d_ptr s (d_tick s), header_bytes h), ?s)"
    using recv_block_run[OF assms(1), of HEADER_SIZE] assms(2,3) by (simp add: HEADER_SIZE_def wire_of_def)
  have 2: "recv_block (unat (hd_size h)) (as_int (hd_size h)) ?s =
    Inr (Some (d_ptr s (Suc (Suc (d_tick s))), hd_data h), s\<lparr>d_tick := Suc (Suc (Suc (Suc (d_tick s)))), net_in := later\<rparr>)"
    using recv_block_run[of ?s ?n] assms n by (simp add: as_int_small)
  show ?thesis
    by (cases h) (use 1 2 in \<open>auto simp: conn_recv_def bindK_Inr returnK_def Let_def\<close>)
qed

section \<open>Properties\<close>

text \<open>
  C12.  What one daemon sends the other receives: when the sockets move what they are asked to,
  \<open>conn_send\<close> succeeds and \<open>conn_recv\<close> on the other side, given those bytes, returns a
  message with the same type, size and payload, and leaves in the stream exactly what follows.
\<close>

theorem conn_roundtrip:
  assumes "prompt c" "unat (hd_size h) = length (hd_data h)" "hd_data h \<noteq> []" "length (hd_data h) < 2147483000"
  shows "\<exists>c' b. conn_send h c = Inr (0, c') \<and> net_out c' = net_out c @ b \<and>
    (\<forall>s later. prompt s \<and> net_in s = b @ later \<longrightarrow> (\<exists>g t. conn_recv s = Inr (Some g, t) \<and> hd_msgtype g = hd_msgtype h \<and>
      hd_size g = hd_size h \<and> hd_data g = hd_data h \<and> net_in t = later))"
proof -
  have send: "conn_send h c = Inr (0, c\<lparr>d_tick := Suc (Suc (d_tick c)), net_out := net_out c @ wire_of h\<rparr>)"
    using assms(2,4) by (intro conn_send_run[OF assms(1)]) simp_all
  have "\<exists>g t. conn_recv s = Inr (Some g, t) \<and> hd_msgtype g = hd_msgtype h \<and> hd_size g = hd_size h \<and>
    hd_data g = hd_data h \<and> net_in t = later" if "prompt s" "net_in s = wire_of h @ later" for s later
    using conn_recv_run[OF that assms(2-4)] by fastforce
  with send show ?thesis by auto
qed

definition dst0 :: dst where
  "dst0 = \<lparr>d_tick = 0, d_mem = (\<lambda>_. True), d_ptr = (\<lambda>_. 4096), d_io = (\<lambda>_. 4294967296), d_call = (\<lambda>_. 0), net_in = [], net_out = [],
     nl_in = [], nl_out = [], overruns = [], proxy_pid = 7, pdev_zeroed = True, remote_dev_name = [], dummy_dev_name = [],
     sig_actions = Map.empty\<rparr>"

lemma dst0_prompt: "prompt dst0"
  by (simp add: dst0_def prompt_def)

lemma conn_roundtrip_witness:
  "\<exists>c' b g t. conn_send \<lparr>hd_msgtype = 4, hd_size = 2, hd_payload = 4096, hd_data = [1, 2]\<rparr> dst0 = Inr (0, c') \<and> net_out c' = b \<and>
    conn_recv (dst0\<lparr>net_in := b @ [9]\<rparr>) = Inr (Some g, t) \<and> hd_data g = [1, 2] \<and> net_in t = [9]"
proof -
  let ?h = "\<lparr>hd_msgtype = 4, hd_size = 2, hd_payload = 4096, hd_data = [1, 2 :: byte]\<rparr>"
  obtain c' b where c: "conn_send ?h dst0 = Inr (0, c')" "net_out c' = net_out dst0 @ b"
    "\<And>s later. prompt s \<Longrightarrow> net_in s = b @ later \<Longrightarrow> \<exists>g t. conn_recv s = Inr (Some g, t) \<and> hd_msgtype g = hd_msgtype ?h \<and>
      hd_size g = hd_size ?h \<and> hd_data g = hd_data ?h \<and> net_in t = later"
    using conn_roundtrip[OF dst0_prompt, of ?h] by auto
  have "prompt (dst0\<lparr>net_in := b @ [9]\<rparr>)" using dst0_prompt by simp
  from c(3)[OF this, of "[9]"] c(1,2) show ?thesis by (auto simp: dst0_def)
qed

lemma recvmsg_net_cases:
  assumes "0 < n"
  obtains "recvmsg RmFd False n s = Inr (None, s\<lparr>d_tick := Suc (d_tick s)\<rparr>)"
  | j where "0 < j" "recvmsg RmFd False n s = Inr (Some (take j (net_in s)), s\<lparr>d_tick := Suc (d_tick s), net_in := drop j (net_in s)\<rparr>)"
proof (cases "d_io s (d_tick s) < 0")
  case True
  then show ?thesis using that(1) by (simp add: recvmsg_def Let_def)
next
  case False
  then show ?thesis using that(2)[of "min n (max 1 (nat (d_io s (d_tick s))))"] assms by (simp add: recvmsg_def Let_def)
qed

lemma recv_loop_net:
  assumes "0 < n" "int (length got) < sz"
  shows "\<exists>r t. recv_loop (recvmsg RmFd False) sz got n s = Inr (r, t) \<and> d_tick t \<le> d_tick s + nat (sz - int (length got)) \<and>
    overruns t = overruns s \<and>
    (\<forall>b. r = Some b \<longrightarrow> sz \<le> int (length b) \<and> (\<exists>x. b = got @ x \<and> net_in s = x @ net_in t))"
  using assms
proof (induction "nat (sz - int (length got))" arbitrary: got n s rule: less_induct)
  case less
  show ?case
  proof (rule recvmsg_net_cases[OF less(2), of s])
    assume "recvmsg RmFd False n s = Inr (None, s\<lparr>d_tick := Suc (d_tick s)\<rparr>)"
    then show ?thesis using less(3) by (simp add: recv_loop.simps)
  next
    fix j
    let ?x = "take j (net_in s)" and ?t = "s\<lparr>d_tick := Suc (d_tick s), net_in := drop j (net_in s)\<rparr>"
    assume j: "0 < j" "recvmsg RmFd False n s = Inr (Some ?x, ?t)"
    consider "?x = []" | "?x \<noteq> []" "sz \<le> int (length (got @ ?x))" | "?x \<noteq> []" "int (length (got @ ?x)) < sz" by linarith
    then show ?thesis
    proof cases
      case 1
      then show ?thesis using j(2) less(3) by (simp add: recv_loop.simps)
    next
      case 2
      have "recv_loop (recvmsg RmFd False) sz got n s = Inr (Some (got @ ?x), ?t)"
        using 2 j(2) by (subst recv_loop.simps) simp
      then show ?thesis using 2 less(3) by (intro exI[of _ "Some (got @ ?x)"] exI[of _ ?t]) auto
    next
      case 3
      have step: "recv_loop (recvmsg RmFd False) sz got n s = recv_loop (recvmsg RmFd False) sz (got @ ?x) (length (got @ ?x)) ?t"
        using 3 j(2) by (subst recv_loop.simps) simp
      have len: "0 < length (got @ ?x)" "nat (sz - int (length (got @ ?x))) < nat (sz - int (length got))"
        using 3 less(3) by auto
      from less(1)[OF len(2) len(1) 3(2), of ?t] obtain r t where
        rt: "recv_loop (recvmsg RmFd False) sz (got @ ?x) (length (got @ ?x)) ?t = Inr (r, t)"
          "d_tick t \<le> Suc (d_tick s) + nat (sz - int (length (got @ ?x)))" "overruns t = overruns s"
          "\<And>b. r = Some b \<Longrightarrow> sz \<le> int (length b) \<and> (\<exists>y. b = (got @ ?x) @ y \<and> drop j (net_in s) = y @ net_in t)"
        by auto
      have "\<exists>y. b = got @ y \<and> net_in s = y @ net_in t" if "r = Some b" for b
        using rt(4)[OF that] by (metis append_assoc append_take_drop_id)
      moreover have "d_tick t \<le> d_tick s + nat (sz - int (length got))" using rt(2) len(2) by linarith
      ultimately show ?thesis unfolding step using rt(1,3,4) by blast
    qed
  qed
qed

text \<open>
  C27.  \<open>recvall\<close> on a stream always returns, after at most as many calls as the buffer has bytes.
  If it succeeds, the buffer holds the first bytes of the stream, however they were cut into
  pieces; but it may have taken more than the buffer's size out of the stream, and every byte
  beyond it was written past the buffer's end and is lost to the next message.
\<close>

theorem recvall_takes_prefix:
  assumes "0 < n"
  shows "\<exists>r t. recvall (recvmsg RmFd False) n (int n) s = Inr (r, t) \<and> d_tick t \<le> d_tick s + n \<and>
    (\<forall>b. r = Some b \<longrightarrow> (\<exists>extra. net_in s = b @ extra @ net_in t \<and> length b = n \<and>
      overruns t = overruns s @ (if extra = [] then [] else [length extra])))"
proof -
  obtain r t where rt: "recv_loop (recvmsg RmFd False) (int n) [] n s = Inr (r, t)" "d_tick t \<le> d_tick s + n" "overruns t = overruns s"
    "\<And>b. r = Some b \<Longrightarrow> int n \<le> int (length b) \<and> net_in s = b @ net_in t"
    using recv_loop_net[OF assms, of "[]" "int n" s] assms by auto
  show ?thesis
  proof (cases r)
    case None
    then show ?thesis using rt(1,2) by (simp add: recvall_def bindK_Inr returnK_def)
  next
    case (Some b)
    with rt(4) have b: "n \<le> length b" "net_in s = take n b @ drop n b @ net_in t" by auto
    with Some rt(1-3) show ?thesis
      by (auto simp: recvall_def bindK_Inr thenK_def returnK_def modifyK_def intro!: exI[of _ "drop n b"])
  qed
qed

lemma recvall_takes_prefix_witness:
  "\<exists>r t. recvall (recvmsg RmFd False) 3 3 (dst0\<lparr>net_in := [1, 2, 3, 4, 5], d_io := \<lambda>_. 2\<rparr>) = Inr (r, t) \<and> d_tick t \<le> 3"
  using recvall_takes_prefix[of 3 "dst0\<lparr>net_in := [1, 2, 3, 4, 5], d_io := \<lambda>_. 2\<rparr>"] by (auto simp: dst0_def)

text \<open>
  C30.  A short first read makes \<open>recvall\<close> overrun its buffer.  When the first call delivers more
  than half of the \<open>n\<close> bytes asked for, but not all, the second may deliver as many again: the
  end of them, \<open>2 * k - n\<close> bytes that belong to the next message, lands behind the buffer.
\<close>

theorem short_read_overruns:
  assumes "d_io s (d_tick s) = int k" "int k \<le> d_io s (Suc (d_tick s))" "k < n" "n < 2 * k" "2 * k \<le> length (net_in s)"
  shows "\<exists>t. recvall (recvmsg RmFd False) n (int n) s = Inr (Some (take n (net_in s)), t) \<and>
    net_in t = drop (2 * k) (net_in s) \<and> overruns t = overruns s @ [2 * k - n]"
proof -
  let ?x = "take k (net_in s)" and ?t = "s\<lparr>d_tick := Suc (d_tick s), net_in := drop k (net_in s)\<rparr>"
  have k: "0 < k" using assms(3,4) by simp
  have 1: "recvmsg RmFd False n s = Inr (Some ?x, ?t)"
    using assms(1,3) k by (simp add: recvmsg_def Let_def min_def max_def)
  have 2: "recvmsg RmFd False k ?t = Inr (Some (take k (drop k (net_in s))),
      s\<lparr>d_tick := Suc (Suc (d_tick s)), net_in := drop (2 * k) (net_in s)\<rparr>)"
    using net.get[of ?t k] assms(2,5) k by (simp add: can_move_def mult_2)
  have cat: "?x @ take k (drop k (net_in s)) = take (2 * k) (net_in s)" by (simp add: mult_2 take_add)
  have ne: "?x \<noteq> []" "take k (drop k (net_in s)) \<noteq> []" "length ?x = k" "length (take (2 * k) (net_in s)) = 2 * k" using assms(5) k by auto
  have "recv_loop (recvmsg RmFd False) (int n) [] n s = recv_loop (recvmsg RmFd False) (int n) ?x k ?t"
    using 1 ne(1,3) assms(3) by (subst recv_loop.simps) simp
  also have "\<dots> = Inr (Some (take (2 * k) (net_in s)), s\<lparr>d_tick := Suc (Suc (d_tick s)), net_in := drop (2 * k) (net_in s)\<rparr>)"
    using 2 ne assms(4) by (subst recv_loop.simps) (simp add: cat)
  finally show ?thesis
    using assms(4) ne(4) by (simp add: recvall_def bindK_Inr thenK_def returnK_def modifyK_def min_def)
qed

lemma short_read_overruns_witness:
  "\<exists>t. recvall (recvmsg RmFd False) 3 3 (dst0\<lparr>net_in := [1, 2, 3, 4, 5], d_io := \<lambda>_. 2\<rparr>) = Inr (Some [1, 2, 3], t) \<and>
    net_in t = [5] \<and> overruns t = [1]"
  using short_read_overruns[of "dst0\<lparr>net_in := [1, 2, 3, 4, 5], d_io := \<lambda>_. 2\<rparr>" 2 3] by (auto simp: dst0_def)

end
