(* ===== verification/Daemon_Netlink.thy ===== *)
theory Daemon_Netlink
  imports Daemon_IO
begin

text \<open>
  \<open>daemon/netlink.c\<close>: the daemon's connection with the kernel module.  A message in memory is
  the bytes of its block, a \<open>struct nlmsghdr\<close> followed by its payload.
\<close>

section \<open>Messages as bytes\<close>

definition get16 :: "nat \<Rightarrow> byte list \<Rightarrow> i16" where
  "get16 off b = le_word (take 2 (drop off b))"

text \<open>\<open>nlmsg_len\<close> at 0, \<open>nlmsg_type\<close> at 4, \<open>nlmsg_flags\<close> at 6, \<open>nlmsg_seq\<close> at 8 and
  \<open>nlmsg_pid\<close> at 12.\<close>

definition nl_bytes :: "nlmsg \<Rightarrow> byte list" where
  "nl_bytes m = le_bytes 4 (nlmsg_len m) @ le_bytes 2 (nlmsg_type m) @ le_bytes 2 (nlmsg_flags m) @ le_bytes 4 (nlmsg_seq m) @
     le_bytes 4 (nlmsg_pid m) @ payload m"

definition NLMSG_ERROR :: i16 where "NLMSG_ERROR = 2"

section \<open>Operations\<close>

definition daemon_netlink_setup :: "i32 dprog" where
  "daemon_netlink_setup = bindK sys_call (\<lambda>fd.
     if fd <s 0 then returnK (- 1)
     else bindK d_malloc (\<lambda>src. bindK d_malloc (\<lambda>dst.
       if src = None \<or> dst = None then failK NullDeref
       else bindK sys_call (\<lambda>rv. if rv <s 0 then returnK (- 1) else returnK 0))))"

text \<open>A failed \<open>sendall\<close> is only reported.\<close>

definition daemon_netlink_send :: "byte list option \<Rightarrow> i32 dprog" where
  "daemon_netlink_send nlh = (case nlh of
       None \<Rightarrow> returnK (- 1)
     | Some b \<Rightarrow>
         if length b < 16 then failK OutOfBounds
         else bindK (sendall NlFd b (unat (get32 0 b)) (sint (get32 0 b))) (\<lambda>_. returnK 0))"

text \<open>First the header alone is looked at, for the length; then the message is taken.\<close>

definition daemon_netlink_recv :: "byte list option dprog" where
  "daemon_netlink_recv = bindK d_malloc (\<lambda>buffer. case buffer of
       None \<Rightarrow> returnK None
     | Some _ \<Rightarrow> bindK (recvall (recvmsg NlFd True) 16 16) (\<lambda>r. case r of
           None \<Rightarrow> returnK None
         | Some h \<Rightarrow> bindK d_malloc (\<lambda>buffer. case buffer of
               None \<Rightarrow> returnK None
             | Some _ \<Rightarrow> recvall (recvmsg NlFd False) (unat (get32 0 h)) (sint (get32 0 h)))))"

definition daemon_netlink_send_nlh :: "byte list \<Rightarrow> i32 dprog" where
  "daemon_netlink_send_nlh nlh = bindK getK (\<lambda>s.
     if length nlh < 16 then failK OutOfBounds
     else bindK (daemon_netlink_send (Some (put32 12 (proxy_pid s) nlh))) (\<lambda>rv.
       if rv = - 1 then returnK (- 1)
       else bindK daemon_netlink_recv (\<lambda>r. case r of
           None \<Rightarrow> returnK (- 1)
         | Some b \<Rightarrow>
             if length b < 16 then failK OutOfBounds
             else if get16 4 b = NLMSG_ERROR
               then (if length b < 20 then failK OutOfBounds
                     else if get32 16 b \<noteq> 0 then returnK (- 1) else returnK 0)
             else returnK (- 1))))"

definition daemon_netlink_send_msg :: "byte list option \<Rightarrow> nat \<Rightarrow> i32 \<Rightarrow> i32 \<Rightarrow> i32 dprog" where
  "daemon_netlink_send_msg buff bsize mt flags = bindK d_malloc (\<lambda>nlh. case nlh of
       None \<Rightarrow> returnK (- 1)
     | Some _ \<Rightarrow> bindK getK (\<lambda>s.
         (case buff of
            None \<Rightarrow> (\<lambda>k. k (replicate (NLMSG_ALIGN (16 + bsize) - 16) 0))
          | Some b \<Rightarrow> (\<lambda>k. if length b < bsize then failK OutOfBounds
              else k (take bsize b @ replicate (NLMSG_ALIGN (16 + bsize) - 16 - bsize) 0)))
         (\<lambda>x. bindK (daemon_netlink_send_nlh (nl_bytes \<lparr>nlmsg_len = NLMSG_SPACE (of_nat bsize), nlmsg_type = ucast mt,
                nlmsg_flags = ucast (or flags NLM_F_ACK), nlmsg_seq = 0, nlmsg_pid = proxy_pid s, payload = x\<rparr>)) (\<lambda>rv.
              if rv = - 1 then returnK (- 1) else returnK 0))))"

text \<open>\<open>strlen\<close> of a block without a NUL reads past its end.\<close>

definition d_strlen :: "byte list \<Rightarrow> nat dprog" where
  "d_strlen b = (if 0 \<in> set b then returnK (length (takeWhile (\<lambda>c. c \<noteq> 0) b)) else failK OutOfBounds)"

definition netlink_reg_dummy_dev :: "i32 dprog" where
  "netlink_reg_dummy_dev = bindK getK (\<lambda>s. bindK (d_strlen (dummy_dev_name s)) (\<lambda>n.
     daemon_netlink_send_msg (Some (dummy_dev_name s)) (n + 1) (of_nat MSGT_CONTROL_REG_DUMMY) NLM_F_REQUEST))"

definition netlink_reg_remote_dev :: "i32 dprog" where
  "netlink_reg_remote_dev = bindK getK (\<lambda>s. bindK (d_strlen (remote_dev_name s)) (\<lambda>n.
     daemon_netlink_send_msg (Some (remote_dev_name s)) (n + 1) (of_nat MSGT_CONTROL_REG_SERVER) NLM_F_REQUEST))"

definition netlink_unregister_dev :: "i32 dprog" where
  "netlink_unregister_dev = daemon_netlink_send_msg None 0 (of_nat MSGT_CONTROL_UNREGISTER) NLM_F_REQUEST"

section \<open>Running them\<close>

lemma nl_bytes_len [simp]: "length (nl_bytes m) = 16 + length (payload m)"
  by (simp add: nl_bytes_def)

lemma nl_bytes_fields [simp]:
  "get32 0 (nl_bytes m) = nlmsg_len m" "get16 4 (nl_bytes m) = nlmsg_type m" "get32 16 (nl_bytes m) = get32 0 (payload m)"
  "put32 12 p (nl_bytes m) = nl_bytes (m\<lparr>nlmsg_pid := p\<rparr>)"
  by (simp_all add: nl_bytes_def get32_def get16_def put32_def le_word_bytes32 le_word_bytes take_bit_word_eq_self)

text \<open>A message whose length field is its length.\<close>

definition nl_ok :: "nlmsg \<Rightarrow> bool" where
  "nl_ok m \<longleftrightarrow> unat (nlmsg_len m) = 16 + length (payload m) \<and> 16 + length (payload m) < 2147483648"

lemma nl_okD:
  assumes "nl_ok m"
  shows "unat (nlmsg_len m) = 16 + length (payload m)" "sint (nlmsg_len m) = int (16 + length (payload m))"
    "16 + length (payload m) < 2147483648"
proof -
  show n: "unat (nlmsg_len m) = 16 + length (payload m)" "16 + length (payload m) < 2147483648"
    using assms by (simp_all add: nl_ok_def)
  have "nlmsg_len m = of_nat (unat (nlmsg_len m))" by simp
  then have "nlmsg_len m = of_nat (16 + length (payload m))" by (simp only: n(1))
  then have "sint (nlmsg_len m) = signed_take_bit 31 (int (16 + length (payload m)))" by (simp only: signed_of_nat) simp
  also have "\<dots> = int (16 + length (payload m))" using n(2) by (intro signed_take_bit_int_eq_self) simp_all
  finally show "sint (nlmsg_len m) = int (16 + length (payload m))" .
qed

lemma netlink_recv_run:
  assumes "prompt s" "nl_in s = (nl_bytes m @ pad) # later" "nl_ok m"
  shows "daemon_netlink_recv s = Inr (Some (nl_bytes m), s\<lparr>d_tick := Suc (Suc (Suc (Suc (d_tick s)))), nl_in := later\<rparr>)"
proof -
  note n = nl_okD[OF assms(3)]
  let ?s = "\<lambda>k. s\<lparr>d_tick := k\<rparr>" and ?k = "Suc (Suc (Suc (d_tick s)))"
  have 1: "recvall (recvmsg NlFd True) 16 16 (?s (Suc (d_tick s))) = Inr (Some (take 16 (nl_bytes m)), ?s (Suc (Suc (d_tick s))))"
    using assms(1,2) by (subst peek.recvall_exact) (simp_all add: prompt_move)
  have 2: "recvall (recvmsg NlFd False) (16 + length (payload m)) (int (16 + length (payload m))) (?s ?k) =
    Inr (Some (nl_bytes m), s\<lparr>d_tick := Suc ?k, nl_in := later\<rparr>)"
    using assms(1,2) n(3) by (subst nl.recvall_exact) (simp_all add: prompt_move)
  have 3: "get32 0 (take 16 (nl_bytes m)) = nlmsg_len m" by (simp add: nl_bytes_def get32_def le_word_bytes32)
  show ?thesis
    using 1 2 3 by (simp add: daemon_netlink_recv_def bindK_def d_malloc_def prompt_mem[OF assms(1)] n(1,2))
qed

lemma netlink_send_run:
  assumes "prompt s" "nl_ok m"
  shows "daemon_netlink_send (Some (nl_bytes m)) s = Inr (0, s\<lparr>d_tick := Suc (d_tick s), nl_out := nl_out s @ [nl_bytes m]\<rparr>)"
  using nl_okD[OF assms(2)] assms(1)
  by (simp add: daemon_netlink_send_def bindK_def sendall_once prompt_move returnK_def)

text \<open>The kernel's acknowledgement: the error, then the header it answers.\<close>

definition ack_msg :: "nlmsg \<Rightarrow> i32 \<Rightarrow> byte list \<Rightarrow> bool" where
  "ack_msg a err m \<longleftrightarrow> nl_ok a \<and> nlmsg_type a = NLMSG_ERROR \<and> payload a = le_bytes 4 err @ m"

lemma send_nlh_run:
  assumes "prompt s" "nl_ok m" "nl_in s = (nl_bytes a @ pad) # later" "nl_ok a"
  shows "\<exists>k. daemon_netlink_send_nlh (nl_bytes m) s = (if nlmsg_type a = NLMSG_ERROR \<and> length (payload a) < 4 then Inl OutOfBounds
    else Inr (if nlmsg_type a = NLMSG_ERROR \<and> get32 0 (payload a) = 0 then 0 else - 1,
      s\<lparr>d_tick := k, nl_in := later, nl_out := nl_out s @ [nl_bytes (m\<lparr>nlmsg_pid := proxy_pid s\<rparr>)]\<rparr>))"
proof -
  let ?m = "m\<lparr>nlmsg_pid := proxy_pid s\<rparr>"
  let ?s = "s\<lparr>d_tick := Suc (d_tick s), nl_out := nl_out s @ [nl_bytes ?m]\<rparr>"
  have "nl_ok ?m" using assms(2) by (simp add: nl_ok_def)
  from netlink_send_run[OF assms(1) this] have 1: "daemon_netlink_send (Some (nl_bytes ?m)) s = Inr (0, ?s)" .
  have 2: "daemon_netlink_recv ?s = Inr (Some (nl_bytes a), ?s\<lparr>d_tick := Suc (Suc (Suc (Suc (d_tick ?s)))), nl_in := later\<rparr>)"
    by (rule netlink_recv_run[OF _ _ assms(4)]) (use assms(1,3) in simp_all)
  show ?thesis
    using 1 2
    by (auto simp: daemon_netlink_send_nlh_def getK_def bindK_def returnK_def failK_def)
qed

end
