(* ===== verification/Daemon_Conn.thy ===== *)
theory Daemon_Conn
  imports Daemon_Netlink
begin

text \<open>
  The rest of \<open>daemon/conn.c\<close>: the handshake between two daemons and the registration of a
  device with both kernels.  \<open>conn_server\<close> and \<open>conn_send_dev_reg\<close> run on the client,
  \<open>conn_client\<close> and \<open>conn_recv_dev_reg\<close> on the server.
\<close>

section \<open>Operations\<close>

definition NETDEV_PROTOCOL_SUCCESS :: i32 where "NETDEV_PROTOCOL_SUCCESS = 0"

text \<open>From the reply on.  The label \<open>err\<close> releases through the result of \<open>conn_recv\<close>, which
  may be NULL; \<open>rvalue\<close> still holds what \<open>connect\<close> returned.\<close>

definition conn_server_reply :: "i32 \<Rightarrow> i32 dprog" where
  "conn_server_reply result = bindK conn_recv (\<lambda>r. case r of
       None \<Rightarrow> failK NullDeref
     | Some h \<Rightarrow>
         if hd_size h \<noteq> 4 then returnK result
         else if length (hd_data h) < 4 then failK OutOfBounds
         else if get32 0 (hd_data h) \<noteq> 0 then returnK result
         else returnK 0)"

definition conn_server :: "i32 dprog" where
  "conn_server = bindK sys_call (\<lambda>fd.
     if fd = - 1 then returnK (- 1)
     else bindK d_malloc (\<lambda>rm_addr.
       if rm_addr = None then returnK (- 1)
       else bindK sys_call (\<lambda>result.
         if result = - 1 then returnK (- 1)
         else bindK d_malloc (\<lambda>ndhead.
           if ndhead = None then returnK (- 1)
           else bindK d_malloc (\<lambda>p. case p of
               None \<Rightarrow> failK NullDeref
             | Some a \<Rightarrow> bindK (conn_send \<lparr>hd_msgtype = of_nat MSGT_CONTROL_VERSION, hd_size = 4, hd_payload = a,
                     hd_data = le_bytes 4 NETDEV_PROTOCOL_VERSION\<rparr>) (\<lambda>rv.
                   if rv = - 1 then returnK result else conn_server_reply result))))))"

text \<open>A wrong message type is only reported.\<close>

definition conn_client :: "i32 dprog" where
  "conn_client = bindK conn_recv (\<lambda>r. case r of
       None \<Rightarrow> failK NullDeref
     | Some h \<Rightarrow>
         if hd_size h \<noteq> 4 then returnK (- 1)
         else if length (hd_data h) < 4 then failK OutOfBounds
         else (let reply = (if get32 0 (hd_data h) \<noteq> NETDEV_PROTOCOL_VERSION then NETDEV_PROTOCOL_VERSION
                 else NETDEV_PROTOCOL_SUCCESS) in
           bindK (conn_send (h\<lparr>hd_data := put32 0 reply (hd_data h)\<rparr>)) (\<lambda>rv.
             if rv = - 1 then returnK (- 1) else returnK reply)))"

definition conn_send_dev_reg :: "i32 dprog" where
  "conn_send_dev_reg = bindK d_malloc (\<lambda>ndhead.
     if ndhead = None then returnK (- 1)
     else bindK getK (\<lambda>s. bindK (d_strlen (remote_dev_name s)) (\<lambda>n.
       bindK (conn_send \<lparr>hd_msgtype = of_nat MSGT_CONTROL_REG_SERVER, hd_size = of_nat (n + 1),
           hd_payload = d_ptr s (d_tick s), hd_data = remote_dev_name s\<rparr>) (\<lambda>rv.
         if rv = - 1 then returnK (- 1)
         else bindK conn_recv (\<lambda>r. case r of
             None \<Rightarrow> returnK (- 1)
           | Some h \<Rightarrow>
               if length (hd_data h) < 4 then failK OutOfBounds
               else if get32 0 (hd_data h) \<noteq> NETDEV_PROTOCOL_SUCCESS then returnK (- 1)
               else bindK netlink_reg_dummy_dev (\<lambda>rv. if rv = - 1 then returnK (- 1) else returnK 0))))))"

text \<open>The reply is a block of four bytes; the size in the header is still that of the name.\<close>

definition conn_recv_dev_reg :: "i32 dprog" where
  "conn_recv_dev_reg = bindK conn_recv (\<lambda>r. case r of
       None \<Rightarrow> failK NullDeref
     | Some h \<Rightarrow>
         if hd_msgtype h \<noteq> of_nat MSGT_CONTROL_REG_SERVER then returnK (- 1)
         else bindK d_malloc (\<lambda>p.
           if p = None then returnK (- 1)
           else if length (hd_data h) < unat (hd_size h) then failK OutOfBounds
           else thenK (modifyK (\<lambda>s. s\<lparr>remote_dev_name := take (unat (hd_size h)) (hd_data h)\<rparr>))
             (bindK netlink_reg_remote_dev (\<lambda>rv.
               if rv = - 1 then returnK (- 1)
               else bindK d_malloc (\<lambda>p. case p of
                   None \<Rightarrow> failK NullDeref
                 | Some a \<Rightarrow> bindK (conn_send (h\<lparr>hd_payload := a, hd_data := le_bytes 4 NETDEV_PROTOCOL_SUCCESS\<rparr>)) (\<lambda>rv.
                     if rv = - 1 then returnK (- 1) else returnK 0))))))"

section \<open>Running them\<close>

definition version_msg :: "i64 \<Rightarrow> i32 \<Rightarrow> netdev_header" where
  "version_msg a v = \<lparr>hd_msgtype = of_nat MSGT_CONTROL_VERSION, hd_size = 4, hd_payload = a, hd_data = le_bytes 4 v\<rparr>"

lemma version_msg_simps [simp]:
  "hd_msgtype (version_msg a v) = of_nat MSGT_CONTROL_VERSION" "hd_size (version_msg a v) = 4" "hd_payload (version_msg a v) = a"
  "hd_data (version_msg a v) = le_bytes 4 v" "(version_msg a v)\<lparr>hd_payload := p\<rparr> = version_msg p v"
  "(version_msg a v)\<lparr>hd_data := le_bytes 4 w\<rparr> = version_msg a w"
  by (simp_all add: version_msg_def)

lemma get32_le [simp]: "get32 0 (le_bytes 4 v) = v" "put32 0 w (le_bytes 4 v) = le_bytes 4 w"
  by (simp_all add: get32_def put32_def le_word_bytes32)

lemma le_bytes_nonempty [simp]: "le_bytes 4 v \<noteq> []"
  by (metis le_bytes_len list.size(3) zero_neq_numeral)

lemma recv_version:
  assumes "prompt s" "net_in s = wire_of (version_msg a v) @ later"
  shows "\<exists>p k. conn_recv s = Inr (Some (version_msg p v), s\<lparr>d_tick := k, net_in := later\<rparr>)"
  using conn_recv_run[OF assms] by simp

lemma send_version:
  "prompt s \<Longrightarrow> conn_send (version_msg a v) s =
    Inr (0, s\<lparr>d_tick := Suc (Suc (d_tick s)), net_out := net_out s @ wire_of (version_msg a v)\<rparr>)"
  by (rule conn_send_run) simp_all

lemma conn_client_run:
  assumes "prompt s" "net_in s = wire_of (version_msg a v) @ later"
  shows "\<exists>p k. let r = (if v \<noteq> NETDEV_PROTOCOL_VERSION then NETDEV_PROTOCOL_VERSION else 0) in
    conn_client s = Inr (r, s\<lparr>d_tick := k, net_in := later, net_out := net_out s @ wire_of (version_msg p r)\<rparr>)"
proof -
  obtain p k where r: "conn_recv s = Inr (Some (version_msg p v), s\<lparr>d_tick := k, net_in := later\<rparr>)"
    using recv_version[OF assms] by blast
  show ?thesis
    using assms(1)
    by (simp add: conn_client_def bindK_Inr[where m = conn_recv] r Let_def NETDEV_PROTOCOL_SUCCESS_def
        bindK_Inr[where m = "conn_send h" for h] send_version returnK_def NETDEV_PROTOCOL_VERSION_def) blast
qed

text \<open>A client that can reach its server: the system calls and the first sending succeed.\<close>

definition reaches :: "dst \<Rightarrow> bool" where
  "reaches c \<longleftrightarrow> prompt c \<and> d_call c (d_tick c) \<noteq> - 1 \<and> d_call c (Suc (Suc (d_tick c))) = 0"

definition hello :: "dst \<Rightarrow> byte list" where
  "hello c = wire_of (version_msg (d_ptr c (Suc (Suc (Suc (Suc (d_tick c)))))) NETDEV_PROTOCOL_VERSION)"

lemma conn_server_run:
  assumes "reaches c" "net_in c = wire_of (version_msg a r) @ later"
  shows "\<exists>k. conn_server c = Inr (0, c\<lparr>d_tick := k, net_in := later, net_out := net_out c @ hello c\<rparr>)"
proof -
  have c: "prompt c" "d_call c (d_tick c) \<noteq> - 1" "d_call c (Suc (Suc (d_tick c))) = 0"
    using assms(1) by (simp_all add: reaches_def)
  let ?n = "Suc (Suc (Suc (Suc (Suc (d_tick c)))))"
  let ?c = "c\<lparr>d_tick := Suc (Suc ?n), net_out := net_out c @ hello c\<rparr>"
  have "prompt ?c" "net_in ?c = wire_of (version_msg a r) @ later" using c(1) assms(2) by simp_all
  then obtain p k where "conn_recv ?c = Inr (Some (version_msg p r), ?c\<lparr>d_tick := k, net_in := later\<rparr>)"
    using recv_version by blast
  then have reply: "conn_server_reply 0 ?c = Inr (0, ?c\<lparr>d_tick := k, net_in := later\<rparr>)"
    by (simp add: conn_server_reply_def bindK_Inr[where m = conn_recv] returnK_def)
  have send: "conn_send (version_msg (d_ptr c (Suc (Suc (Suc (Suc (d_tick c)))))) NETDEV_PROTOCOL_VERSION) (c\<lparr>d_tick := ?n\<rparr>) = Inr (0, ?c)"
    using send_version[of "c\<lparr>d_tick := ?n\<rparr>"] c(1) by (simp add: hello_def)
  have "conn_server c = conn_server_reply 0 ?c"
    by (simp add: conn_server_def bindK_def sys_call_def d_malloc_def c prompt_mem[OF c(1)] version_msg_def[symmetric] send)
  then show ?thesis using reply by auto
qed

section \<open>Properties\<close>

text \<open>
  C24.  The handshake.  When the client can reach the server, the server reads the client's version
  and answers with success, the client reads that answer, and both return 0; each leaves in its
  stream exactly what the other sent afterwards.
\<close>

theorem handshake_succeeds:
  assumes "reaches c" "prompt s" "net_in s = hello c @ later_s"
  shows "\<exists>s' b. conn_client s = Inr (0, s') \<and> net_in s' = later_s \<and> net_out s' = net_out s @ b \<and>
    (\<forall>later_c. net_in c = b @ later_c \<longrightarrow>
      (\<exists>c'. conn_server c = Inr (0, c') \<and> net_in c' = later_c \<and> net_out c' = net_out c @ hello c))"
proof -
  obtain p k where s: "conn_client s = Inr (0, s\<lparr>d_tick := k, net_in := later_s, net_out := net_out s @ wire_of (version_msg p 0)\<rparr>)"
    using conn_client_run[OF assms(2) assms(3)[unfolded hello_def]] by (auto simp: Let_def)
  have "\<exists>c'. conn_server c = Inr (0, c') \<and> net_in c' = later_c \<and> net_out c' = net_out c @ hello c"
    if "net_in c = wire_of (version_msg p 0) @ later_c" for later_c
    using conn_server_run[OF assms(1) that] by auto
  with s show ?thesis by auto
qed

lemma handshake_succeeds_witness:
  "\<exists>s' b. conn_client (dst0\<lparr>net_in := hello dst0 @ [1]\<rparr>) = Inr (0, s') \<and> net_in s' = [1] \<and> net_out s' = b"
proof -
  have "reaches dst0" using dst0_prompt by (simp add: reaches_def dst0_def)
  moreover have "prompt (dst0\<lparr>net_in := hello dst0 @ [1]\<rparr>)" using dst0_prompt by simp
  ultimately show ?thesis using handshake_succeeds[of dst0 "dst0\<lparr>net_in := hello dst0 @ [1]\<rparr>" "[1]"] by (auto simp: dst0_def)
qed

text \<open>
  C29.  A wrong version goes unnoticed on both sides.  The server tells a client of another version
  so, but returns 2, which its caller does not take for a failure; and the client, whatever the
  server answers, returns the 0 that \<open>connect\<close> left in \<open>rvalue\<close>.
\<close>

theorem version_mismatch_unnoticed:
  assumes "prompt s" "net_in s = wire_of (version_msg a v) @ later" "v \<noteq> NETDEV_PROTOCOL_VERSION"
    and "reaches c" "net_in c = wire_of (version_msg a' r) @ later'"
  shows "fst (projr (conn_client s)) \<noteq> - 1 \<and> fst (projr (conn_server c)) = 0 \<and>
    (\<exists>p. net_out (snd (projr (conn_client s))) = net_out s @ wire_of (version_msg p NETDEV_PROTOCOL_VERSION))"
proof -
  have "(2 :: i32) \<noteq> - 1" by simp
  then show ?thesis
    using conn_client_run[OF assms(1,2)] conn_server_run[OF assms(4,5)] assms(3)
    by (auto simp: Let_def NETDEV_PROTOCOL_VERSION_def)
qed

lemma version_mismatch_unnoticed_witness:
  "fst (projr (conn_client (dst0\<lparr>net_in := wire_of (version_msg 0 3)\<rparr>))) \<noteq> - 1 \<and>
    fst (projr (conn_server (dst0\<lparr>net_in := wire_of (version_msg 0 2)\<rparr>))) = 0"
proof -
  have "reaches (dst0\<lparr>net_in := wire_of (version_msg 0 2)\<rparr>)"
    using dst0_prompt by (simp add: reaches_def) (simp add: dst0_def)
  then show ?thesis
    using version_mismatch_unnoticed[of "dst0\<lparr>net_in := wire_of (version_msg 0 3)\<rparr>" 0 3 "[]" "dst0\<lparr>net_in := wire_of (version_msg 0 2)\<rparr>" 0 2 "[]"]
      dst0_prompt by (simp add: NETDEV_PROTOCOL_VERSION_def)
qed

text \<open>The registration message a daemon sends to its kernel.\<close>

definition reg_msg :: "i32 \<Rightarrow> i32 \<Rightarrow> byte list \<Rightarrow> nat \<Rightarrow> nlmsg" where
  "reg_msg pid mt b n = \<lparr>nlmsg_len = NLMSG_SPACE (of_nat n), nlmsg_type = ucast mt, nlmsg_flags = ucast (or NLM_F_REQUEST NLM_F_ACK),
     nlmsg_seq = 0, nlmsg_pid = pid, payload = take n b @ replicate (NLMSG_ALIGN (16 + n) - 16 - n) 0\<rparr>"

lemma unat_small: "n < 2147483648 \<Longrightarrow> unat (of_nat n :: i64) = n"
  by (simp add: unsigned_of_nat take_bit_nat_eq_self)

lemma align_bounds: "k \<le> NLMSG_ALIGN k" "NLMSG_ALIGN k < k + 4"
  unfolding NLMSG_ALIGN_def by linarith+

lemma reg_msg_ok:
  assumes "n \<le> length b" "n < 2147483000"
  shows "nl_ok (reg_msg pid mt b n)"
proof -
  have n: "unat (of_nat n :: i64) = n" using assms(2) by (intro unat_small) simp
  have a: "16 + n \<le> NLMSG_ALIGN (16 + n)" "NLMSG_ALIGN (16 + n) < 2147483648"
    using align_bounds[of "16 + n"] assms(2) by linarith+
  have "unat (NLMSG_SPACE (of_nat n)) = NLMSG_ALIGN (16 + n)"
    using a(2) unfolding NLMSG_SPACE_def n NLMSG_HDRLEN_def by (simp add: unsigned_of_nat take_bit_nat_eq_self)
  then show ?thesis using a assms(1) by (simp add: nl_ok_def reg_msg_def)
qed

lemma send_msg_run:
  assumes "prompt s" "n \<le> length b" "n < 2147483000" "nl_in s = (nl_bytes a @ pad) # later" "ack_msg a err h"
  shows "\<exists>k. daemon_netlink_send_msg (Some b) n mt NLM_F_REQUEST s = Inr (if err = 0 then 0 else - 1,
    s\<lparr>d_tick := k, nl_in := later, nl_out := nl_out s @ [nl_bytes (reg_msg (proxy_pid s) mt b n)]\<rparr>)"
proof -
  let ?s = "s\<lparr>d_tick := Suc (d_tick s)\<rparr>"
  have a: "nl_ok a" "nlmsg_type a = NLMSG_ERROR" "payload a = le_bytes 4 err @ h" using assms(5) by (simp_all add: ack_msg_def)
  have "get32 0 (payload a) = err" "\<not> length (payload a) < 4" by (simp_all add: a(3) get32_def le_word_bytes32)
  then obtain k where "daemon_netlink_send_nlh (nl_bytes (reg_msg (proxy_pid s) mt b n)) ?s = Inr (if err = 0 then 0 else - 1,
      s\<lparr>d_tick := k, nl_in := later, nl_out := nl_out s @ [nl_bytes (reg_msg (proxy_pid s) mt b n)]\<rparr>)"
    using send_nlh_run[of ?s "reg_msg (proxy_pid s) mt b n" a pad later] assms(1,4) reg_msg_ok[OF assms(2,3)] a(1,2)
    by (auto simp: reg_msg_def)
  then show ?thesis
    using assms(2) by (intro exI[of _ k]) (simp add: daemon_netlink_send_msg_def bindK_def d_malloc_def prompt_mem[OF assms(1)] getK_def reg_msg_def returnK_def)
qed

lemma d_strlen_run: "0 \<notin> set name \<Longrightarrow> d_strlen (name @ 0 # pad) s = Inr (length name, s)"
  by (simp add: d_strlen_def returnK_def)
    (metis (mono_tags, lifting) append_Nil2 takeWhile.simps(2) takeWhile_append2)

text \<open>
  C31.  Registering a device with the server.  The daemon passes the name it receives on to its kernel
  in one message, which asks for an acknowledgement and carries the name with its NUL.  But when
  the kernel has accepted it, the reply to the client is read from a block of four bytes with
  the size of the name: only names of up to three characters leave that block.
\<close>

theorem registration_reply_overread:
  assumes "prompt s" "0 \<notin> set name" "length name < 2147482000"
    and "net_in s = wire_of \<lparr>hd_msgtype = of_nat MSGT_CONTROL_REG_SERVER, hd_size = of_nat (length name + 1), hd_payload = a,
      hd_data = name @ [0]\<rparr> @ later"
    and "nl_in s = (nl_bytes ack @ pad) # more_nl" "ack_msg ack 0 h"
  shows "if 3 < length name then conn_recv_dev_reg s = Inl OutOfBounds
    else (\<exists>t m. conn_recv_dev_reg s = Inr (0, t) \<and> nl_out t = nl_out s @ [nl_bytes m] \<and> wants_ack m \<and> nlmsg_pid m = proxy_pid s \<and>
      unat (nlmsg_type m) = MSGT_CONTROL_REG_SERVER \<and> (\<exists>z. payload m = name @ 0 # z) \<and> net_in t = later)"
proof -
  let ?n = "length name + 1" and ?m = "reg_msg (proxy_pid s) (of_nat MSGT_CONTROL_REG_SERVER) (name @ [0]) (length name + 1)"
  define hd where "hd = \<lparr>hd_msgtype = of_nat MSGT_CONTROL_REG_SERVER, hd_size = of_nat ?n, hd_payload = a, hd_data = name @ [0]\<rparr>"
  have n: "unat (of_nat ?n :: i64) = ?n"
    using assms(3) by (intro unat_small) simp
  then have n': "unat (1 + word_of_nat (length name) :: i64) = Suc (length name)" by simp
  have "unat (hd_size hd) = length (hd_data hd)" "hd_data hd \<noteq> []" "length (hd_data hd) < 2147483000"
    using n assms(3) by (simp_all only: hd_def netdev_header.simps) simp_all
  then obtain p k where recv: "conn_recv s = Inr (Some (hd\<lparr>hd_payload := p\<rparr>), s\<lparr>d_tick := k, net_in := later\<rparr>)"
    using conn_recv_run[OF assms(1,4)[folded hd_def]] by blast
  let ?s1 = "s\<lparr>d_tick := Suc k, net_in := later, remote_dev_name := name @ [0]\<rparr>"
  have "n \<le> length (name @ [0])" "n < 2147483000" if "n = ?n" for n using that assms(3) by simp_all
  then obtain j where reg: "netlink_reg_remote_dev ?s1 = Inr (0, ?s1\<lparr>d_tick := j, nl_in := more_nl, nl_out := nl_out s @ [nl_bytes ?m]\<rparr>)"
    using send_msg_run[of ?s1 ?n "name @ [0]" ack pad more_nl 0 h "of_nat MSGT_CONTROL_REG_SERVER"] assms(1,5,6)
    by (auto simp: netlink_reg_remote_dev_def getK_def bindK_def d_strlen_run[OF assms(2), of "[]"])
  let ?s2 = "?s1\<lparr>d_tick := Suc j, nl_in := more_nl, nl_out := nl_out s @ [nl_bytes ?m]\<rparr>"
  let ?h = "hd\<lparr>hd_payload := d_ptr s j, hd_data := le_bytes 4 NETDEV_PROTOCOL_SUCCESS\<rparr>"
  have run: "conn_recv_dev_reg s = bindK (conn_send ?h) (\<lambda>rv. if rv = - 1 then returnK (- 1) else returnK 0) ?s2"
    using reg n prompt_mem[OF assms(1)]
    by (simp add: conn_recv_dev_reg_def bindK_Inr[where m = conn_recv] recv)
      (simp add: hd_def bindK_def thenK_def modifyK_def d_malloc_def)
  show ?thesis
  proof (cases "3 < length name")
    case True
    then show ?thesis using prompt_mem[OF assms(1)]
      by (simp add: run) (simp add: hd_def n' conn_send_def bindK_def d_malloc_def failK_def)
  next
    case False
    have "conn_send ?h ?s2 = Inr (0, ?s2\<lparr>d_tick := Suc (Suc (d_tick ?s2)), net_out := net_out s @ wire_of ?h\<rparr>)"
      using False assms(1) n by (subst conn_send_run) (simp_all add: hd_def n')
    moreover have "wants_ack ?m" "nlmsg_pid ?m = proxy_pid s" "unat (nlmsg_type ?m) = MSGT_CONTROL_REG_SERVER"
      "\<exists>z. payload ?m = name @ 0 # z"
      by (simp_all add: reg_msg_def wants_ack_def NLM_F_REQUEST_def NLM_F_ACK_def MSGT_CONTROL_REG_SERVER_def)
    ultimately show ?thesis using False
      by (simp add: run bindK_Inr[where m = "conn_send h" for h] returnK_def) blast
  qed
qed

definition ok_ack :: nlmsg where
  "ok_ack = \<lparr>nlmsg_len = 36, nlmsg_type = NLMSG_ERROR, nlmsg_flags = 0, nlmsg_seq = 0, nlmsg_pid = 7,
     payload = le_bytes 4 (0 :: i32) @ replicate 16 0\<rparr>"

lemma ok_ack_ok: "ack_msg ok_ack 0 (replicate 16 0)" "nl_ok ok_ack" "nlmsg_type ok_ack = NLMSG_ERROR"
  "get32 0 (payload ok_ack) = 0" "4 \<le> length (payload ok_ack)"
  by (simp_all add: ack_msg_def nl_ok_def ok_ack_def get32_def le_word_bytes32)

lemma registration_reply_overread_witness:
  "conn_recv_dev_reg (dst0\<lparr>net_in := wire_of \<lparr>hd_msgtype = of_nat MSGT_CONTROL_REG_SERVER, hd_size = 15, hd_payload = 0,
      hd_data = urandom_name @ [0]\<rparr>, nl_in := [nl_bytes ok_ack]\<rparr>) = Inl OutOfBounds"
proof -
  let ?h = "\<lparr>hd_msgtype = of_nat MSGT_CONTROL_REG_SERVER, hd_size = 15, hd_payload = 0, hd_data = urandom_name @ [0]\<rparr>"
  let ?s = "dst0\<lparr>net_in := wire_of ?h, nl_in := [nl_bytes ok_ack]\<rparr>"
  have u: "length urandom_name = 14" "0 \<notin> set urandom_name" by (simp_all add: urandom_name_def)
  have n: "of_nat (length urandom_name + 1) = (15 :: i64)" by (simp add: u(1))
  have p: "prompt ?s" "net_in ?s = wire_of ?h @ []" "nl_in ?s = (nl_bytes ok_ack @ []) # []" using dst0_prompt by simp_all
  show ?thesis
    using registration_reply_overread[OF p(1) u(2) _ _ p(3) ok_ack_ok(1), of 0 "[]"] p(2) unfolding n by (simp add: u(1))
qed

end
