(* ===== verification/Daemon_Signal.thy ===== *)
theory Daemon_Signal
  imports Daemon_IO
begin

text \<open>
  \<open>daemon/signal.c\<close>, the wrapper round \<open>sigaction\<close>, and its use by the two kinds of process.
\<close>

definition SIGHUP :: nat where "SIGHUP = 1"
definition SIGINT :: nat where "SIGINT = 2"
definition SIGALRM :: nat where "SIGALRM = 14"
definition SIGCHLD :: nat where "SIGCHLD = 17"
definition SA_RESTART :: i32 where "SA_RESTART = 0x10000000"

text \<open>Whether it succeeded; otherwise it returns \<open>SIG_ERR\<close>.\<close>

definition set_signal :: "nat \<Rightarrow> sighandler \<Rightarrow> bool dprog" where
  "set_signal signo func = bindK sys_call (\<lambda>r.
     if r <s 0 then returnK False
     else thenK (modifyK (\<lambda>s. s\<lparr>sig_actions := (sig_actions s)(signo \<mapsto> (func, if signo = SIGALRM then SA_RESTART else 0))\<rparr>))
       (returnK True))"

text \<open>The first call is \<open>prctl\<close>.  No result is looked at.\<close>

definition proxy_setup_signals :: "unit dprog" where
  "proxy_setup_signals = bindK sys_call (\<lambda>_. bindK (set_signal SIGHUP ProxySigHup) (\<lambda>_. bindK (set_signal SIGINT SigIgn)
     (\<lambda>_. returnK ())))"

text \<open>The handler of \<open>SIGHUP\<close>: the unregistration it is meant for is commented out.\<close>

definition proxy_sig_hup :: "unit dprog" where
  "proxy_sig_hup = returnK ()"

end
