(* ===== verification/Daemon_Proxy.thy ===== *)
theory Daemon_Proxy
  imports Daemon_Conn Daemon_Signal
begin

text \<open>
  \<open>daemon/proxy.c\<close>: a daemon's life, and the relay between its kernel and the other daemon.
  The struct \<open>proxy_dev\<close> is the state of the process.
\<close>

section \<open>Setting up and releasing\<close>

definition proxy_setup_unixsoc :: "i32 dprog" where
  "proxy_setup_unixsoc = bindK sys_call (\<lambda>r. if r = - 1 then returnK (- 1) else returnK 0)"

text \<open>The struct of a server is not zeroed, and only some of its members are set.\<close>

definition proxy_alloc_dev :: "bool dprog" where
  "proxy_alloc_dev = bindK d_malloc (\<lambda>pdev.
     if pdev = None then returnK False
     else bindK d_malloc (\<lambda>rm_addr. bindK sys_call (\<lambda>r.
       if rm_addr = None \<or> r = - 1 then returnK False
       else bindK sys_call (\<lambda>pid. thenK (modifyK (\<lambda>s. s\<lparr>proxy_pid := pid, pdev_zeroed := False\<rparr>)) (returnK True)))))"

text \<open>It frees \<open>us_addr\<close>, which is never set: in a struct that was not zeroed, a wild pointer.\<close>

definition proxy_destroy :: "unit dprog" where
  "proxy_destroy = bindK getK (\<lambda>s. if pdev_zeroed s then returnK () else failK BadPointer)"

section \<open>The relay\<close>

definition fo_type :: "i32 \<Rightarrow> bool" where
  "fo_type t \<longleftrightarrow> of_nat MSGT_FO_START <s t \<and> t <s of_nat MSGT_FO_END"

definition proxy_control :: "i32 dprog" where
  "proxy_control = returnK (- 1)"

definition proxy_handle_remote :: "i32 dprog" where
  "proxy_handle_remote = bindK sys_call (\<lambda>r.
     if r \<noteq> 0 then returnK (- 1)
     else bindK conn_recv (\<lambda>ndhead. case ndhead of
         None \<Rightarrow> returnK (- 1)
       | Some h \<Rightarrow>
           if fo_type (hd_msgtype h) then bindK (daemon_netlink_send_nlh (hd_data h)) (\<lambda>_. returnK 0)
           else returnK (- 1)))"

definition proxy_handle_netlink :: "i32 dprog" where
  "proxy_handle_netlink = bindK daemon_netlink_recv (\<lambda>nlh. case nlh of
       None \<Rightarrow> returnK (- 1)
     | Some b \<Rightarrow>
         if length b < 16 then failK OutOfBounds
         else if fo_type (ucast (get16 4 b))
           then bindK d_malloc (\<lambda>ndhead. case ndhead of
               None \<Rightarrow> returnK (- 1)
             | Some a \<Rightarrow> bindK (conn_send \<lparr>hd_msgtype = ucast (get16 4 b), hd_size = ucast (get32 0 b), hd_payload = a, hd_data = b\<rparr>)
                 (\<lambda>_. returnK 0))
         else returnK (- 1))"

text \<open>
  One round of \<open>proxy_loop\<close>; \<open>None\<close> goes on to the next.  The result of \<open>select\<close> stands for
  the sockets that are ready as well: bit 0 for the control socket, bit 1 for the kernel's, bit 2
  for the other daemon's.
\<close>

definition proxy_round :: "i32 option dprog" where
  "proxy_round = bindK sys_call (\<lambda>ready.
     if ready = - 1 then returnK (Some (- 1))
     else if bit ready 0 then bindK proxy_control (\<lambda>r. returnK (Some (if r = - 1 then - 1 else 0)))
     else bindK (if bit ready 1 then proxy_handle_netlink else returnK 0) (\<lambda>r.
       if r = - 1 then returnK (Some (- 1))
       else bindK (if bit ready 2 then proxy_handle_remote else returnK 0) (\<lambda>r.
         returnK (if r = - 1 then Some (- 1) else None))))"

partial_function (option) proxy_loop :: "dst \<Rightarrow> (fault + i32 \<times> dst) option" where
  "proxy_loop s = (case proxy_round s of
       Inl e \<Rightarrow> Some (Inl e)
     | Inr (Some r, t) \<Rightarrow> Some (Inr (r, t))
     | Inr (None, t) \<Rightarrow> proxy_loop t)"

section \<open>The two kinds of daemon\<close>

text \<open>Up to the loop; whether it is reached.\<close>

definition proxy_client_setup :: "bool dprog" where
  "proxy_client_setup = bindK sys_call (\<lambda>pid. thenK (modifyK (\<lambda>s. s\<lparr>proxy_pid := pid\<rparr>)) (thenK proxy_setup_signals
     (bindK proxy_setup_unixsoc (\<lambda>r. if r = - 1 then returnK False
      else bindK daemon_netlink_setup (\<lambda>r. if r = - 1 then returnK False
      else bindK conn_server (\<lambda>r. if r = - 1 then returnK False
      else bindK conn_send_dev_reg (\<lambda>r. returnK (r \<noteq> - 1))))))))"

definition proxy_server_setup :: "bool dprog" where
  "proxy_server_setup = thenK proxy_setup_signals (bindK proxy_alloc_dev (\<lambda>ok. if \<not> ok then returnK False
      else bindK proxy_setup_unixsoc (\<lambda>r. if r = - 1 then returnK False
      else bindK daemon_netlink_setup (\<lambda>r. if r = - 1 then returnK False
      else bindK conn_client (\<lambda>r. if r = - 1 then returnK False
      else bindK conn_recv_dev_reg (\<lambda>r. returnK (r \<noteq> - 1)))))))"

text \<open>The loop and what follows it.\<close>

definition proxy_serve :: "dst \<Rightarrow> (fault + unit \<times> dst) option" where
  "proxy_serve s = (case proxy_loop s of
       None \<Rightarrow> None
     | Some (Inl e) \<Rightarrow> Some (Inl e)
     | Some (Inr (_, t)) \<Rightarrow> Some (bindK netlink_unregister_dev (\<lambda>_. proxy_destroy) t))"

definition proxy_client :: "dst \<Rightarrow> (fault + unit \<times> dst) option" where
  "proxy_client s = (case proxy_client_setup s of
       Inl e \<Rightarrow> Some (Inl e)
     | Inr (ok, t) \<Rightarrow> if ok then proxy_serve t else Some (proxy_destroy t))"

definition proxy_server :: "dst \<Rightarrow> (fault + unit \<times> dst) option" where
  "proxy_server s = (case proxy_server_setup s of
       Inl e \<Rightarrow> Some (Inl e)
     | Inr (ok, t) \<Rightarrow> if ok then proxy_serve t else Some (Inr ((), t)))"

section \<open>Running the relay\<close>

definition fo_msg :: "nlmsg \<Rightarrow> bool" where
  "fo_msg m \<longleftrightarrow> MSGT_FO_START < unat (nlmsg_type m) \<and> unat (nlmsg_type m) < MSGT_FO_END"

lemma fo_type_word: "fo_type (ucast (t :: i16)) \<longleftrightarrow> MSGT_FO_START < unat t \<and> unat t < MSGT_FO_END"
proof -
  have u: "unat t < 65536" using unsigned_less[of t, where 'a = nat] by simp
  have "ucast t = (of_nat (unat t) :: i32)" by simp
  then have "sint (ucast t :: i32) = signed_take_bit 31 (int (unat t))" by (simp only: signed_of_nat) simp
  also have "\<dots> = int (unat t)" using u by (intro signed_take_bit_int_eq_self) (simp_all del: of_nat_unat)
  finally have t: "sint (ucast t :: i32) = int (unat t)" .
  show ?thesis
    unfolding fo_type_def word_sless_alt t by (simp add: MSGT_FO_START_def MSGT_FO_END_def del: of_nat_unat)
qed

text \<open>The message between daemons that carries a netlink message.\<close>

definition carries :: "netdev_header \<Rightarrow> nlmsg \<Rightarrow> bool" where
  "carries h m \<longleftrightarrow> hd_msgtype h = ucast (nlmsg_type m) \<and> unat (hd_size h) = length (hd_data h) \<and> hd_data h = nl_bytes m"

text \<open>A file operation whose length field is its length and fits a message between daemons.\<close>

definition relayable :: "nlmsg \<Rightarrow> bool" where
  "relayable m \<longleftrightarrow> nl_ok m \<and> fo_msg m \<and> length (payload m) < 2147482000"

lemma handle_netlink_run:
  assumes "prompt s" "nl_in s = (nl_bytes m @ pad) # later" "relayable m"
  shows "\<exists>h k. carries h m \<and>
    proxy_handle_netlink s = Inr (0, s\<lparr>d_tick := k, nl_in := later, net_out := net_out s @ wire_of h\<rparr>)"
proof -
  have m: "nl_ok m" "fo_msg m" "length (payload m) < 2147482000" using assms(3) by (simp_all add: relayable_def)
  let ?k = "Suc (Suc (Suc (Suc (d_tick s))))"
  let ?s = "s\<lparr>d_tick := Suc ?k, nl_in := later\<rparr>"
  let ?h = "\<lparr>hd_msgtype = ucast (nlmsg_type m), hd_size = ucast (nlmsg_len m), hd_payload = d_ptr s ?k, hd_data = nl_bytes m\<rparr>"
  have sz: "unat (ucast (nlmsg_len m) :: i64) = unat (nlmsg_len m)" using unsigned_less[of "nlmsg_len m", where 'a = nat]
    by (simp add: unsigned_ucast_eq take_bit_word_eq_self take_bit_nat_eq_self)
  have c: "carries ?h m" using nl_okD(1)[OF m(1)] by (simp add: carries_def sz)
  have "conn_send ?h ?s = Inr (0, ?s\<lparr>d_tick := Suc (Suc (Suc ?k)), net_out := net_out s @ wire_of ?h\<rparr>)"
    using conn_send_run[of ?s ?h] assms(1) nl_okD(1)[OF m(1)] m(3) by (simp add: sz)
  then have "proxy_handle_netlink s = Inr (0, ?s\<lparr>d_tick := Suc (Suc (Suc ?k)), net_out := net_out s @ wire_of ?h\<rparr>)"
    using m(2) by (simp add: proxy_handle_netlink_def bindK_Inr[where m = daemon_netlink_recv] netlink_recv_run[OF assms(1,2) m(1)]
        fo_type_word fo_msg_def bindK_def d_malloc_def prompt_mem[OF assms(1)] returnK_def)
  with c show ?thesis by (intro exI[of _ ?h] exI[of _ "Suc (Suc (Suc ?k))"]) simp
qed

text \<open>An acknowledgement that \<open>proxy_handle_netlink\<close> reads breaks the loop.\<close>

lemma handle_netlink_ack_run:
  assumes "prompt s" "nl_in s = (nl_bytes a @ pad) # later" "nl_ok a" "nlmsg_type a = NLMSG_ERROR"
  shows "proxy_handle_netlink s = Inr (- 1, s\<lparr>d_tick := Suc (Suc (Suc (Suc (d_tick s)))), nl_in := later\<rparr>)"
proof -
  have f: "\<not> fo_type (ucast NLMSG_ERROR)"
    using fo_type_word[of NLMSG_ERROR] by (simp add: NLMSG_ERROR_def MSGT_FO_START_def)
  show ?thesis
    unfolding proxy_handle_netlink_def
    by (subst bindK_Inr[where m = daemon_netlink_recv, OF netlink_recv_run[OF assms(1-3)]]) (simp add: assms(4) f returnK_def)
qed

lemma handle_remote_run:
  assumes "prompt s" "net_in s = wire_of h @ later" "carries h m" "relayable m"
    and "nl_in s = (nl_bytes a @ pad) # later_nl" "nl_ok a" "nlmsg_type a = NLMSG_ERROR \<Longrightarrow> 4 \<le> length (payload a)"
    and "d_call s (d_tick s) = 0"
  shows "\<exists>k. proxy_handle_remote s = Inr (0, s\<lparr>d_tick := k, net_in := later, nl_in := later_nl,
    nl_out := nl_out s @ [nl_bytes (m\<lparr>nlmsg_pid := proxy_pid s\<rparr>)]\<rparr>)"
proof -
  have m: "nl_ok m" "fo_msg m" "length (payload m) < 2147482000" using assms(4) by (simp_all add: relayable_def)
  have h: "unat (hd_size h) = length (hd_data h)" "hd_data h = nl_bytes m" "hd_msgtype h = ucast (nlmsg_type m)"
    using assms(3) by (simp_all add: carries_def)
  have ne: "hd_data h \<noteq> []" "length (hd_data h) < 2147483000" using m(3) by (auto simp: h(2) nl_bytes_def le_bytes_nonempty)
  let ?s = "s\<lparr>d_tick := Suc (d_tick s)\<rparr>"
  obtain p k where r: "conn_recv ?s = Inr (Some (h\<lparr>hd_payload := p\<rparr>), s\<lparr>d_tick := k, net_in := later\<rparr>)"
    using conn_recv_run[of ?s h later] assms(1,2) h(1) ne by auto
  have nt: "(nlmsg_type a = NLMSG_ERROR \<and> length (payload a) < 4) = False" using assms(7) by auto
  obtain j where n: "daemon_netlink_send_nlh (nl_bytes m) (s\<lparr>d_tick := k, net_in := later\<rparr>) =
    Inr (if nlmsg_type a = NLMSG_ERROR \<and> get32 0 (payload a) = 0 then 0 else - 1,
      s\<lparr>d_tick := j, net_in := later, nl_in := later_nl, nl_out := nl_out s @ [nl_bytes (m\<lparr>nlmsg_pid := proxy_pid s\<rparr>)]\<rparr>)"
    using send_nlh_run[of "s\<lparr>d_tick := k, net_in := later\<rparr>" m a pad later_nl] assms(1,5,6) m(1) unfolding nt if_False by auto
  show ?thesis
    using r n m(2) assms(8)
    by (intro exI[of _ j]) (simp add: proxy_handle_remote_def bindK_def sys_call_def h fo_type_word fo_msg_def returnK_def)
qed

section \<open>Properties\<close>

text \<open>
  C10.  The relay changes the sender's process id and nothing else.  A file operation that a daemon
  reads from its kernel goes to the other daemon whole, and what that daemon, given those bytes,
  hands to its own kernel is the same message with its own process id in the header.
\<close>

theorem relay_changes_pid_only:
  assumes "prompt c" "nl_in c = (nl_bytes m @ pad) # more_nl" "relayable m"
  shows "\<exists>c' b. proxy_handle_netlink c = Inr (0, c') \<and> nl_in c' = more_nl \<and> net_out c' = net_out c @ b \<and>
    (\<forall>s later a pad' nl'. prompt s \<and> d_call s (d_tick s) = 0 \<and> net_in s = b @ later \<and> nl_in s = (nl_bytes a @ pad') # nl' \<and> ack_msg a 0 x \<longrightarrow>
      (\<exists>s'. proxy_handle_remote s = Inr (0, s') \<and> net_in s' = later \<and> nl_in s' = nl' \<and>
        nl_out s' = nl_out s @ [nl_bytes (m\<lparr>nlmsg_pid := proxy_pid s\<rparr>)]))"
proof -
  obtain h k where h: "carries h m" "proxy_handle_netlink c = Inr (0, c\<lparr>d_tick := k, nl_in := more_nl, net_out := net_out c @ wire_of h\<rparr>)"
    using handle_netlink_run[OF assms] by blast
  have "\<exists>s'. proxy_handle_remote s = Inr (0, s') \<and> net_in s' = later \<and> nl_in s' = nl' \<and>
      nl_out s' = nl_out s @ [nl_bytes (m\<lparr>nlmsg_pid := proxy_pid s\<rparr>)]"
    if s: "prompt s" "d_call s (d_tick s) = 0" "net_in s = wire_of h @ later" "nl_in s = (nl_bytes a @ pad') # nl'" "ack_msg a 0 x"
    for s later a pad' nl'
  proof -
    have "nl_ok a" "4 \<le> length (payload a)" using s(5) by (simp_all add: ack_msg_def)
    then show ?thesis using handle_remote_run[OF s(1,3) h(1) assms(3) s(4)] s(2) by fastforce
  qed
  with h(2) show ?thesis by (intro exI[of _ "wire_of h"] exI conjI[rotated]) auto
qed

lemma carries_wire: "carries h m \<Longrightarrow> wire_of h \<noteq> []"
  by (metis header_len append_is_Nil_conv list.size(3) wire_of_def zero_neq_numeral)

text \<open>A concrete file operation, and a header that carries it.\<close>

definition seek_msg :: nlmsg where
  "seek_msg = \<lparr>nlmsg_len = 18, nlmsg_type = 101, nlmsg_flags = 5, nlmsg_seq = 3, nlmsg_pid = 9, payload = [1, 2]\<rparr>"

definition seek_head :: netdev_header where
  "seek_head = \<lparr>hd_msgtype = 101, hd_size = 18, hd_payload = 4096, hd_data = nl_bytes seek_msg\<rparr>"

lemma seek_msg_ok: "relayable seek_msg" "carries seek_head seek_msg"
  by (simp_all add: relayable_def nl_ok_def fo_msg_def seek_msg_def MSGT_FO_START_def MSGT_FO_END_def carries_def seek_head_def)

lemma relay_changes_pid_only_witness:
  "\<exists>c' b. proxy_handle_netlink (dst0\<lparr>nl_in := [nl_bytes seek_msg]\<rparr>) = Inr (0, c') \<and> net_out c' = b \<and>
    (\<exists>s'. proxy_handle_remote (dst0\<lparr>net_in := b, nl_in := [nl_bytes ok_ack]\<rparr>) = Inr (0, s') \<and>
      nl_out s' = [nl_bytes (seek_msg\<lparr>nlmsg_pid := 7\<rparr>)])"
proof -
  have p: "prompt (dst0\<lparr>nl_in := [nl_bytes seek_msg]\<rparr>)" "prompt (dst0\<lparr>net_in := b, nl_in := [nl_bytes ok_ack]\<rparr>)" for b
    using dst0_prompt by simp_all
  have d: "d_call dst0 i = 0" "net_out dst0 = []" "nl_out dst0 = []" "proxy_pid dst0 = 7" for i by (simp_all add: dst0_def)
  obtain c' b where c: "proxy_handle_netlink (dst0\<lparr>nl_in := [nl_bytes seek_msg]\<rparr>) = Inr (0, c')" "net_out c' = b"
    "\<And>s later a pad' nl'. prompt s \<Longrightarrow> d_call s (d_tick s) = 0 \<Longrightarrow> net_in s = b @ later \<Longrightarrow> nl_in s = (nl_bytes a @ pad') # nl' \<Longrightarrow>
      ack_msg a 0 (replicate 16 0) \<Longrightarrow> \<exists>s'. proxy_handle_remote s = Inr (0, s') \<and> net_in s' = later \<and> nl_in s' = nl' \<and>
        nl_out s' = nl_out s @ [nl_bytes (seek_msg\<lparr>nlmsg_pid := proxy_pid s\<rparr>)]"
    using relay_changes_pid_only[OF p(1) _ seek_msg_ok(1), of "[]" "[]" "replicate 16 0"] d by auto
  from c(3)[OF p(2), of b "[]" ok_ack "[]" "[]"] ok_ack_ok(1) c(1,2) d show ?thesis by auto
qed

text \<open>
  C11.  A request that arrives while a daemon waits for an acknowledgement is lost, and takes the
  daemon with it.  When a reply comes in from the other daemon and the kernel has queued a
  file operation just before it acknowledges that reply, \<open>proxy_handle_remote\<close> takes the
  operation for the acknowledgement and drops it, reporting success; the acknowledgement itself
  is then an unknown message, for which \<open>proxy_handle_netlink\<close> breaks the loop.  Nothing
  was forwarded.
\<close>

theorem request_before_ack_is_lost:
  assumes "prompt s" "d_call s (d_tick s) = 0" "net_in s = wire_of h @ later" "carries h r" "relayable r"
    and "nl_in s = (nl_bytes q @ pad) # (nl_bytes a @ pad') # more_nl" "relayable q" "ack_msg a 0 x"
  shows "\<exists>t u. proxy_handle_remote s = Inr (0, t) \<and> proxy_handle_netlink t = Inr (- 1, u) \<and> net_out u = net_out s \<and> nl_in u = more_nl"
proof -
  have q: "nl_ok q" "nlmsg_type q \<noteq> NLMSG_ERROR"
    using assms(7) by (auto simp: relayable_def fo_msg_def MSGT_FO_START_def NLMSG_ERROR_def)
  have a: "nl_ok a" "nlmsg_type a = NLMSG_ERROR" using assms(8) by (simp_all add: ack_msg_def)
  obtain k where k: "proxy_handle_remote s = Inr (0, s\<lparr>d_tick := k, net_in := later, nl_in := (nl_bytes a @ pad') # more_nl,
      nl_out := nl_out s @ [nl_bytes (r\<lparr>nlmsg_pid := proxy_pid s\<rparr>)]\<rparr>)"
    using handle_remote_run[OF assms(1,3-6) q(1) _ assms(2)] q(2) by blast
  let ?t = "s\<lparr>d_tick := k, net_in := later, nl_in := (nl_bytes a @ pad') # more_nl,
      nl_out := nl_out s @ [nl_bytes (r\<lparr>nlmsg_pid := proxy_pid s\<rparr>)]\<rparr>"
  have n: "proxy_handle_netlink ?t = Inr (- 1, ?t\<lparr>d_tick := Suc (Suc (Suc (Suc (d_tick ?t)))), nl_in := more_nl\<rparr>)"
    using assms(1) by (intro handle_netlink_ack_run[OF _ _ a]) simp_all
  show ?thesis
    using k n by (intro exI[of _ ?t] exI[of _ "?t\<lparr>d_tick := Suc (Suc (Suc (Suc (d_tick ?t)))), nl_in := more_nl\<rparr>"]) simp
qed

lemma request_before_ack_is_lost_witness:
  "\<exists>t u. proxy_handle_remote (dst0\<lparr>net_in := wire_of seek_head, nl_in := [nl_bytes seek_msg, nl_bytes ok_ack]\<rparr>) = Inr (0, t) \<and>
    proxy_handle_netlink t = Inr (- 1, u) \<and> net_out u = [] \<and> nl_in u = []"
proof -
  let ?s = "dst0\<lparr>net_in := wire_of seek_head, nl_in := [nl_bytes seek_msg, nl_bytes ok_ack]\<rparr>"
  have "prompt ?s" "d_call ?s (d_tick ?s) = 0" "net_in ?s = wire_of seek_head @ []" "net_out ?s = []"
    "nl_in ?s = (nl_bytes seek_msg @ []) # (nl_bytes ok_ack @ []) # []"
    using dst0_prompt by (simp_all, simp_all add: dst0_def)
  from request_before_ack_is_lost[OF this(1-3) seek_msg_ok(2,1) this(5) seek_msg_ok(1) ok_ack_ok(1)] this(4) show ?thesis by simp
qed

text \<open>
  The loop of a daemon only ever ends in failure: whatever is sent to it, if \<open>proxy_loop\<close>
  returns, it returns -1, because the control message that is meant to end it is not implemented.
\<close>

theorem proxy_loop_returns_failure:
  assumes "proxy_loop s = Some (Inr (r, t))"
  shows "r = - 1"
proof -
  have round: "r = - 1" if "proxy_round u = Inr (Some r, v)" for u r v
    using that by (auto simp: proxy_round_def bindK_eq_Inr proxy_control_def returnK_def split: if_splits)
  have "\<forall>r t. y = Inr (r, t) \<longrightarrow> r = - 1" if "proxy_loop s = Some y" for y
  proof (rule proxy_loop.raw_induct[where P = "\<lambda>s y. \<forall>r t. y = Inr (r, t) \<longrightarrow> r = - 1", OF _ that])
    fix loop :: "dst \<Rightarrow> (fault + i32 \<times> dst) option" and s y
    assume ih: "\<And>s y. loop s = Some y \<Longrightarrow> \<forall>r t. y = Inr (r, t) \<longrightarrow> r = - 1"
      and run: "(case proxy_round s of Inl e \<Rightarrow> Some (Inl e) | Inr (Some r, t) \<Rightarrow> Some (Inr (r, t)) | Inr (None, t) \<Rightarrow> loop t) = Some y"
    from run show "\<forall>r t. y = Inr (r, t) \<longrightarrow> r = - 1"
      using ih round by (auto split: sum.splits prod.splits option.splits)
  qed
  then show ?thesis using assms by blast
qed

lemma proxy_loop_returns_failure_witness:
  "\<exists>r t. proxy_loop (dst0\<lparr>d_call := \<lambda>_. 1\<rparr>) = Some (Inr (r, t)) \<and> r = - 1"
proof -
  have "proxy_round (dst0\<lparr>d_call := \<lambda>_. 1\<rparr>) = Inr (Some (- 1), dst0\<lparr>d_tick := 1, d_call := \<lambda>_. 1\<rparr>)"
    by (simp add: proxy_round_def bindK_def sys_call_def proxy_control_def returnK_def) (simp add: dst0_def)
  then have "proxy_loop (dst0\<lparr>d_call := \<lambda>_. 1\<rparr>) = Some (Inr (- 1, dst0\<lparr>d_tick := 1, d_call := \<lambda>_. 1\<rparr>))"
    by (simp add: proxy_loop.simps)
  with proxy_loop_returns_failure[OF this] show ?thesis by blast
qed

end
