(* ===== verification/Daemon_Link.thy ===== *)
theory Daemon_Link
  imports Daemon_Proxy "HOL-Library.Sublist"
begin

text \<open>
  Two daemons connected by a socket, each with its kernel.  Both kernels may send file operations
  (the client's the requests, the server's the replies) and both daemons relay in either direction
  at any time, so that operations and acknowledgements mix in the queue of a daemon's netlink socket.
\<close>

section \<open>The two parties\<close>

datatype party = Client | Server

primrec peer :: "party \<Rightarrow> party" where
  "peer Client = Server"
| "peer Server = Client"

lemma peer_neq [simp]: "peer p \<noteq> p" "p \<noteq> peer p"
  by (cases p; simp)+

lemma peer_peer [simp]: "peer (peer p) = p"
  by (cases p) simp_all

lemma party_cases: "q \<noteq> p \<Longrightarrow> q = peer p"
  by (cases p; cases q) simp_all

text \<open>
  \<open>up\<close> says of a daemon whether it is still in \<open>proxy_loop\<close>; \<open>sent\<close> is the list of the file
  operations its kernel has sent to it.
\<close>

record link =
  dm :: "party \<Rightarrow> dst"
  up :: "party \<Rightarrow> bool"
  sent :: "party \<Rightarrow> nlmsg list"

text \<open>
  A kernel queues a file operation for its daemon; a daemon in its loop that finds something in
  the queue runs \<open>proxy_handle_netlink\<close>, and the bytes it sends travel to its peer; a daemon in
  its loop that finds bytes from its peer runs \<open>proxy_handle_remote\<close>, and its kernel adds an
  acknowledgement, of success or failure, behind whatever is in the queue.  A result of -1 is
  the end of the loop.
\<close>

inductive link_step :: "link \<Rightarrow> link \<Rightarrow> bool" where
  request: "relayable m \<Longrightarrow> link_step x
    (x\<lparr>dm := (dm x)(p := (dm x p)\<lparr>nl_in := nl_in (dm x p) @ [nl_bytes m]\<rparr>), sent := (sent x)(p := sent x p @ [m])\<rparr>)"
| forward: "up x p \<Longrightarrow> nl_in (dm x p) \<noteq> [] \<Longrightarrow> proxy_handle_netlink (dm x p) = Inr (r, t) \<Longrightarrow> link_step x
    (x\<lparr>dm := (dm x)(p := t\<lparr>net_out := []\<rparr>, peer p := (dm x (peer p))\<lparr>net_in := net_in (dm x (peer p)) @ net_out t\<rparr>),
       up := (up x)(p := r \<noteq> - 1)\<rparr>)"
| deliver: "up x p \<Longrightarrow> net_in (dm x p) \<noteq> [] \<Longrightarrow> ack_msg a err z \<Longrightarrow>
    proxy_handle_remote ((dm x p)\<lparr>nl_in := nl_in (dm x p) @ [nl_bytes a]\<rparr>) = Inr (r, t) \<Longrightarrow> link_step x
    (x\<lparr>dm := (dm x)(p := t), up := (up x)(p := r \<noteq> - 1)\<rparr>)"

inductive linked :: "link \<Rightarrow> link \<Rightarrow> bool" for x0 where
  start: "linked x0 x0"
| step: "linked x0 x \<Longrightarrow> link_step x y \<Longrightarrow> linked x0 y"

text \<open>A daemon on a prompt machine whose calls succeed.\<close>

definition steady :: "dst \<Rightarrow> bool" where
  "steady s \<longleftrightarrow> prompt s \<and> (\<forall>i. d_call s i = 0)"

lemma steady_cong [simp]:
  "steady (s\<lparr>d_tick := k\<rparr>) = steady s" "steady (s\<lparr>net_in := b\<rparr>) = steady s" "steady (s\<lparr>nl_in := m\<rparr>) = steady s"
  "steady (s\<lparr>net_out := b\<rparr>) = steady s" "steady (s\<lparr>nl_out := m\<rparr>) = steady s"
  by (simp_all add: steady_def)

definition fresh_link :: "link \<Rightarrow> bool" where
  "fresh_link x \<longleftrightarrow> (\<forall>p. steady (dm x p) \<and> nl_in (dm x p) = [] \<and> nl_out (dm x p) = [] \<and> net_in (dm x p) = [] \<and>
     net_out (dm x p) = [] \<and> up x p \<and> sent x p = [])"

section \<open>Where the operations of one kernel are\<close>

text \<open>
  A message in the queue of a daemon: a file operation, or an acknowledgement that was not
  taken when it was due.
\<close>

definition queued :: "nlmsg \<Rightarrow> bool" where
  "queued q \<longleftrightarrow> relayable q \<or> (\<exists>err z. ack_msg q err z)"

lemma queuedE:
  assumes "queued q"
  obtains (op) "relayable q" "fo_msg q" "nlmsg_type q \<noteq> NLMSG_ERROR"
    | (ack) "nl_ok q" "nlmsg_type q = NLMSG_ERROR" "4 \<le> length (payload q)" "\<not> fo_msg q"
  using assms by (fastforce simp: queued_def relayable_def fo_msg_def ack_msg_def NLMSG_ERROR_def MSGT_FO_START_def)

lemma queued_nl_ok: "queued q \<Longrightarrow> nl_ok q" "queued q \<Longrightarrow> nlmsg_type q = NLMSG_ERROR \<Longrightarrow> 4 \<le> length (payload q)"
  by (auto elim!: queuedE simp: relayable_def)

text \<open>What the kernel of the peer of \<open>p\<close> has received, and what of the operations of \<open>p\<close> is left on the way.\<close>

definition handed_over :: "dst \<Rightarrow> nlmsg list \<Rightarrow> bool" where
  "handed_over s ds \<longleftrightarrow> nl_out s = map (\<lambda>m. nl_bytes (m\<lparr>nlmsg_pid := proxy_pid s\<rparr>)) ds"

text \<open>
  The operations of \<open>p\<close>'s kernel, in order: \<open>ds\<close> delivered, \<open>ts\<close> travelling, and those in the
  queue \<open>qs\<close>.  An operation is missing exactly for every acknowledgement that is left in the
  queue; the one that was read from there has ended the loop.
\<close>

definition direction :: "link \<Rightarrow> party \<Rightarrow> nlmsg list \<Rightarrow> netdev_header list \<Rightarrow> nlmsg list \<Rightarrow> nlmsg list \<Rightarrow> bool" where
  "direction x p ds hs ts qs \<longleftrightarrow> handed_over (dm x (peer p)) ds \<and>
     net_in (dm x (peer p)) = concat (map wire_of hs) \<and> list_all2 carries hs ts \<and> list_all relayable ts \<and>
     nl_in (dm x p) = map nl_bytes qs \<and> list_all queued qs \<and>
     subseq (ds @ ts @ filter fo_msg qs) (sent x p) \<and>
     length (sent x p) = length ds + length ts + length qs + (if up x p then 0 else 1)"

definition link_inv :: "(party \<Rightarrow> i32) \<Rightarrow> link \<Rightarrow> bool" where
  "link_inv pid x \<longleftrightarrow> (\<forall>p. steady (dm x p) \<and> proxy_pid (dm x p) = pid p \<and> net_out (dm x p) = [] \<and>
     (\<exists>ds hs ts qs. direction x p ds hs ts qs))"

lemma link_invD:
  assumes "link_inv pid x"
  shows "steady (dm x p)" "proxy_pid (dm x p) = pid p" "net_out (dm x p) = []"
    "\<exists>ds hs ts qs. direction x p ds hs ts qs"
  using assms by (auto simp: link_inv_def)

lemma link_invI:
  assumes "\<And>q. steady (dm x q)" "\<And>q. proxy_pid (dm x q) = pid q" "\<And>q. net_out (dm x q) = []"
    and "\<exists>ds hs ts qs. direction x p ds hs ts qs" "\<exists>ds hs ts qs. direction x (peer p) ds hs ts qs"
  shows "link_inv pid x"
  unfolding link_inv_def using assms party_cases by metis

text \<open>A direction does not change when the state it is about does not.\<close>

lemma direction_same:
  assumes "direction x p ds hs ts qs" "nl_in (dm y p) = nl_in (dm x p)" "up y p = up x p" "sent y p = sent x p"
    and "nl_out (dm y (peer p)) = nl_out (dm x (peer p))" "net_in (dm y (peer p)) = net_in (dm x (peer p))"
      "proxy_pid (dm y (peer p)) = proxy_pid (dm x (peer p))"
  shows "\<exists>ds hs ts qs. direction y p ds hs ts qs"
  using assms by (auto simp: direction_def handed_over_def)

lemma direction_queueD:
  assumes "direction x p ds hs ts qs" "nl_in (dm x p) \<noteq> []"
  obtains q qs' where "qs = q # qs'" "queued q" "nl_in (dm x p) = (nl_bytes q @ []) # map nl_bytes qs'"
  using assms by (cases qs) (auto simp: direction_def)

lemma link_inv_request:
  assumes inv: "link_inv pid x" and m: "relayable m"
  shows "link_inv pid (x\<lparr>dm := (dm x)(p := (dm x p)\<lparr>nl_in := nl_in (dm x p) @ [nl_bytes m]\<rparr>), sent := (sent x)(p := sent x p @ [m])\<rparr>)"
    (is "link_inv pid ?y")
proof (rule link_invI[where p = p])
  obtain ds hs ts qs where d: "direction x p ds hs ts qs" using link_invD(4)[OF inv] by blast
  have "fo_msg m" using m by (simp add: relayable_def)
  then have "direction ?y p ds hs ts (qs @ [m])"
    using d m by (simp add: direction_def handed_over_def queued_def flip: append_assoc)
  then show "\<exists>ds hs ts qs. direction ?y p ds hs ts qs" by blast
  obtain ds hs ts qs where "direction x (peer p) ds hs ts qs" using link_invD(4)[OF inv] by blast
  then show "\<exists>ds hs ts qs. direction ?y (peer p) ds hs ts qs" by (rule direction_same) simp_all
qed (simp_all add: link_invD(1-3)[OF inv])

text \<open>A forwarded operation goes from the queue to the way; an acknowledgement ends the loop.\<close>

lemma forward_cases:
  assumes "steady s" "nl_in s = (nl_bytes q @ []) # rest" "queued q" "proxy_handle_netlink s = Inr (r, t)" "net_out s = []"
  obtains (op) h k where "relayable q" "carries h q" "r = 0" "t = s\<lparr>d_tick := k, nl_in := rest, net_out := wire_of h\<rparr>"
    | (ack) k where "\<not> fo_msg q" "r = - 1" "t = s\<lparr>d_tick := k, nl_in := rest\<rparr>"
proof -
  have s: "prompt s" using assms(1) by (simp add: steady_def)
  from assms(3) show ?thesis
  proof (cases rule: queuedE)
    case op
    from handle_netlink_run[OF s assms(2) op(1)] assms(4,5) that(1)[OF op(1)] show ?thesis by auto
  next
    case ack
    from handle_netlink_ack_run[OF s assms(2) ack(1,2)] assms(4) that(2)[OF ack(4)] show ?thesis by auto
  qed
qed

lemma link_inv_forward:
  assumes inv: "link_inv pid x" and step: "up x p" "nl_in (dm x p) \<noteq> []" "proxy_handle_netlink (dm x p) = Inr (r, t)"
  shows "link_inv pid (x\<lparr>dm := (dm x)(p := t\<lparr>net_out := []\<rparr>, peer p := (dm x (peer p))\<lparr>net_in := net_in (dm x (peer p)) @ net_out t\<rparr>),
     up := (up x)(p := r \<noteq> - 1)\<rparr>)" (is "link_inv pid ?y")
proof -
  note i = link_invD(1-3)[OF inv]
  obtain ds hs ts qs where d: "direction x p ds hs ts qs" using link_invD(4)[OF inv] by blast
  then obtain q qs' where q: "qs = q # qs'" "queued q" "nl_in (dm x p) = (nl_bytes q @ []) # map nl_bytes qs'"
    using step(2) by (rule direction_queueD)
  obtain es gs us vs where b: "direction x (peer p) es gs us vs" using link_invD(4)[OF inv] by blast
  from i(1) q(3,2) step(3) i(3) show ?thesis
  proof (cases rule: forward_cases)
    case (op h k)
    have "direction ?y p ds (hs @ [h]) (ts @ [q]) qs'"
      using d q op step(1) by (simp add: direction_def handed_over_def list_all2_appendI relayable_def)
    moreover have "\<exists>es gs us vs. direction ?y (peer p) es gs us vs" using b by (rule direction_same) (simp_all add: op)
    moreover have "steady (dm ?y z)" "proxy_pid (dm ?y z) = pid z" "net_out (dm ?y z) = []" for z by (simp_all add: i op)
    ultimately show ?thesis by (intro link_invI[where p = p]) blast+
  next
    case (ack k)
    have "direction ?y p ds hs ts qs'" using d q ack step(1) i(3) by (simp add: direction_def handed_over_def)
    moreover have "\<exists>es gs us vs. direction ?y (peer p) es gs us vs" using b by (rule direction_same) (simp_all add: ack i)
    moreover have "steady (dm ?y z)" "proxy_pid (dm ?y z) = pid z" "net_out (dm ?y z) = []" for z by (simp_all add: i ack)
    ultimately show ?thesis by (intro link_invI[where p = p]) blast+
  qed
qed

text \<open>
  A delivered operation reaches the kernel, and the head of the queue is taken for its
  acknowledgement, which stays behind if that was another message.
\<close>

lemma subseq_drop_op: "subseq (ds @ ts @ filter P (q # qs)) ss \<Longrightarrow> subseq (ds @ ts @ filter P qs) ss"
  by (rule subseq_order.order_trans[of _ "ds @ ts @ filter P (q # qs)"]) (auto simp: subseq_append')

lemma direction_taken:
  assumes d: "direction x p ds hs ts qs" and a: "ack_msg a err z" and tl: "qs @ [a] = q # qs'"
    and y: "nl_in (dm y p) = map nl_bytes qs'" "up y p" "up x p" "sent y p = sent x p"
      "nl_out (dm y (peer p)) = nl_out (dm x (peer p))" "net_in (dm y (peer p)) = net_in (dm x (peer p))"
      "proxy_pid (dm y (peer p)) = proxy_pid (dm x (peer p))"
  shows "direction y p ds hs ts qs'"
proof -
  have na: "\<not> fo_msg a" using a by (simp add: ack_msg_def fo_msg_def NLMSG_ERROR_def MSGT_FO_START_def)
  have "list_all queued (q # qs')" "subseq (ds @ ts @ filter fo_msg (q # qs')) (sent x p)" "length (q # qs') = Suc (length qs)"
    unfolding tl[symmetric] using d na a by (auto simp: direction_def queued_def)
  then show ?thesis
    using d y subseq_drop_op[of ds ts fo_msg q qs' "sent x p"] by (simp add: direction_def handed_over_def)
qed

lemma link_inv_deliver:
  assumes inv: "link_inv pid x" and step: "up x p" "net_in (dm x p) \<noteq> []" "ack_msg a err z"
    "proxy_handle_remote ((dm x p)\<lparr>nl_in := nl_in (dm x p) @ [nl_bytes a]\<rparr>) = Inr (r, t)"
  shows "link_inv pid (x\<lparr>dm := (dm x)(p := t), up := (up x)(p := r \<noteq> - 1)\<rparr>)" (is "link_inv pid ?y")
proof -
  note i = link_invD(1-3)[OF inv]
  obtain ds hs ts qs where d: "direction x p ds hs ts qs" using link_invD(4)[OF inv] by blast
  obtain es gs us vs where b: "direction x (peer p) es gs us vs" using link_invD(4)[OF inv] by blast
  obtain g gs' u us' where g: "gs = g # gs'" "us = u # us'" "carries g u" "list_all2 carries gs' us'" "relayable u"
    using b step(2) by (cases gs) (auto simp: direction_def list_all2_Cons1)
  obtain q qs' where q: "qs @ [a] = q # qs'" by (cases "qs @ [a]") auto
  have "list_all queued (qs @ [a])" using d step(3) by (auto simp: direction_def queued_def)
  then have "queued q" unfolding q by simp
  note ok = queued_nl_ok[OF this]
  let ?s = "(dm x p)\<lparr>nl_in := nl_in (dm x p) @ [nl_bytes a]\<rparr>"
  have nl: "nl_in ?s = (nl_bytes q @ []) # map nl_bytes qs'"
    using d arg_cong[OF q, of "map nl_bytes"] by (simp add: direction_def)
  have net: "net_in ?s = wire_of g @ concat (map wire_of gs')" using b g(1) by (simp add: direction_def)
  have pr: "prompt ?s" "d_call ?s (d_tick ?s) = 0" using i(1)[of p] by (simp_all add: steady_def)
  from handle_remote_run[OF pr(1) net g(3,5) nl ok pr(2)] step(4)
  obtain k where r: "r = 0" and t: "t = (dm x p)\<lparr>d_tick := k, net_in := concat (map wire_of gs'), nl_in := map nl_bytes qs',
      nl_out := nl_out (dm x p) @ [nl_bytes (u\<lparr>nlmsg_pid := proxy_pid (dm x p)\<rparr>)]\<rparr>" by auto
  have "direction ?y p ds hs ts qs'" by (rule direction_taken[OF d step(3) q]) (simp_all add: t r step(1))
  moreover have "direction ?y (peer p) (es @ [u]) gs' us' vs"
    using b g t r by (simp add: direction_def handed_over_def)
  moreover have "steady (dm ?y w)" "proxy_pid (dm ?y w) = pid w" "net_out (dm ?y w) = []" for w by (simp_all add: i t)
  ultimately show ?thesis by (intro link_invI[where p = p]) blast+
qed

lemma link_inv_step: "link_step x y \<Longrightarrow> link_inv pid x \<Longrightarrow> link_inv pid y"
  by (induction rule: link_step.induct) (blast intro: link_inv_request link_inv_forward link_inv_deliver)+

lemma link_inv_fresh: "fresh_link x \<Longrightarrow> link_inv (\<lambda>p. proxy_pid (dm x p)) x"
proof -
  assume f: "fresh_link x"
  then have "direction x p [] [] [] []" for p by (simp add: fresh_link_def direction_def handed_over_def)
  with f show ?thesis unfolding link_inv_def fresh_link_def by blast
qed

lemma linked_inv:
  assumes "linked x0 x" "fresh_link x0"
  shows "link_inv (\<lambda>p. proxy_pid (dm x0 p)) x"
  using assms(1)
proof induction
  case start
  show ?case using assms(2) by (rule link_inv_fresh)
next
  case (step x y)
  show ?case using step.hyps(2) step.IH by (rule link_inv_step)
qed

section \<open>Properties\<close>

text \<open>
  C6.  What one kernel receives is what the other sent, whatever the interleaving.  Two daemons on
  steady machines start with nothing sent; then both kernels send file operations, both
  daemons forward and deliver, in any order, and every delivery is acknowledged behind what the
  queue holds at that moment, so that an operation may be taken for an acknowledgement and be
  dropped.  In every state, in both directions: the operations handed to the peer's kernel are
  operations sent, in the order they were sent, none twice, changed in the
  process id only; and as long as the daemon is in its loop with nothing in its queue and nothing
  on the way, all of them were handed over: a daemon that has dropped an operation finds an
  acknowledgement in its queue, and leaves its loop when it reads it.
\<close>

theorem link_is_fifo:
  assumes "linked x0 x" "fresh_link x0"
  shows "\<exists>delivered. nl_out (dm x (peer p)) = map (\<lambda>m. nl_bytes (m\<lparr>nlmsg_pid := proxy_pid (dm x0 (peer p))\<rparr>)) delivered \<and>
    subseq delivered (sent x p) \<and>
    (up x p \<and> nl_in (dm x p) = [] \<and> net_in (dm x (peer p)) = [] \<longrightarrow> delivered = sent x p)"
proof -
  note inv = linked_inv[OF assms]
  obtain ds hs ts qs where d: "direction x p ds hs ts qs" using link_invD(4)[OF inv] by blast
  have pid: "proxy_pid (dm x (peer p)) = proxy_pid (dm x0 (peer p))" using link_invD(2)[OF inv] by simp
  have s: "subseq (ds @ ts @ filter fo_msg qs) (sent x p)" using d by (simp add: direction_def)
  have "ds = sent x p" if e: "up x p" "nl_in (dm x p) = []" "net_in (dm x (peer p)) = []"
  proof -
    have "qs = []" using e(2) d by (simp add: direction_def)
    moreover have "hs = []"
    proof (rule ccontr)
      assume "hs \<noteq> []"
      then show False using e(3) d by (cases hs) (auto simp: direction_def list_all2_Cons1 dest: carries_wire)
    qed
    moreover have "list_all2 carries hs ts" "length (sent x p) = length ds + length ts + length qs"
      using d e(1) by (simp_all add: direction_def)
    ultimately show ?thesis using s subseq_same_length[of ds "sent x p"] by simp
  qed
  moreover have "subseq ds (sent x p)" using s by (rule subseq_order.order_trans[rotated]) (rule subseq_rev_drop_many[OF subseq_order.order_refl])
  moreover have "nl_out (dm x (peer p)) = map (\<lambda>m. nl_bytes (m\<lparr>nlmsg_pid := proxy_pid (dm x0 (peer p))\<rparr>)) ds"
    using d unfolding direction_def handed_over_def pid by blast
  ultimately show ?thesis by blast
qed

text \<open>One operation goes from the client's kernel to the server's.\<close>

definition link0 :: link where
  "link0 = \<lparr>dm = \<lambda>_. dst0, up = \<lambda>_. True, sent = \<lambda>_. []\<rparr>"

lemma link_is_fifo_witness:
  "\<exists>x delivered. linked link0 x \<and> sent x Client = [seek_msg] \<and> nl_out (dm x Server) = [nl_bytes (seek_msg\<lparr>nlmsg_pid := 7\<rparr>)] \<and>
    nl_out (dm x Server) = map (\<lambda>m. nl_bytes (m\<lparr>nlmsg_pid := 7\<rparr>)) delivered \<and> subseq delivered [seek_msg]"
proof -
  have d: "nl_in dst0 = []" "net_in dst0 = []" "net_out dst0 = []" "nl_out dst0 = []" "proxy_pid dst0 = 7" "d_call dst0 i = 0" for i
    by (simp_all add: dst0_def)
  have fresh: "fresh_link link0" using dst0_prompt d by (simp add: fresh_link_def link0_def steady_def)
  let ?c = "(dm link0 Client)\<lparr>nl_in := nl_in (dm link0 Client) @ [nl_bytes seek_msg]\<rparr>"
  let ?x = "link0\<lparr>dm := (dm link0)(Client := ?c), sent := (sent link0)(Client := sent link0 Client @ [seek_msg])\<rparr>"
  have c: "dm ?x Client = dst0\<lparr>nl_in := [nl_bytes seek_msg]\<rparr>" "up ?x Client" "nl_in (dm ?x Client) \<noteq> []"
    by (simp_all add: link0_def d(1))
  have "prompt (dm ?x Client)" "nl_in (dm ?x Client) = (nl_bytes seek_msg @ []) # []" unfolding c(1) using dst0_prompt by simp_all
  from handle_netlink_run[OF this seek_msg_ok(1)] obtain h t where h: "carries h seek_msg"
    and f: "proxy_handle_netlink (dm ?x Client) = Inr (0, t)" "net_out t = wire_of h" unfolding c(1) using d(3) by auto
  let ?y = "?x\<lparr>dm := (dm ?x)(Client := t\<lparr>net_out := []\<rparr>, peer Client := (dm ?x (peer Client))\<lparr>net_in := net_in (dm ?x (peer Client)) @ net_out t\<rparr>),
     up := (up ?x)(Client := (0 :: i32) \<noteq> - 1)\<rparr>"
  have y: "dm ?y Server = dst0\<lparr>net_in := wire_of h\<rparr>" "up ?y Server" "net_in (dm ?y Server) \<noteq> []"
    using carries_wire[OF h] by (simp_all add: link0_def d f(2))
  let ?r = "(dm ?y Server)\<lparr>nl_in := nl_in (dm ?y Server) @ [nl_bytes ok_ack]\<rparr>"
  have st: "prompt ?r" "net_in ?r = wire_of h @ []" "nl_in ?r = (nl_bytes ok_ack @ []) # []" "d_call ?r (d_tick ?r) = 0"
    unfolding y(1) using dst0_prompt d by simp_all
  obtain u where u: "proxy_handle_remote ?r = Inr (0, u)" "nl_out u = [nl_bytes (seek_msg\<lparr>nlmsg_pid := 7\<rparr>)]"
    using handle_remote_run[OF st(1,2) h seek_msg_ok(1) st(3) ok_ack_ok(2) _ st(4)] ok_ack_ok(5) d unfolding y(1) by auto
  let ?z = "?y\<lparr>dm := (dm ?y)(Server := u), up := (up ?y)(Server := (0 :: i32) \<noteq> - 1)\<rparr>"
  have "linked link0 ?x" by (rule linked.step[OF linked.start link_step.request[OF seek_msg_ok(1)]])
  then have "linked link0 ?y" by (rule linked.step) (rule link_step.forward[OF c(2,3) f(1)])
  then have z: "linked link0 ?z" by (rule linked.step) (rule link_step.deliver[OF y(2,3) ok_ack_ok(1) u(1)])
  have "sent ?z Client = [seek_msg]" "dm ?z Server = u" "proxy_pid (dm link0 Server) = 7" by (simp_all add: link0_def d)
  moreover obtain ds where "nl_out (dm ?z Server) = map (\<lambda>m. nl_bytes (m\<lparr>nlmsg_pid := proxy_pid (dm link0 Server)\<rparr>)) ds" "subseq ds (sent ?z Client)"
    using link_is_fifo[OF z fresh, of Client] unfolding peer.simps by blast
  ultimately show ?thesis using z u(2) by (intro exI[of _ ?z] exI[of _ ds]) (simp only: simp_thms)
qed

end
