(* ===== verification/End_To_End.thy ===== *)
theory End_To_End
  imports Remote Daemon_Link
begin

text \<open>
  The whole path of an operation: from the program on the client through its kernel, the client's
  daemon, the server's daemon and the server's kernel to the device, and all the way back.
\<close>

section \<open>One crossing\<close>

text \<open>
  A kernel gives its daemon \<open>x\<close> a message; what \<open>x\<close> sends reaches the daemon \<open>y\<close>, which hands
  it to its own kernel, and that kernel answers \<open>y\<close> with the acknowledgement \<open>a\<close>.  The value is
  what \<open>y\<close> gave its kernel, and the two daemons afterwards.
\<close>

definition carry :: "dst \<Rightarrow> dst \<Rightarrow> nlmsg \<Rightarrow> nlmsg \<Rightarrow> (byte list list \<times> dst \<times> dst) option" where
  "carry x y a m = (case proxy_handle_netlink (x\<lparr>nl_in := [nl_bytes m], net_out := []\<rparr>) of
       Inl _ \<Rightarrow> None
     | Inr (r, x') \<Rightarrow> if r \<noteq> 0 then None
         else (case proxy_handle_remote (y\<lparr>net_in := net_out x', nl_in := [nl_bytes a], nl_out := []\<rparr>) of
             Inl _ \<Rightarrow> None
           | Inr (r, y') \<Rightarrow> if r \<noteq> 0 then None else Some (nl_out y', x', y')))"

text \<open>A kernel that acknowledges; with what error does not matter.\<close>

definition acks :: "nlmsg \<Rightarrow> bool" where
  "acks a \<longleftrightarrow> nl_ok a \<and> nlmsg_type a = NLMSG_ERROR \<and> 4 \<le> length (payload a)"

lemma carry_run:
  assumes "steady x" "steady y" "acks a" "relayable m"
  shows "\<exists>x' y'. carry x y a m = Some ([nl_bytes (relayed (proxy_pid y) m)], x', y') \<and> steady x' \<and> steady y' \<and>
    proxy_pid x' = proxy_pid x \<and> proxy_pid y' = proxy_pid y"
proof -
  let ?x = "x\<lparr>nl_in := [nl_bytes m], net_out := []\<rparr>"
  have x: "prompt ?x" "nl_in ?x = (nl_bytes m @ []) # []" using assms(1) by (simp_all add: steady_def)
  obtain h k where h: "carries h m" "proxy_handle_netlink ?x = Inr (0, ?x\<lparr>d_tick := k, nl_in := [], net_out := wire_of h\<rparr>)"
    using handle_netlink_run[OF x assms(4)] by auto
  let ?x' = "?x\<lparr>d_tick := k, nl_in := [], net_out := wire_of h\<rparr>"
  let ?y = "y\<lparr>net_in := wire_of h, nl_in := [nl_bytes a], nl_out := []\<rparr>"
  have y: "prompt ?y" "net_in ?y = wire_of h @ []" "nl_in ?y = (nl_bytes a @ []) # []" "d_call ?y (d_tick ?y) = 0"
    using assms(2) by (simp_all add: steady_def)
  have a: "nl_ok a" "4 \<le> length (payload a)" using assms(3) by (simp_all add: acks_def)
  obtain j where j: "proxy_handle_remote ?y = Inr (0, ?y\<lparr>d_tick := j, net_in := [], nl_in := [],
      nl_out := [nl_bytes (relayed (proxy_pid y) m)]\<rparr>)"
    using handle_remote_run[OF y(1,2) h(1) assms(4) y(3) a(1) _ y(4)] a(2) unfolding relayed_def by auto
  let ?y' = "?y\<lparr>d_tick := j, net_in := [], nl_in := [], nl_out := [nl_bytes (relayed (proxy_pid y) m)]\<rparr>"
  have "carry x y a m = Some ([nl_bytes (relayed (proxy_pid y) m)], ?x', ?y')"
    using j unfolding carry_def h(2) by simp
  moreover have "steady ?x'" "steady ?y'" using assms(1,2) by (simp_all add: steady_def)
  ultimately show ?thesis by (intro exI[of _ ?x'] exI[of _ ?y'] conjI) simp_all
qed

section \<open>The messages of an operation can be relayed\<close>

text \<open>Whether a message of a given type and payload fits.\<close>

lemma relayable_sent:
  assumes "MSGT_FO_START < mt" "mt < MSGT_FO_END" "length a + length x < 2147481976"
  shows "relayable (sent_msg mt ac d a x)"
proof -
  have "nl_ok (sent_msg mt ac d a x)"
    using assms(3) by (simp add: nl_ok_def) (simp add: sent_msg_def built_msg_def NLMSG_HDRLEN_def unsigned_of_nat take_bit_nat_eq_self del: of_nat_add)
  then show ?thesis using assms by (simp add: relayable_def fo_msg_def MSGT_FO_END_def unsigned_of_nat take_bit_nat_eq_self)
qed

lemma relayable_relayed [simp]: "relayable (relayed pid m) = relayable m"
  by (simp add: relayable_def nl_ok_def fo_msg_def)

lemma relayable_reply:
  assumes "relayable m" "length w < 2147482000"
  shows "relayable (reply_msg m w)"
  using assms by (auto simp: relayable_def nl_ok_def fo_msg_def reply_msg_def unsigned_of_nat take_bit_nat_eq_self simp del: of_nat_add)

section \<open>There and back\<close>

text \<open>
  The client's kernel gives its daemon \<open>m\<close>, and the server's kernel is given \<open>q\<close>; the server's
  kernel then gives its daemon \<open>r\<close>, and the client's kernel is given \<open>b\<close>.
\<close>

definition journey :: "dst \<Rightarrow> dst \<Rightarrow> nlmsg \<Rightarrow> nlmsg \<Rightarrow> nlmsg \<Rightarrow> nlmsg \<Rightarrow> nlmsg \<Rightarrow> nlmsg \<Rightarrow> bool" where
  "journey cd sd a a' m q r b \<longleftrightarrow> (case carry cd sd a m of
       None \<Rightarrow> False
     | Some (there, cd1, sd1) \<Rightarrow> there = [nl_bytes q] \<and>
         (case carry sd1 cd1 a' r of None \<Rightarrow> False | Some (back, _) \<Rightarrow> back = [nl_bytes b]))"

text \<open>The two daemons of a device work, the client's is the one registered with its kernel, and the kernels acknowledge.\<close>

definition connected :: "dst \<Rightarrow> dst \<Rightarrow> netdev_data \<Rightarrow> nlmsg \<Rightarrow> nlmsg \<Rightarrow> bool" where
  "connected cd sd d a a' \<longleftrightarrow> steady cd \<and> steady sd \<and> proxy_pid cd = nlpid d \<and> acks a \<and> acks a'"

lemma journey_run:
  assumes "connected cd sd d a a'" "relayable m" "length w < 2147482000" "q = relayed (proxy_pid sd) m"
  shows "journey cd sd a a' m q (reply_msg q w) (relayed (nlpid d) (reply_msg q w))"
proof -
  have c: "steady cd" "steady sd" "acks a" "acks a'" "proxy_pid cd = nlpid d" using assms(1) by (simp_all add: connected_def)
  obtain cd1 sd1 where 1: "carry cd sd a m = Some ([nl_bytes q], cd1, sd1)" "steady cd1" "steady sd1" "proxy_pid cd1 = nlpid d"
    using carry_run[OF c(1-3) assms(2)] c(5) assms(4) by auto
  have "relayable (reply_msg q w)" using relayable_reply[OF _ assms(3), of q] assms(2,4) by simp
  from carry_run[OF 1(3,2) c(4) this] 1 show ?thesis by (auto simp: journey_def)
qed

section \<open>Properties\<close>

text \<open>
  C1.  A remote read is the read of the device, over the whole path.  The message that the client's
  \<open>ndfo_send_read\<close> sends is carried by both daemons to the server's kernel.  Its
  \<open>netlink_recv\<close> acknowledges the message, and the thread it starts finds the device of its
  daemon and the open file by the access id in the message, runs the read of that file, which
  answers \<open>ret\<close>, some bytes and a new position, and sends one reply.  The reply is carried back to
  the client's kernel, whose thread completes the request in the same way, and
  \<open>ndfo_send_read\<close> returns \<open>ret\<close> and that position, and the user finds the bytes in the buffer: all
  of them and nothing else when \<open>ret\<close> is their number, none when \<open>ret\<close> is an error.  The server's
  memory is then as it was before, and the client's but for the sequence number of the device.
\<close>

theorem read_end_to_end:
  assumes "ready c acc ac d" and "connected cd sd d a a'"
    and "serves s (proxy_pid sd) (access_id ac) acc' ac' d' fo" "fop_read fo = Some f" "\<And>k. f k sz off = (ret, bytes, off')"
    and "length bytes \<le> unat sz" "0 < unat sz" "unat sz < NETDEV_MESSAGE_LIMIT" "ret <s 0 \<or> unat ret = length bytes"
  shows "\<exists>q r b t. journey cd sd a a' (sent_msg MSGT_FO_READ ac d (rw_args c sz off) []) q r b \<and> replies s q r \<and>
    ndfo_send_read (message_in b) acc sz off c = Inr ((ret, off'), t) \<and>
    answered c ac d MSGT_FO_READ (rw_args c sz off) [] (if ret <s 0 then [] else [ToUser bytes]) t"
proof -
  let ?m = "sent_msg MSGT_FO_READ ac d (rw_args c sz off) []"
  let ?w = "fo_wire (access_id ac) 0 (s_fo_rw (of_nat (Suc (next_addr c))) sz off' ret) (bytes @ replicate (unat sz - length bytes) 0)"
  have "length ?w < 2147482000" using assms(6,8) by (simp add: NETDEV_MESSAGE_LIMIT_def)
  moreover have "relayable ?m"
    by (rule relayable_sent) (simp_all add: MSGT_FO_READ_def MSGT_FO_START_def MSGT_FO_END_def rw_args_def)
  ultimately have "journey cd sd a a' ?m (relayed (proxy_pid sd) ?m) (reply_msg (relayed (proxy_pid sd) ?m) ?w)
      (relayed (nlpid d) (reply_msg (relayed (proxy_pid sd) ?m) ?w))"
    using journey_run[OF assms(2) _ _ refl] by blast
  with remote_read[OF assms(1,3) refl assms(4-9) refl] show ?thesis by blast
qed

text \<open>
  C2.  A remote write is the write of the device over the whole path, except for the position.  The
  message goes the way of C1, and the device on the server, found by process id and access id, is
  given exactly the user's bytes, and its answer is the result on the
  client; but the user's file position stays where it was, whatever the device says, because the
  client takes it from the arguments before they are sent.
\<close>

theorem write_end_to_end:
  assumes "ready c acc ac d" and "connected cd sd d a a'"
    and "serves s (proxy_pid sd) (access_id ac) acc' ac' d' fo" "fop_write fo = Some f" "\<And>k. f k bytes sz off = (ret, off')"
    and "length bytes = unat sz" "bytes \<noteq> []" "unat sz < NETDEV_MESSAGE_LIMIT"
  shows "\<exists>q r b t. journey cd sd a a' (sent_msg MSGT_FO_WRITE ac d (rw_args c sz off) bytes) q r b \<and> replies s q r \<and>
    ndfo_send_write (message_in b) acc bytes sz off c = Inr ((ret, off), t) \<and>
    answered c ac d MSGT_FO_WRITE (rw_args c sz off) bytes [] t"
proof -
  let ?m = "sent_msg MSGT_FO_WRITE ac d (rw_args c sz off) bytes"
  let ?w = "fo_wire (access_id ac) 0 (s_fo_rw (of_nat (Suc (next_addr c))) sz off' ret) []"
  have "relayable ?m"
    using assms(6,8) by (intro relayable_sent)
      (simp_all add: MSGT_FO_WRITE_def MSGT_FO_START_def MSGT_FO_END_def rw_args_def NETDEV_MESSAGE_LIMIT_def)
  then have "journey cd sd a a' ?m (relayed (proxy_pid sd) ?m) (reply_msg (relayed (proxy_pid sd) ?m) ?w)
      (relayed (nlpid d) (reply_msg (relayed (proxy_pid sd) ?m) ?w))"
    using journey_run[OF assms(2) _ _ refl, of ?m ?w] by simp
  with remote_write[OF assms(1,3) refl assms(4-8) refl] show ?thesis by blast
qed

text \<open>
  C3.  A remote seek is the seek of the device, over the whole path of C1; the memory of the server's
  kernel is as it was before, and the client's but for the sequence number of the device.
\<close>

theorem llseek_end_to_end:
  assumes "ready c acc ac d" and "connected cd sd d a a'"
    and "serves s (proxy_pid sd) (access_id ac) acc' ac' d' fo" "fop_llseek fo = Some f" "\<And>k. f k off wh = res"
  shows "\<exists>q r b t. journey cd sd a a' (sent_msg MSGT_FO_LLSEEK ac d (s_fo_llseek off wh (- EIO)) []) q r b \<and> replies s q r \<and>
    ndfo_send_llseek (message_in b) acc off wh c = Inr (res, t) \<and>
    answered c ac d MSGT_FO_LLSEEK (s_fo_llseek off wh (- EIO)) [] [] t"
proof -
  let ?m = "sent_msg MSGT_FO_LLSEEK ac d (s_fo_llseek off wh (- EIO)) []"
  let ?w = "fo_wire (access_id ac) 0 (s_fo_llseek off wh res) []"
  have "relayable ?m"
    by (rule relayable_sent) (simp_all add: MSGT_FO_LLSEEK_def MSGT_FO_START_def MSGT_FO_END_def)
  then have "journey cd sd a a' ?m (relayed (proxy_pid sd) ?m) (reply_msg (relayed (proxy_pid sd) ?m) ?w)
      (relayed (nlpid d) (reply_msg (relayed (proxy_pid sd) ?m) ?w))"
    using journey_run[OF assms(2) _ _ refl, of ?m ?w] by simp
  with remote_llseek[OF assms(1,3) refl assms(4,5) refl] show ?thesis by blast
qed

section \<open>Witnesses\<close>

text \<open>The client of one dummy device and the server of another, with their daemons, both of process id 7.\<close>

lemma dst0_connected: "connected dst0 dst0 (dev_with_acc one_dummy 42 5 (dummy_dev 7 1)) ok_ack ok_ack"
  using dst0_prompt ok_ack_ok by (simp add: connected_def steady_def acks_def dst0_def dev_with_acc_def ack_msg_def)

lemma dst0_serves:
  "serves (opened_server echo_dev) (proxy_pid dst0) (access_id (new_acc 1 42 6)) 4 ((new_acc 1 42 NULL)\<lparr>acc_filp := FOpen echo_dev\<rparr>)
    (dev_with_acc (one_server (server_dev 7 1)) 42 4 (server_dev 7 1)) echo_dev"
  using opened_server_serves(1)[of echo_dev] by (simp add: dst0_def new_acc_def)

lemma read_end_to_end_witness:
  "\<exists>m q r b t. journey dst0 dst0 ok_ack ok_ack m q r b \<and> replies (opened_server echo_dev) q r \<and>
    ndfo_send_read (message_in b) 5 3 10 open_dummy = Inr ((2, 12), t) \<and> last (trace t) = ToUser [88, 89]"
proof -
  have "\<exists>q r b t. journey dst0 dst0 ok_ack ok_ack (sent_msg MSGT_FO_READ (new_acc 1 42 6) (dev_with_acc one_dummy 42 5 (dummy_dev 7 1))
      (rw_args open_dummy 3 10) []) q r b \<and> replies (opened_server echo_dev) q r \<and>
    ndfo_send_read (message_in b) 5 3 10 open_dummy = Inr ((2, 12), t) \<and>
    answered open_dummy (new_acc 1 42 6) (dev_with_acc one_dummy 42 5 (dummy_dev 7 1)) MSGT_FO_READ (rw_args open_dummy 3 10) []
      (if (2 :: i64) <s 0 then [] else [ToUser [88, 89]]) t"
    by (rule read_end_to_end[where f = "\<lambda>k n off. (2, [88, 89], off + 2)", OF open_dummy_ready dst0_connected dst0_serves]) (simp_all add: echo_dev_def NETDEV_MESSAGE_LIMIT_def)
  then show ?thesis by (fastforce simp: answered_def neg_unat)
qed

lemma write_end_to_end_witness:
  "\<exists>m q r b t. journey dst0 dst0 ok_ack ok_ack m q r b \<and> replies (opened_server echo_dev) q r \<and>
    ndfo_send_write (message_in b) 5 [65, 66] 2 10 open_dummy = Inr ((2, 10), t)"
proof -
  have "\<exists>q r b t. journey dst0 dst0 ok_ack ok_ack (sent_msg MSGT_FO_WRITE (new_acc 1 42 6) (dev_with_acc one_dummy 42 5 (dummy_dev 7 1))
      (rw_args open_dummy 2 10) [65, 66]) q r b \<and> replies (opened_server echo_dev) q r \<and>
    ndfo_send_write (message_in b) 5 [65, 66] 2 10 open_dummy = Inr ((2, 10), t) \<and>
    answered open_dummy (new_acc 1 42 6) (dev_with_acc one_dummy 42 5 (dummy_dev 7 1)) MSGT_FO_WRITE (rw_args open_dummy 2 10) [65, 66] [] t"
    by (rule write_end_to_end[where f = "\<lambda>k x n off. (n, off + n)", OF open_dummy_ready dst0_connected dst0_serves]) (simp_all add: echo_dev_def NETDEV_MESSAGE_LIMIT_def)
  then show ?thesis by blast
qed

lemma llseek_end_to_end_witness:
  "\<exists>m q r b t. journey dst0 dst0 ok_ack ok_ack m q r b \<and> replies (opened_server echo_dev) q r \<and>
    ndfo_send_llseek (message_in b) 5 10 0 open_dummy = Inr (11, t)"
proof -
  have "\<exists>q r b t. journey dst0 dst0 ok_ack ok_ack (sent_msg MSGT_FO_LLSEEK (new_acc 1 42 6) (dev_with_acc one_dummy 42 5 (dummy_dev 7 1))
      (s_fo_llseek 10 0 (- EIO)) []) q r b \<and> replies (opened_server echo_dev) q r \<and>
    ndfo_send_llseek (message_in b) 5 10 0 open_dummy = Inr (11, t) \<and>
    answered open_dummy (new_acc 1 42 6) (dev_with_acc one_dummy 42 5 (dummy_dev 7 1)) MSGT_FO_LLSEEK (s_fo_llseek 10 0 (- EIO)) [] [] t"
    by (rule llseek_end_to_end[where f = "\<lambda>k off wh. off + 1", OF open_dummy_ready dst0_connected dst0_serves]) (simp_all add: echo_dev_def)
  then show ?thesis by blast
qed

end
