(* ===== verification/Registry.thy ===== *)
theory Registry
  imports Knetlink
begin

text \<open>
  The invariant of the registry of devices: table, minors, locks and memory fit together.  Shown:
  registration of either kind and unregistration keep it, whatever the allocations do, and return.
\<close>

section \<open>Addresses are handed out once\<close>

lemma keeps_heap_kalloc: "keeps heap_ok (kalloc x)"
  by (rule keepsI) (auto simp: kalloc_def heap_ok_def split: if_splits)

lemma keeps_heap_kfree: "keeps heap_ok (kfree p)"
  by (rule keepsI) (auto simp: kfree_def heap_ok_def split: if_splits option.splits)

lemma keeps_heap_load: "keeps heap_ok (load p)"
  by (rule keepsI) (auto simp: load_def split: if_splits option.splits)

lemma keeps_heap_store: "keeps heap_ok (store p x)"
  by (rule keepsI) (auto simp: store_def heap_ok_def split: if_splits option.splits)

lemmas keeps_heap_base = keeps_heap_kalloc keeps_heap_kfree keeps_heap_load keeps_heap_store

lemma keeps_heap_struct:
  "keeps heap_ok (get_dev p)" "keeps heap_ok (mod_dev p f)" "keeps heap_ok (get_skb p)" "keeps heap_ok (mod_skb p g)"
  "keeps heap_ok (get_buf p)" "keeps heap_ok (write_buf p b)" "keeps heap_ok (get_cdev p)"
  unfolding get_dev_def mod_dev_def get_skb_def mod_skb_def get_buf_def write_buf_def get_cdev_def emit_def
  by (auto intro!: keeps_bind keeps_then keeps_if keeps_heap_base keepsI[of _ "modifyK f" for f]
      simp: modifyK_def heap_ok_def split: obj.split)

lemma keeps_heap_global:
  "keeps heap_ok (emit e)" "keeps heap_ok ext_call" "keeps heap_ok (write_stack c n)"
  "keeps heap_ok htable_read_trylock" "keeps heap_ok htable_up_read" "keeps heap_ok htable_write_trylock"
  "keeps heap_ok htable_up_write" "keeps heap_ok (register_dev pid nd)" "keeps heap_ok (unlink_dev nd)"
  by (auto simp: keeps_def emit_def modifyK_def ext_call_def write_stack_def returnK_def heap_ok_def htable_read_trylock_def
      htable_up_read_def htable_write_trylock_def htable_up_write_def register_dev_def unlink_dev_def split: if_splits option.splits)

lemma keeps_heap_minor: "keeps heap_ok (ndmgm_get_minor pid)"
proof (rule keepsI)
  fix s m t
  assume "heap_ok s" and run: "ndmgm_get_minor pid s = Inr (m, t)"
  show "heap_ok t"
  proof (cases "0 \<le> m")
    case True
    with run \<open>heap_ok s\<close> show ?thesis by (elim get_minor_SomeE) (auto simp: heap_ok_def)
  next
    case False
    with get_minor_none[OF run] \<open>heap_ok s\<close> show ?thesis by simp
  qed
qed

lemmas keeps_heap = keeps_heap_base keeps_heap_struct keeps_heap_global keeps_heap_minor keeps_bind keeps_then keeps_if

lemma keeps_heap_alloc_data: "keeps heap_ok (ndmgm_alloc_data pid name m)"
  unfolding ndmgm_alloc_data_def alloc_free_cdev_def alloc_free_devname_def alloc_free_nddata_def kmem_cache_create_def
  by (intro keeps_heap keeps_return)

lemma keeps_heap_free_data: "keeps heap_ok (ndmgm_free_data nd)"
  unfolding ndmgm_free_data_def kmem_cache_destroy_def by (intro keeps_heap keeps_return)

lemma keeps_heap_create_dummy: "keeps heap_ok (ndmgm_create_dummy pid name)"
  unfolding ndmgm_create_dummy_def ndmgm_get_def
  by (intro keeps_heap keeps_heap_alloc_data keeps_heap_free_data keeps_return)

lemma keeps_heap_create_server: "keeps heap_ok (ndmgm_create_server pid name)"
  unfolding ndmgm_create_server_def ndmgm_get_def kmem_cache_create_def by (intro keeps_heap keeps_return)

section \<open>The invariant\<close>

definition devs :: "kst \<Rightarrow> addr set" where
  "devs s = set (hash_all (netdev_htable s))"

definition dev_at :: "kst \<Rightarrow> addr \<Rightarrow> netdev_data" where
  "dev_at s p = (case heap s p of Some (ODev d) \<Rightarrow> d | _ \<Rightarrow> zero_dev)"

definition minor_at :: "kst \<Rightarrow> addr \<Rightarrow> nat" where
  "minor_at s p = (case heap s (cdev (dev_at s p)) of Some (OCdev m) \<Rightarrow> m | _ \<Rightarrow> 0)"

text \<open>A registered device that no file is open on, with everything it points to.\<close>

definition idle_dev :: "kst \<Rightarrow> addr \<Rightarrow> bool" where
  "idle_dev s p \<longleftrightarrow> (let d = dev_at s p in buffers_ok s p d \<and> users d = 1 \<and> nd_sem d = sem_free \<and> \<not> nllock d \<and> active d \<and>
     hash_all (foacc_htable d) = [] \<and>
     (dummy d \<longrightarrow> 0 < cdev d \<and> heap s (cdev d) = Some (OCdev (minor_at s p)) \<and> minor_at s p < NETDEV_MAX_DEVICES))"

text \<open>The dummy devices that own their minor: -1 as a pid marks a minor as free.\<close>

definition owners :: "kst \<Rightarrow> addr set" where
  "owners s = {p \<in> devs s. dummy (dev_at s p) \<and> nlpid (dev_at s p) \<noteq> - 1}"

definition exclusive :: "kst \<Rightarrow> bool" where
  "exclusive s \<longleftrightarrow> inj_on (\<lambda>p. devname (dev_at s p)) (devs s) \<and> inj_on (\<lambda>p. queue_pool (dev_at s p)) (devs s) \<and>
     inj_on (\<lambda>p. cdev (dev_at s p)) {p \<in> devs s. dummy (dev_at s p)}"

definition minors_ok :: "kst \<Rightarrow> bool" where
  "minors_ok s \<longleftrightarrow> netdev_minor_sem s = sem_free \<and> netdev_max_minor s < NETDEV_MAX_DEVICES \<and>
     (\<exists>u. netdev_minors_used s = Some u \<and> length u = NETDEV_MAX_DEVICES \<and>
       (\<forall>p \<in> owners s. u ! minor_at s p = nlpid (dev_at s p))) \<and> inj_on (minor_at s) (owners s)"

definition well_registered :: "kst \<Rightarrow> bool" where
  "well_registered s \<longleftrightarrow> heap_ok s \<and> netdev_htable_sem s = sem_free \<and> distinct (hash_all (netdev_htable s)) \<and>
     (\<forall>b \<ge> HTABLE_BUCKETS. netdev_htable s b = []) \<and> (\<forall>p \<in> devs s. idle_dev s p) \<and> exclusive s \<and> minors_ok s"

lemma well_registeredD:
  assumes "well_registered s"
  shows "heap_ok s" "netdev_htable_sem s = sem_free" "distinct (hash_all (netdev_htable s))"
    "b \<ge> HTABLE_BUCKETS \<Longrightarrow> netdev_htable s b = []" "p \<in> devs s \<Longrightarrow> idle_dev s p" "exclusive s" "minors_ok s"
  using assms by (auto simp: well_registered_def)

lemma idle_devD:
  assumes "idle_dev s p" "d = dev_at s p"
  shows "buffers_ok s p d" "heap s p = Some (ODev d)" "users d = 1" "nd_sem d = sem_free" "\<not> nllock d"
    "hash_all (foacc_htable d) = []"
    "dummy d \<Longrightarrow> 0 < cdev d \<and> heap s (cdev d) = Some (OCdev (minor_at s p)) \<and> minor_at s p < NETDEV_MAX_DEVICES"
  using assms by (auto simp: idle_dev_def Let_def buffers_ok_def)

lemma well_registered_devs_ok: "well_registered s \<Longrightarrow> devs_ok s"
proof -
  assume s: "well_registered s"
  have "\<exists>d. heap s p = Some (ODev d)" if "p \<in> set (netdev_htable s b)" for p b
  proof -
    have "b < HTABLE_BUCKETS" using well_registeredD(4)[OF s, of b] that by (cases "HTABLE_BUCKETS \<le> b") auto
    then have "p \<in> devs s" using that by (auto simp: devs_def set_hash_all)
    then show ?thesis using idle_devD(2)[OF well_registeredD(5)[OF s]] by blast
  qed
  then show ?thesis by (auto simp: devs_ok_def)
qed

text \<open>\<open>agrees s t p\<close>: the device at \<open>p\<close> and what it points to are in \<open>t\<close> as in \<open>s\<close>.\<close>

definition agrees :: "kst \<Rightarrow> kst \<Rightarrow> addr \<Rightarrow> bool" where
  "agrees s t p \<longleftrightarrow> heap t p = heap s p \<and> heap t (devname (dev_at s p)) = heap s (devname (dev_at s p)) \<and>
     heap t (queue_pool (dev_at s p)) = heap s (queue_pool (dev_at s p)) \<and>
     (dummy (dev_at s p) \<longrightarrow> heap t (cdev (dev_at s p)) = heap s (cdev (dev_at s p)))"

lemma agrees_dev: "agrees s t p \<Longrightarrow> dev_at t p = dev_at s p"
  by (simp add: agrees_def dev_at_def)

lemma agrees_minor: "agrees s t p \<Longrightarrow> dummy (dev_at s p) \<Longrightarrow> minor_at t p = minor_at s p"
  using agrees_dev[of s t p] by (simp add: agrees_def minor_at_def)

lemma agrees_idle: "agrees s t p \<Longrightarrow> idle_dev s p \<Longrightarrow> idle_dev t p"
  using agrees_dev[of s t p] agrees_minor[of s t p]
  by (auto simp: idle_dev_def Let_def buffers_ok_def agrees_def)

lemma agrees_extends:
  assumes "idle_dev s p" "\<And>q x. heap s q = Some x \<Longrightarrow> heap t q = Some x"
  shows "agrees s t p"
  using assms idle_devD[OF assms(1) refl] by (auto simp: agrees_def buffers_ok_def)

lemma inj_on_same: "inj_on f A \<Longrightarrow> B \<subseteq> A \<Longrightarrow> (\<And>x. x \<in> B \<Longrightarrow> g x = f x) \<Longrightarrow> inj_on g B"
  by (metis inj_on_cong inj_on_subset)

text \<open>Devices may go: what stays is untouched.\<close>

definition table_ok :: "kst \<Rightarrow> bool" where
  "table_ok t \<longleftrightarrow> heap_ok t \<and> netdev_htable_sem t = sem_free \<and> distinct (hash_all (netdev_htable t)) \<and>
     (\<forall>b \<ge> HTABLE_BUCKETS. netdev_htable t b = [])"

lemma well_registered_shrink:
  assumes s: "well_registered s" and t: "table_ok t" "devs t \<subseteq> devs s" "\<And>p. p \<in> devs t \<Longrightarrow> agrees s t p"
    and m: "netdev_minor_sem t = sem_free" "netdev_max_minor t < NETDEV_MAX_DEVICES" "netdev_minors_used t = Some v"
      "length v = NETDEV_MAX_DEVICES" "\<And>p. p \<in> owners s \<Longrightarrow> p \<in> devs t \<Longrightarrow> v ! minor_at s p = nlpid (dev_at s p)"
  shows "well_registered t"
proof -
  have own: "owners t \<subseteq> owners s" using t(2,3) agrees_dev by (fastforce simp: owners_def)
  have in_t: "p \<in> devs t" "dummy (dev_at s p)" if "p \<in> owners t" for p
    using that t(3) agrees_dev by (fastforce simp: owners_def)+
  have "exclusive t"
    unfolding exclusive_def
  proof (intro conjI)
    show "inj_on (\<lambda>p. devname (dev_at t p)) (devs t)" "inj_on (\<lambda>p. queue_pool (dev_at t p)) (devs t)"
      using well_registeredD(6)[OF s] t(2) agrees_dev[OF t(3)]
      by (auto simp: exclusive_def intro: inj_on_same)
    show "inj_on (\<lambda>p. cdev (dev_at t p)) {p \<in> devs t. dummy (dev_at t p)}"
    proof (rule inj_on_same)
      show "inj_on (\<lambda>p. cdev (dev_at s p)) {p \<in> devs s. dummy (dev_at s p)}"
        using well_registeredD(6)[OF s] by (simp add: exclusive_def)
    qed (use t(2) agrees_dev[OF t(3)] in auto)
  qed
  moreover have "minors_ok t"
    unfolding minors_ok_def
  proof (intro conjI exI[of _ v] ballI)
    fix p assume p: "p \<in> owners t"
    show "v ! minor_at t p = nlpid (dev_at t p)"
      using m(5)[of p] own p in_t[OF p] agrees_dev[OF t(3)] agrees_minor[OF t(3)] by auto
  next
    show "inj_on (minor_at t) (owners t)"
      using well_registeredD(7)[OF s] own in_t agrees_minor[OF t(3)]
      by (auto simp: minors_ok_def intro: inj_on_same)
  qed (use m in simp_all)
  moreover have "idle_dev t p" if "p \<in> devs t" for p
    using that t(2) agrees_idle[OF t(3) well_registeredD(5)[OF s]] by blast
  ultimately show ?thesis using t(1) by (simp add: well_registered_def table_ok_def)
qed

text \<open>A device may come, in fresh memory and with a minor of its own.\<close>

lemma well_registered_grow:
  assumes s: "well_registered s" and t: "table_ok t" "devs t = insert nd (devs s)" "nd \<notin> devs s"
    and heap: "\<And>q x. heap s q = Some x \<Longrightarrow> heap t q = Some x"
    and new: "idle_dev t nd" "heap s (devname (dev_at t nd)) = None" "heap s (queue_pool (dev_at t nd)) = None"
      "dummy (dev_at t nd) \<Longrightarrow> heap s (cdev (dev_at t nd)) = None"
    and m: "netdev_minor_sem t = sem_free" "netdev_max_minor t < NETDEV_MAX_DEVICES" "netdev_minors_used t = Some v"
      "length v = NETDEV_MAX_DEVICES" "\<And>p. p \<in> owners s \<Longrightarrow> v ! minor_at s p = nlpid (dev_at s p)"
    and mnew: "nd \<in> owners t \<Longrightarrow> v ! minor_at t nd = nlpid (dev_at t nd) \<and> minor_at t nd \<notin> minor_at s ` owners s"
  shows "well_registered t"
proof -
  have ag: "agrees s t p" if "p \<in> devs s" for p using agrees_extends[OF well_registeredD(5)[OF s that] heap] by blast
  have same: "dev_at t p = dev_at s p" if "p \<in> devs s" for p using agrees_dev[OF ag[OF that]] .
  have used: "heap s (devname (dev_at s p)) \<noteq> None" "heap s (queue_pool (dev_at s p)) \<noteq> None"
      "dummy (dev_at s p) \<Longrightarrow> heap s (cdev (dev_at s p)) \<noteq> None" if "p \<in> devs s" for p
    using idle_devD[OF well_registeredD(5)[OF s that] refl] by (auto simp: buffers_ok_def)
  have own: "p \<in> owners t \<longleftrightarrow> p \<in> owners s" if "p \<noteq> nd" for p
    using that t(2) same by (auto simp: owners_def)
  have inj: "inj_on (\<lambda>p. g (dev_at t p)) (insert nd A)"
    if "inj_on (\<lambda>p. g (dev_at s p)) A" "A \<subseteq> devs s" "\<And>p. p \<in> A \<Longrightarrow> g (dev_at s p) \<noteq> g (dev_at t nd)"
    for g :: "netdev_data \<Rightarrow> nat" and A
  proof -
    have e: "g (dev_at t p) = g (dev_at s p)" "g (dev_at t p) \<noteq> g (dev_at t nd)" if "p \<in> A" for p
      using \<open>p \<in> A\<close> \<open>A \<subseteq> devs s\<close> same that(1) \<open>\<And>p. p \<in> A \<Longrightarrow> g (dev_at s p) \<noteq> g (dev_at t nd)\<close> by (metis subsetD)+
    have "inj_on (\<lambda>p. g (dev_at t p)) A" using e(1) by (intro inj_on_same[OF that(1)]) simp_all
    then show ?thesis using e(2) by (force simp: inj_on_insert)
  qed
  have dn: "devname (dev_at s p) \<noteq> devname (dev_at t nd)" and qp: "queue_pool (dev_at s p) \<noteq> queue_pool (dev_at t nd)"
    and cd: "dummy (dev_at s p) \<Longrightarrow> dummy (dev_at t nd) \<Longrightarrow> cdev (dev_at s p) \<noteq> cdev (dev_at t nd)" if "p \<in> devs s" for p
    using used[OF that] new(2-4) by auto
  have "exclusive t"
    unfolding exclusive_def
  proof (intro conjI)
    have ex: "inj_on (\<lambda>p. devname (dev_at s p)) (devs s)" "inj_on (\<lambda>p. queue_pool (dev_at s p)) (devs s)"
        "inj_on (\<lambda>p. cdev (dev_at s p)) {p \<in> devs s. dummy (dev_at s p)}"
      using well_registeredD(6)[OF s] by (simp_all add: exclusive_def)
    show "inj_on (\<lambda>p. devname (dev_at t p)) (devs t)" unfolding t(2) by (rule inj[OF ex(1) subset_refl dn])
    show "inj_on (\<lambda>p. queue_pool (dev_at t p)) (devs t)" unfolding t(2) by (rule inj[OF ex(2) subset_refl qp])
    let ?D = "{p \<in> devs s. dummy (dev_at s p)}"
    have "inj_on (\<lambda>p. cdev (dev_at t p)) (insert nd ?D)" if "dummy (dev_at t nd)"
      by (rule inj[OF ex(3)]) (use cd that in auto)
    moreover have "inj_on (\<lambda>p. cdev (dev_at t p)) ?D" by (rule inj_on_same[OF ex(3)]) (use same in auto)
    ultimately have "inj_on (\<lambda>p. cdev (dev_at t p)) (if dummy (dev_at t nd) then insert nd ?D else ?D)" by simp
    moreover have "{p \<in> devs t. dummy (dev_at t p)} = (if dummy (dev_at t nd) then insert nd ?D else ?D)"
      using t(2,3) same by auto
    ultimately show "inj_on (\<lambda>p. cdev (dev_at t p)) {p \<in> devs t. dummy (dev_at t p)}" by simp
  qed
  moreover have "minors_ok t"
    unfolding minors_ok_def
  proof (intro conjI exI[of _ v] ballI)
    have old: "minor_at t p = minor_at s p" "dev_at t p = dev_at s p" if "p \<in> owners s" for p
      using that agrees_minor[OF ag] same by (auto simp: owners_def)
    show "v ! minor_at t p = nlpid (dev_at t p)" if "p \<in> owners t" for p
      using that own[of p] mnew m(5) old by (cases "p = nd") auto
    have "owners t \<subseteq> insert nd (owners s)" using own by blast
    moreover have "inj_on (minor_at t) (owners s)"
      using well_registeredD(7)[OF s] old by (auto simp: minors_ok_def intro: inj_on_same)
    ultimately show "inj_on (minor_at t) (owners t)"
      using mnew old own by (auto simp: inj_on_def) (metis image_eqI)+
  qed (use m in simp_all)
  moreover have "idle_dev t p" if "p \<in> devs t" for p
    using that t(2) new(1) agrees_idle[OF ag well_registeredD(5)[OF s]] by (cases "p = nd") auto
  ultimately show ?thesis using t(1) by (simp add: well_registered_def table_ok_def)
qed

section \<open>The operations keep it\<close>

lemma minors_okE:
  assumes "minors_ok s"
  obtains u where "netdev_minors_used s = Some u" "length u = NETDEV_MAX_DEVICES" "netdev_minor_sem s = sem_free"
    "netdev_max_minor s < NETDEV_MAX_DEVICES" "\<And>p. p \<in> owners s \<Longrightarrow> u ! minor_at s p = nlpid (dev_at s p)"
  using assms by (auto simp: minors_ok_def)

text \<open>The heap has grown and the table has not changed.\<close>

lemma well_registered_same_table:
  assumes "well_registered s" "heap_ok t" "netdev_htable t = netdev_htable s" "netdev_htable_sem t = netdev_htable_sem s"
    and "\<And>q x. heap s q = Some x \<Longrightarrow> x \<noteq> OSkb y \<Longrightarrow> heap t q = Some x"
    and "netdev_minor_sem t = sem_free" "netdev_max_minor t < NETDEV_MAX_DEVICES" "netdev_minors_used t = Some v"
      "length v = NETDEV_MAX_DEVICES" "\<And>p. p \<in> owners s \<Longrightarrow> v ! minor_at s p = nlpid (dev_at s p)"
  shows "well_registered t"
proof (rule well_registered_shrink[OF assms(1) _ _ _ assms(6-9)])
  show "table_ok t" using assms(1-4) by (auto simp: table_ok_def well_registered_def)
  show "devs t \<subseteq> devs s" using assms(3) by (simp add: devs_def)
  show "agrees s t p" if "p \<in> devs t" for p
    using idle_devD[OF well_registeredD(5)[OF assms(1), of p] refl] assms(5) that assms(3)
    by (auto simp: agrees_def buffers_ok_def devs_def)
qed (rule assms(10))

lemma well_registered_frame:
  assumes "well_registered s" "heap_ok t" "same_globals s t" "\<And>q x. heap s q = Some x \<Longrightarrow> x \<noteq> OSkb y \<Longrightarrow> heap t q = Some x"
  shows "well_registered t"
proof -
  obtain u where u: "netdev_minors_used s = Some u" "length u = NETDEV_MAX_DEVICES" "netdev_minor_sem s = sem_free"
    "netdev_max_minor s < NETDEV_MAX_DEVICES" "\<And>p. p \<in> owners s \<Longrightarrow> u ! minor_at s p = nlpid (dev_at s p)"
    using minors_okE[OF well_registeredD(7)[OF assms(1)]] by blast
  show ?thesis
    using assms u by (intro well_registered_same_table[OF assms(1), where v = u and y = y]) (auto simp: same_globals_def)
qed

text \<open>A reserved minor belonged to nobody.\<close>

lemma minor_reserved:
  assumes s: "well_registered s" and gm: "ndmgm_get_minor pid s = Inr (int m, s1)"
  obtains v where "netdev_minors_used s1 = Some v" "length v = NETDEV_MAX_DEVICES" "m < NETDEV_MAX_DEVICES"
    "netdev_minor_sem s1 = sem_free" "netdev_max_minor s1 < NETDEV_MAX_DEVICES" "v ! m = pid"
    "\<And>p. p \<in> owners s \<Longrightarrow> v ! minor_at s p = nlpid (dev_at s p) \<and> minor_at s p \<noteq> m"
    "heap s1 = heap s" "next_addr s1 = next_addr s" "netdev_htable s1 = netdev_htable s"
    "netdev_htable_sem s1 = netdev_htable_sem s" "hash_min s1 = hash_min s"
proof -
  obtain u where u: "netdev_minors_used s = Some u" "length u = NETDEV_MAX_DEVICES" "netdev_minor_sem s = sem_free"
    "netdev_max_minor s < NETDEV_MAX_DEVICES" "\<And>p. p \<in> owners s \<Longrightarrow> u ! minor_at s p = nlpid (dev_at s p)"
    using minors_okE[OF well_registeredD(7)[OF s]] by blast
  obtain w where w: "netdev_minors_used s = Some w" "nat (int m) < length w" "w ! nat (int m) = - 1"
    "s1 = s\<lparr>netdev_minors_used := Some (w[nat (int m) := pid]), netdev_max_minor := max (netdev_max_minor s) (nat (int m))\<rparr>"
    using gm by (elim get_minor_SomeE) auto
  have "u = w" using u(1) w(1) by simp
  have "minor_at s p \<noteq> m" "m \<noteq> minor_at s p" if "p \<in> owners s" for p
    using u(5)[OF that] w(3) \<open>u = w\<close> that by (auto simp: owners_def)
  then show thesis
    using u w \<open>u = w\<close> by (intro that[of "u[m := pid]"]) auto
qed

lemma well_registered_reserved:
  assumes "well_registered s" "ndmgm_get_minor pid s = Inr (int m, s1)"
    and "heap_ok t" "same_globals s1 t" "\<And>q x. heap s q = Some x \<Longrightarrow> heap t q = Some x"
  shows "well_registered t"
  using assms(1,2)
proof (rule minor_reserved)
  fix v
  assume "netdev_minors_used s1 = Some v" "length v = NETDEV_MAX_DEVICES" "netdev_minor_sem s1 = sem_free"
    "netdev_max_minor s1 < NETDEV_MAX_DEVICES" "netdev_htable s1 = netdev_htable s" "netdev_htable_sem s1 = netdev_htable_sem s"
    "\<And>p. p \<in> owners s \<Longrightarrow> v ! minor_at s p = nlpid (dev_at s p) \<and> minor_at s p \<noteq> m"
  then show ?thesis
    using assms by (intro well_registered_same_table[OF assms(1), where v = v and y = empty_msg]) (auto simp: same_globals_def)
qed

lemma create_dummy_well_registered:
  assumes s: "well_registered s" and run: "ndmgm_create_dummy pid name s = Inr (r, t)"
  shows "well_registered t"
proof -
  have ok: "heap_ok s" "heap_ok t" using well_registeredD(1)[OF s] keepsD[OF keeps_heap_create_dummy _ run] by auto
  show ?thesis
  proof (cases "r = 0")
    case False
    with ok(1) run show ?thesis
    proof (rule create_dummy_nonzeroE)
      fix m s1
      assume gm: "ndmgm_get_minor pid s = Inr (int m, s1)" "heap s1 = heap s" "heap t = alloc_leak s1 name" "same_globals s1 t"
      have "heap_ok s1" using keepsD[OF keeps_heap_minor ok(1) gm(1)] .
      then have "heap t q = Some x" if "heap s q = Some x" for q x
        using alloc_leak_keeps[of s1 q x name] that gm(2,3) by simp
      then show ?thesis using well_registered_reserved[OF s gm(1) ok(2) gm(4)] by blast
    qed (use s in simp)
  next
    case True
    with run have "ndmgm_create_dummy pid name s = Inr (0, t)" by simp
    with ok(1) show ?thesis
    proof (rule create_dummy_zeroE)
      fix m s1 nd
      assume gm: "ndmgm_get_minor pid s = Inr (int m, s1)" and nd: "nd = next_addr s"
        and h: "heap t = (heap s)(nd \<mapsto> ODev (dummy_dev pid nd), Suc nd \<mapsto> OBuf (devname_buf name), Suc (Suc nd) \<mapsto> OCdev m,
          Suc (Suc (Suc nd)) \<mapsto> OPool)"
        and t: "netdev_htable t = hash_add (hash_min s) pid nd (netdev_htable s)" "netdev_minors_used t = netdev_minors_used s1"
          "netdev_minor_sem t = sem_free" "netdev_htable_sem t = netdev_htable_sem s" "netdev_max_minor t = netdev_max_minor s1"
      note fresh = fresh_heap[OF ok(1), folded nd]
      have nd_new: "nd \<notin> devs s" using fresh(1) idle_devD(2)[OF well_registeredD(5)[OF s] refl] by auto
      have at: "dev_at t nd = dummy_dev pid nd" "minor_at t nd = m" using h by (simp_all add: dev_at_def minor_at_def)
      show ?thesis
        using s gm
      proof (rule minor_reserved)
        fix v
        assume v: "netdev_minors_used s1 = Some v" "length v = NETDEV_MAX_DEVICES" "m < NETDEV_MAX_DEVICES"
          "netdev_max_minor s1 < NETDEV_MAX_DEVICES" "v ! m = pid"
          "\<And>p. p \<in> owners s \<Longrightarrow> v ! minor_at s p = nlpid (dev_at s p) \<and> minor_at s p \<noteq> m"
        show ?thesis
        proof (rule well_registered_grow[OF s, where nd = nd and v = v])
          have "distinct (hash_all (netdev_htable t))"
            unfolding t(1) distinct_hash_add using nd_new well_registeredD(3)[OF s] by (simp add: devs_def)
          then show "table_ok t"
            using ok(2) t(1,4) well_registeredD(2,4)[OF s] hash_bucket_less[of "hash_min s" pid]
            by (auto simp: table_ok_def hash_add_def)
          show "devs t = insert nd (devs s)" by (simp add: devs_def t(1) all_hash_add)
          show "idle_dev t nd"
            unfolding idle_dev_def at Let_def using h fresh(5) v(3) by (simp add: buffers_ok_def dummy_dev_def fresh_dev_def zero_dev_def)
          show "heap t q = Some x" if "heap s q = Some x" for q x using that h fresh by auto
          show "v ! minor_at t nd = nlpid (dev_at t nd) \<and> minor_at t nd \<notin> minor_at s ` owners s"
            using v(5,6) by (auto simp: at)
        qed (use nd_new fresh at t v in simp_all)
      qed
    qed
  qed
qed

lemma create_server_total:
  assumes s: "well_registered s"
  shows "\<exists>r t. ndmgm_create_server pid name s = Inr (r, t) \<and> well_registered t"
proof (cases "alloc3 s")
  case False
  obtain t where t: "ndmgm_create_server pid name s = Inr (1, t)" "heap t = heap s" "same_globals s t"
    using create_server_fails[OF well_registeredD(1)[OF s] False, of pid name] by blast
  have "heap_ok t" using keepsD[OF keeps_heap_create_server well_registeredD(1)[OF s] t(1)] .
  then have "well_registered t" using t(2) by (intro well_registered_frame[OF s _ t(3)]) simp_all
  with t(1) show ?thesis by blast
next
  case True
  let ?nd = "next_addr s"
  note fresh = fresh_heap[OF well_registeredD(1)[OF s]]
  note run = create_server_ok[OF well_registeredD(1)[OF s] True refl, of pid name]
  obtain t where t: "ndmgm_create_server pid name s = Inr (0, t)"
    "heap t = (heap s)(?nd \<mapsto> ODev (server_dev pid ?nd), Suc ?nd \<mapsto> OBuf (name @ [0]), Suc (Suc ?nd) \<mapsto> OPool)"
    "netdev_htable t = hash_add (hash_min s) pid ?nd (netdev_htable s)" "netdev_htable_sem t = sem_free"
    "netdev_minor_sem t = netdev_minor_sem s" "netdev_max_minor t = netdev_max_minor s" "netdev_minors_used t = netdev_minors_used s"
    using run well_registeredD(2)[OF s] by simp
  obtain u where u: "netdev_minors_used s = Some u" "length u = NETDEV_MAX_DEVICES" "netdev_minor_sem s = sem_free"
    "netdev_max_minor s < NETDEV_MAX_DEVICES" "\<And>p. p \<in> owners s \<Longrightarrow> u ! minor_at s p = nlpid (dev_at s p)"
    using minors_okE[OF well_registeredD(7)[OF s]] by blast
  have new: "?nd \<notin> devs s" using fresh(1) idle_devD(2)[OF well_registeredD(5)[OF s] refl] by auto
  have at: "dev_at t ?nd = server_dev pid ?nd" using t(2) by (simp add: dev_at_def)
  have "well_registered t"
  proof (rule well_registered_grow[OF s, where nd = ?nd and v = u])
    have "distinct (hash_all (netdev_htable t))"
      unfolding t(3) distinct_hash_add using new well_registeredD(3)[OF s] by (simp add: devs_def)
    moreover have "heap_ok t" using keepsD[OF keeps_heap_create_server well_registeredD(1)[OF s] t(1)] .
    ultimately show "table_ok t"
      using t(3,4) well_registeredD(4)[OF s] hash_bucket_less[of "hash_min s" pid] by (auto simp: table_ok_def hash_add_def)
    show "devs t = insert ?nd (devs s)" by (simp add: devs_def t(3) all_hash_add)
    show "heap t q = Some x" if "heap s q = Some x" for q x using that t(2) fresh by auto
    show "idle_dev t ?nd"
      unfolding idle_dev_def at Let_def using t(2) fresh(5) by (simp add: buffers_ok_def)
    show "u ! minor_at t ?nd = nlpid (dev_at t ?nd) \<and> minor_at t ?nd \<notin> minor_at s ` owners s" if "?nd \<in> owners t"
      using that by (simp add: owners_def at)
  qed (use new fresh t at u in simp_all)
  with t(1) show ?thesis by blast
qed

text \<open>Releasing one device leaves the others alone.\<close>

definition cells :: "addr \<Rightarrow> netdev_data \<Rightarrow> addr set" where
  "cells nd d = {nd, devname d, queue_pool d} \<union> (if dummy d then {cdev d} else {})"

text \<open>A set of idle devices that share nothing.\<close>

definition idle_all :: "kst \<Rightarrow> addr set \<Rightarrow> bool" where
  "idle_all s A \<longleftrightarrow> (\<forall>p \<in> A. idle_dev s p) \<and> inj_on (\<lambda>p. devname (dev_at s p)) A \<and> inj_on (\<lambda>p. queue_pool (dev_at s p)) A \<and>
     inj_on (\<lambda>p. cdev (dev_at s p)) {p \<in> A. dummy (dev_at s p)}"

lemma well_registered_idle_all: "well_registered s \<Longrightarrow> idle_all s (devs s)"
  by (simp add: idle_all_def well_registered_def exclusive_def)

lemma agrees_outside:
  assumes s: "idle_all s A" and "nd \<in> A" "p \<in> A" "p \<noteq> nd"
    and heap: "\<And>q. q \<notin> cells nd (dev_at s nd) \<Longrightarrow> heap t q = heap s q"
  shows "agrees s t p"
proof -
  let ?d = "dev_at s nd" and ?e = "dev_at s p"
  have idle: "idle_dev s nd" "idle_dev s p" using s assms(2,3) by (simp_all add: idle_all_def)
  note d = idle_devD[OF idle(1) refl] and e = idle_devD[OF idle(2) refl]
  have ex: "devname ?e \<noteq> devname ?d" "queue_pool ?e \<noteq> queue_pool ?d" "dummy ?d \<Longrightarrow> dummy ?e \<Longrightarrow> cdev ?e \<noteq> cdev ?d"
    using s assms(2-4) by (auto simp: idle_all_def inj_on_def)
  have b: "\<exists>x. heap s (devname ?d) = Some (OBuf x)" "\<exists>x. heap s (devname ?e) = Some (OBuf x)"
    "heap s (queue_pool ?d) = Some OPool" "heap s (queue_pool ?e) = Some OPool"
    using d(1) e(1) by (simp_all add: buffers_ok_def)
  have "p \<notin> cells nd ?d" "devname ?e \<notin> cells nd ?d" "queue_pool ?e \<notin> cells nd ?d" "dummy ?e \<Longrightarrow> cdev ?e \<notin> cells nd ?d"
    using b d(2,7) e(2,7) ex assms(4) by (fastforce simp: cells_def split: if_splits)+
  then show ?thesis using heap by (simp add: agrees_def)
qed

lemmas agrees_released = agrees_outside[OF well_registered_idle_all]

lemma idle_all_agrees:
  assumes "idle_all s A" "B \<subseteq> A" "\<And>p. p \<in> B \<Longrightarrow> agrees s t p"
  shows "idle_all t B"
proof -
  have same: "dev_at t p = dev_at s p" if "p \<in> B" for p using agrees_dev[OF assms(3)[OF that]] .
  have "idle_dev t p" if "p \<in> B" for p
    using agrees_idle[OF assms(3)[OF that]] assms(1,2) that by (auto simp: idle_all_def)
  moreover have "inj_on (\<lambda>p. devname (dev_at t p)) B" "inj_on (\<lambda>p. queue_pool (dev_at t p)) B"
    using assms(1,2) same by (auto simp: idle_all_def intro: inj_on_same)
  moreover have "inj_on (\<lambda>p. cdev (dev_at t p)) {p \<in> B. dummy (dev_at t p)}"
  proof (rule inj_on_same)
    show "inj_on (\<lambda>p. cdev (dev_at s p)) {p \<in> A. dummy (dev_at s p)}" using assms(1) by (simp add: idle_all_def)
  qed (use assms(2) same in auto)
  ultimately show ?thesis by (simp add: idle_all_def)
qed

text \<open>What \<open>ndmgm_destroy\<close> does to a device that was just unlinked.\<close>

lemma find_destroy_idle:
  assumes s: "well_registered s" and pid: "pid \<noteq> - 1" "device_of s pid = Some nd"
    and u: "netdev_minors_used s = Some u" "length u = NETDEV_MAX_DEVICES" "netdev_minor_sem s = sem_free"
  shows "\<exists>t v. ndmgm_find_destroy pid s = Inr (0, t) \<and> netdev_htable t = hash_del nd (netdev_htable s) \<and>
    netdev_htable_sem t = sem_free \<and> netdev_minor_sem t = sem_free \<and> netdev_max_minor t \<le> netdev_max_minor s \<and>
    netdev_minors_used t = Some v \<and> next_addr t = next_addr s \<and>
    (\<forall>q. heap t q = (if q \<in> cells nd (dev_at s nd) then None else heap s q)) \<and>
    v = (if dummy (dev_at s nd) then u[minor_at s nd := - 1] else u)"
proof -
  let ?d = "dev_at s nd"
  have nd: "nd \<in> devs s" using device_of_in_table[OF pid(2)] by (simp add: devs_def)
  note d = idle_devD[OF well_registeredD(5)[OF s nd] refl]
  note ok = well_registeredD(1)[OF s] well_registered_devs_ok[OF s]
  have free: "\<not> writer (netdev_htable_sem s)" using well_registeredD(2)[OF s] by simp
  have run: "ndmgm_find_destroy pid s = ndmgm_destroy nd (unlinked s nd ?d)"
    using find_destroy_unlinks[OF ok free pid d(2)] .
  note b = buffers_ok_unlinked[OF d(1)]
  show ?thesis
  proof (cases "dummy ?d")
    case False
    have "ndmgm_destroy nd (unlinked s nd ?d) = Inr (0, (unlinked s nd ?d)\<lparr>heap := (heap (unlinked s nd ?d))
        (queue_pool ?d := None, devname ?d := None, nd := None)\<rparr>)"
      using destroy_server_run[OF b] d(3,4) False by simp
    then show ?thesis
      using run u False well_registeredD(2)[OF s] by (auto simp: unlinked_def cells_def fun_eq_iff)
  next
    case True
    have "cdev ?d \<noteq> nd" using d(2) d(7)[OF True] by auto
    then obtain t where "ndmgm_destroy nd (unlinked s nd ?d) = Inr (0, t)"
      "heap t = (heap (unlinked s nd ?d))(queue_pool ?d := None, cdev ?d := None, devname ?d := None, nd := None)"
      "netdev_minors_used t = Some (u[minor_at s nd := - 1])" "netdev_htable t = hash_del nd (netdev_htable s)"
      "netdev_htable_sem t = sem_free" "netdev_minor_sem t = sem_free" "netdev_max_minor t \<le> netdev_max_minor s"
      "next_addr t = next_addr s"
      using destroy_dummy_run[OF b, of "minor_at s nd" u] d(3-6) d(7)[OF True] True u well_registeredD(2)[OF s]
      by (auto simp: unlinked_def)
    then show ?thesis
      using run True by (auto simp: unlinked_def cells_def)
  qed
qed

lemma find_destroy_total:
  assumes s: "well_registered s"
  shows "\<exists>r t. ndmgm_find_destroy pid s = Inr (r, t) \<and> well_registered t"
proof -
  have free: "\<not> writer (netdev_htable_sem s)" using well_registeredD(2)[OF s] by simp
  note ok = well_registeredD(1)[OF s] well_registered_devs_ok[OF s]
  consider "pid = - 1" | "pid \<noteq> - 1" "device_of s pid = None" | nd where "pid \<noteq> - 1" "device_of s pid = Some nd" by auto
  then show ?thesis
  proof cases
    case 1
    then show ?thesis using s by (simp add: ndmgm_find_destroy_def ndmgm_find_def bindK_def returnK_def)
  next
    case 2
    then show ?thesis using s find_destroy_missing[OF ok free] by blast
  next
    case (3 nd)
    let ?d = "dev_at s nd"
    have nd: "nd \<in> devs s" using device_of_in_table[OF 3(2)] by (simp add: devs_def)
    obtain u where u: "netdev_minors_used s = Some u" "length u = NETDEV_MAX_DEVICES" "netdev_minor_sem s = sem_free"
      "netdev_max_minor s < NETDEV_MAX_DEVICES" "\<And>p. p \<in> owners s \<Longrightarrow> u ! minor_at s p = nlpid (dev_at s p)"
      using minors_okE[OF well_registeredD(7)[OF s]] by blast
    obtain t v where t: "ndmgm_find_destroy pid s = Inr (0, t)" "netdev_htable t = hash_del nd (netdev_htable s)"
      "netdev_htable_sem t = sem_free" "netdev_minor_sem t = sem_free" "netdev_max_minor t \<le> netdev_max_minor s"
      "netdev_minors_used t = Some v" "next_addr t = next_addr s"
      "\<And>q. heap t q = (if q \<in> cells nd ?d then None else heap s q)"
      "v = (if dummy ?d then u[minor_at s nd := - 1] else u)"
      using find_destroy_idle[OF s 3 u(1-3)] by blast
    have gone: "devs t = devs s - {nd}" using set_hash_del[OF well_registeredD(3)[OF s]] by (simp add: devs_def t(2))
    have pid: "nlpid ?d = pid"
      using device_of_in_table[OF 3(2)] idle_devD(2)[OF well_registeredD(5)[OF s nd] refl] by (simp add: dev_key_def)
    have "well_registered t"
    proof (rule well_registered_shrink[OF s, where v = v])
      have "distinct (hash_all (netdev_htable t))"
        unfolding t(2) using well_registeredD(3)[OF s] by (rule chains.distinct_del)
      moreover have "heap_ok t" using ok(1) t(7,8) by (auto simp: heap_ok_def)
      ultimately show "table_ok t" using t(2,3) well_registeredD(4)[OF s] by (auto simp: table_ok_def hash_del_def)
      show "agrees s t p" if "p \<in> devs t" for p
        using agrees_released[OF s nd, of p t] t(8) that gone by auto
      show "v ! minor_at s p = nlpid (dev_at s p)" if "p \<in> owners s" "p \<in> devs t" for p
      proof (cases "dummy ?d")
        case True
        then have "nd \<in> owners s" using nd pid 3(1) by (simp add: owners_def)
        then have "minor_at s p \<noteq> minor_at s nd"
          using well_registeredD(7)[OF s] that gone by (auto simp: minors_ok_def inj_on_def)
        then show ?thesis using u(5)[OF that(1)] True t(9) by simp
      qed (use u(5) that t(9) in simp)
    qed (use gone t u in auto)
    with t(1) show ?thesis by blast
  qed
qed

section \<open>Messages in the heap\<close>

definition skbs_kept :: "kst \<Rightarrow> kst \<Rightarrow> bool" where
  "skbs_kept s t \<longleftrightarrow> (\<forall>q m. heap s q = Some (OSkb m) \<longrightarrow> heap t q = Some (OSkb m))"

definition free_minor :: "kst \<Rightarrow> bool" where
  "free_minor s \<longleftrightarrow> (\<exists>u i. netdev_minors_used s = Some u \<and> i < length u \<and> u ! i = - 1)"

lemma minor_scan_returns:
  assumes "i < length u" "u ! i = - 1" "hi \<le> length u"
  shows "\<exists>m. minor_scan u 0 hi = Inr m"
proof -
  define j where "j = (LEAST j. u ! j = - 1)"
  have j: "u ! j = - 1" "j \<le> i" "\<And>k. k < j \<Longrightarrow> u ! k \<noteq> - 1"
    unfolding j_def using assms(2) by (auto intro: LeastI Least_le dest: not_less_Least)
  show ?thesis
  proof (cases "j \<le> hi")
    case True
    then show ?thesis using minor_scan_found[of u j hi 0] j assms(1) by auto
  next
    case False
    then show ?thesis using minor_scan_none[of 0 hi u] j assms(1) by auto
  qed
qed

lemma get_minor_returns:
  assumes "minors_ok s" "free_minor s"
  shows "\<exists>m t. ndmgm_get_minor pid s = Inr (m, t)"
proof -
  obtain u where u: "netdev_minors_used s = Some u" "length u = NETDEV_MAX_DEVICES" "netdev_minor_sem s = sem_free"
    "netdev_max_minor s < NETDEV_MAX_DEVICES" using assms(1) by (auto elim: minors_okE)
  obtain m where "minor_scan u 0 (netdev_max_minor s + 1) = Inr m"
    using minor_scan_returns[of _ u "netdev_max_minor s + 1"] assms(2) u by (auto simp: free_minor_def)
  then show ?thesis using get_minor_run[OF u(3,1), of pid] u(4) by simp
qed

lemma create_dummy_returns:
  assumes "well_registered s" "free_minor s"
  shows "\<exists>r t. ndmgm_create_dummy pid name s = Inr (r, t)"
proof -
  obtain mi s1 where gm: "ndmgm_get_minor pid s = Inr (mi, s1)"
    using get_minor_returns[OF well_registeredD(7)[OF assms(1)] assms(2)] by blast
  have ok: "heap_ok s1" using keepsD[OF keeps_heap_minor well_registeredD(1)[OF assms(1)] gm] .
  show ?thesis
  proof (cases "0 \<le> mi")
    case False
    then show ?thesis using get_minor_none[OF gm] gm by (simp add: ndmgm_create_dummy_def bindK_def returnK_def)
  next
    case True
    then obtain m where m: "ndmgm_get_minor pid s = Inr (int m, s1)" using gm by (metis nonneg_int_cases)
    show ?thesis
      using create_dummy_ok[OF m ok _ refl, of name] create_dummy_fails[OF m ok, of name] by blast
  qed
qed

lemma create_dummy_skbs:
  assumes "heap_ok s" "ndmgm_create_dummy pid name s = Inr (r, t)"
  shows "skbs_kept s t"
proof (cases "r = 0")
  case True
  with assms(2) have "ndmgm_create_dummy pid name s = Inr (0, t)" by simp
  with assms(1) show ?thesis
    by (rule create_dummy_zeroE) (use fresh_heap[OF assms(1)] in \<open>auto simp: skbs_kept_def\<close>)
next
  case False
  from assms(1,2) False show ?thesis
  proof (rule create_dummy_nonzeroE)
    fix m s1
    assume gm: "ndmgm_get_minor pid s = Inr (int m, s1)" "heap s1 = heap s" "heap t = alloc_leak s1 name"
    have "heap_ok s1" using keepsD[OF keeps_heap_minor assms(1) gm(1)] .
    then show ?thesis using alloc_leak_keeps[of s1] gm(2,3) by (simp add: skbs_kept_def)
  qed (simp add: skbs_kept_def)
qed

lemma create_server_skbs:
  assumes "heap_ok s" "ndmgm_create_server pid name s = Inr (r, t)"
  shows "skbs_kept s t"
proof (cases "alloc3 s")
  case True
  then show ?thesis
    using create_server_ok[OF assms(1) True refl, of pid name] assms(2) fresh_heap[OF assms(1)] by (auto simp: skbs_kept_def)
next
  case False
  then show ?thesis
    using create_server_fails[OF assms(1) False, of pid name] assms(2) by (auto simp: skbs_kept_def)
qed

lemma find_destroy_skbs:
  assumes s: "well_registered s" and run: "ndmgm_find_destroy pid s = Inr (r, t)"
  shows "skbs_kept s t"
proof -
  have free: "\<not> writer (netdev_htable_sem s)" using well_registeredD(2)[OF s] by simp
  note ok = well_registeredD(1)[OF s] well_registered_devs_ok[OF s]
  consider "pid = - 1" | "pid \<noteq> - 1" "device_of s pid = None" | nd where "pid \<noteq> - 1" "device_of s pid = Some nd" by auto
  then show ?thesis
  proof cases
    case 1
    then show ?thesis using run by (simp add: ndmgm_find_destroy_def ndmgm_find_def bindK_def returnK_def skbs_kept_def)
  next
    case 2
    then show ?thesis using run find_destroy_missing[OF ok free] by (simp add: skbs_kept_def)
  next
    case (3 nd)
    have nd: "nd \<in> devs s" using device_of_in_table[OF 3(2)] by (simp add: devs_def)
    note d = idle_devD[OF well_registeredD(5)[OF s nd] refl]
    obtain u where "netdev_minors_used s = Some u" "length u = NETDEV_MAX_DEVICES" "netdev_minor_sem s = sem_free"
      using well_registeredD(7)[OF s] by (auto elim: minors_okE)
    then have "heap t q = (if q \<in> cells nd (dev_at s nd) then None else heap s q)" for q
      using find_destroy_idle[OF s 3] run by auto
    moreover have "q \<notin> cells nd (dev_at s nd)" if "heap s q = Some (OSkb m)" for q m
      using that d(1,2,7) by (auto simp: cells_def buffers_ok_def split: if_splits)
    ultimately show ?thesis by (simp add: skbs_kept_def)
  qed
qed

section \<open>Unloading\<close>

text \<open>
  The loop of \<open>ndmgm_end\<close> over idle devices runs through: it holds the table's semaphore, so a
  dummy device is only made inactive, and a server device is released.
\<close>

lemma end_one_device:
  assumes s: "idle_dev s nd" and sem: "netdev_htable_sem s \<noteq> sem_free"
  shows "\<exists>r t. thenK (unlink_dev nd) (thenK (ndmgm_put nd) (ndmgm_destroy nd)) s = Inr (r, t) \<and>
    netdev_htable_sem t = netdev_htable_sem s \<and> (\<forall>q. q \<notin> cells nd (dev_at s nd) \<longrightarrow> heap t q = heap s q)"
proof -
  let ?d = "dev_at s nd" and ?e = "(dev_at s nd)\<lparr>users := 0\<rparr>"
  note d = idle_devD[OF s refl]
  let ?u = "s\<lparr>netdev_htable := hash_del nd (netdev_htable s), heap := (heap s)(nd \<mapsto> ODev ?e)\<rparr>"
  have nd: "0 < nd" using d(1) by (simp add: buffers_ok_def)
  have run: "thenK (unlink_dev nd) (thenK (ndmgm_put nd) (ndmgm_destroy nd)) s = ndmgm_destroy nd ?u"
    using nd d(2,3) by (simp add: thenK_def bindK_def unlink_dev_def modifyK_def ndmgm_put_def)
  show ?thesis
  proof (cases "dummy ?d")
    case True
    then show ?thesis
      unfolding run using destroy_dummy_locked[of nd ?u ?e] nd sem d(4) by (auto simp: cells_def)
  next
    case False
    have "buffers_ok ?u nd ?e" using d(1) by (auto simp: buffers_ok_def)
    then show ?thesis
      unfolding run using destroy_server_run[of ?u nd ?e] False d(4) by (auto simp: cells_def)
  qed
qed

lemma end_devices_total:
  "idle_all s (set nds) \<Longrightarrow> distinct nds \<Longrightarrow> netdev_htable_sem s \<noteq> sem_free \<Longrightarrow>
    \<exists>t. end_devices nds s = Inr ((), t) \<and> netdev_htable_sem t = netdev_htable_sem s"
proof (induction nds arbitrary: s)
  case Nil
  then show ?case by (simp add: returnK_def)
next
  case (Cons nd nds)
  have "idle_dev s nd" using Cons.prems(1) by (simp add: idle_all_def)
  from end_one_device[OF this Cons.prems(3)] obtain r t
    where t: "thenK (unlink_dev nd) (thenK (ndmgm_put nd) (ndmgm_destroy nd)) s = Inr (r, t)"
      "netdev_htable_sem t = netdev_htable_sem s" "\<And>q. q \<notin> cells nd (dev_at s nd) \<Longrightarrow> heap t q = heap s q" by blast
  have "agrees s t p" if "p \<in> set nds" for p
    using Cons.prems(2) that t(3) by (intro agrees_outside[OF Cons.prems(1), of nd]) auto
  then have "idle_all t (set nds)" by (intro idle_all_agrees[OF Cons.prems(1)]) auto
  from Cons.IH[OF this] Cons.prems(2,3) t(2) obtain v where "end_devices nds t = Inr ((), v)" "netdev_htable_sem v = netdev_htable_sem s"
    by auto
  moreover have "end_devices (nd # nds) s = thenK (thenK (unlink_dev nd) (thenK (ndmgm_put nd) (ndmgm_destroy nd))) (end_devices nds) s"
    by (simp add: thenK_def bindK_def split: sum.splits)
  ultimately show ?case using t(1) by (auto simp: thenK_Inr)
qed

text \<open>A table of any number of idle devices.\<close>

definition idle_table :: "kst \<Rightarrow> bool" where
  "idle_table s \<longleftrightarrow> distinct (hash_all (netdev_htable s)) \<and> idle_all s (devs s)"

lemma well_registered_idle_table: "well_registered s \<Longrightarrow> idle_table s"
  by (simp add: idle_table_def well_registered_idle_all well_registered_def)

lemma end_idle_table:
  assumes "netdev_htable_sem s = sem_free" "idle_table s"
  shows "\<exists>t. ndmgm_end s = Inr (0, t) \<and> netdev_minors_used t = None"
proof -
  let ?s = "s\<lparr>netdev_htable_sem := sem_free\<lparr>writer := True\<rparr>\<rparr>"
  have "idle_all s (devs s)" using assms(2) by (simp add: idle_table_def)
  then have "idle_all ?s (devs s)" by (rule idle_all_agrees) (rule subset_refl, simp add: agrees_def)
  moreover have "distinct (hash_all (netdev_htable s))" using assms(2) by (simp add: idle_table_def)
  moreover have "netdev_htable_sem ?s \<noteq> sem_free" by (simp add: sem_free_def)
  ultimately obtain t where "end_devices (hash_all (netdev_htable s)) ?s = Inr ((), t)" "netdev_htable_sem t = netdev_htable_sem ?s"
    using end_devices_total[of ?s "hash_all (netdev_htable s)"] unfolding devs_def by blast
  then show ?thesis
    using assms(1) by (simp add: ndmgm_end_def kflow htable_write_trylock_def htable_up_write_def lock_exec)
qed

end
