(* ===== verification/Kernel_Main.thy ===== *)
theory Kernel_Main
  imports Registry
begin

text \<open>
  \<open>main.c\<close> of the kernel module: loading and unloading.  \<open>netdev_cleanup\<close> repeats
  \<open>ndmgm_end\<close> until it succeeds, so it may never return: its loop is a partial function, where
  \<open>None\<close> is the loop that does not end.
\<close>

section \<open>Unloading\<close>

text \<open>The parameter \<open>others\<close> is what other threads do after each failed attempt.\<close>

partial_function (option) cleanup_loop :: "(nat \<Rightarrow> unit kprog) \<Rightarrow> nat \<Rightarrow> kst \<Rightarrow> (fault + kst) option" where
  "cleanup_loop others n s = (case ndmgm_end s of
       Inl e \<Rightarrow> Some (Inl e)
     | Inr (err, t) \<Rightarrow>
         if err = 0 then Some (Inr t)
         else (case others n t of Inl e \<Rightarrow> Some (Inl e) | Inr (_, u) \<Rightarrow> cleanup_loop others (Suc n) u))"

text \<open>\<open>class_destroy\<close> accepts an error pointer and does nothing with it.\<close>

definition class_destroy :: "unit kprog" where
  "class_destroy = bindK getK (\<lambda>s. if netdev_class s = Some 0 then emit ClassDestroy else returnK ())"

definition netdev_cleanup :: "(nat \<Rightarrow> unit kprog) \<Rightarrow> kst \<Rightarrow> (fault + kst) option" where
  "netdev_cleanup others s = (case cleanup_loop others 0 s of
       None \<Rightarrow> None
     | Some (Inl e) \<Rightarrow> Some (Inl e)
     | Some (Inr t) \<Rightarrow> (case thenK (if netdev_class t \<noteq> None then class_destroy else returnK ()) (emit RegionFree) t of
         Inl e \<Rightarrow> Some (Inl e) | Inr (_, u) \<Rightarrow> Some (Inr u)))"

section \<open>Loading\<close>

definition alloc_chrdev_region :: "i32 kprog" where
  "alloc_chrdev_region = bindK ext_call (\<lambda>err. if err = 0 then thenK (emit RegionAlloc) (returnK 0) else returnK err)"

text \<open>\<open>netdev_class\<close> is \<open>None\<close> for NULL, \<open>Some 0\<close> for a class and any other
  \<open>Some err\<close> for an error pointer; the result is the \<open>err\<close> of the pointer.\<close>

definition class_create :: "i32 kprog" where
  "class_create = bindK ext_call (\<lambda>err. thenK (modifyK (\<lambda>s. s\<lparr>netdev_class := Some err\<rparr>))
     (thenK (if err = 0 then emit ClassCreate else returnK ()) (returnK err)))"

text \<open>Everything before the label \<open>fail\<close>: the error, and whether the label is reached.\<close>

definition netdev_setup :: "(i32 \<times> bool) kprog" where
  "netdev_setup = bindK alloc_chrdev_region (\<lambda>err.
     if err \<noteq> 0 then returnK (err, False)
     else bindK class_create (\<lambda>err.
       if err \<noteq> 0 then returnK (err, True)
       else thenK ndmgm_prepare (bindK netlink_init (\<lambda>err. returnK (err, err \<noteq> 0)))))"

definition netdev_init :: "(nat \<Rightarrow> unit kprog) \<Rightarrow> kst \<Rightarrow> (fault + i32 \<times> kst) option" where
  "netdev_init others s = (case netdev_setup s of
       Inl e \<Rightarrow> Some (Inl e)
     | Inr ((err, fail), t) \<Rightarrow>
         if \<not> fail then Some (Inr (err, t))
         else (case netdev_cleanup others t of
             None \<Rightarrow> None | Some (Inl e) \<Rightarrow> Some (Inl e) | Some (Inr u) \<Rightarrow> Some (Inr (err, u))))"

definition netdev_exit :: "(nat \<Rightarrow> unit kprog) \<Rightarrow> kst \<Rightarrow> (fault + kst) option" where
  "netdev_exit others s = (case netlink_exit s of Inl e \<Rightarrow> Some (Inl e) | Inr (_, t) \<Rightarrow> netdev_cleanup others t)"

section \<open>Running them\<close>

lemma end_busy: "netdev_htable_sem s \<noteq> sem_free \<Longrightarrow> ndmgm_end s = Inr (1, s)"
  using write_trylock_free[of "netdev_htable_sem s"]
  by (simp add: ndmgm_end_def htable_write_trylock_def bindK_def returnK_def split: option.splits)

lemma end_empty:
  assumes "netdev_htable_sem s = sem_free" "netdev_htable s = hash_init"
  shows "ndmgm_end s = Inr (0, s\<lparr>netdev_minors_used := None\<rparr>)"
  using assms
  by (simp add: ndmgm_end_def kflow htable_write_trylock_def htable_up_write_def lock_exec)

lemma cleanup_empty:
  assumes "netdev_htable_sem s = sem_free" "netdev_htable s = hash_init"
  shows "netdev_cleanup others s = Some (Inr (s\<lparr>netdev_minors_used := None,
    trace := trace s @ (if netdev_class s = Some 0 then [ClassDestroy] else []) @ [RegionFree]\<rparr>))"
  by (simp add: netdev_cleanup_def cleanup_loop.simps end_empty[OF assms] class_destroy_def kflow)

text \<open>The other threads' part in the first \<open>n\<close> failed attempts.\<close>

primrec rounds :: "(nat \<Rightarrow> unit kprog) \<Rightarrow> nat \<Rightarrow> unit kprog" where
  "rounds others 0 = returnK ()"
| "rounds others (Suc n) = thenK (rounds others n) (others n)"

lemma loop_busy:
  assumes "netdev_htable_sem s \<noteq> sem_free" "others n s = Inr ((), t)"
  shows "cleanup_loop others n s = cleanup_loop others (Suc n) t"
  by (subst cleanup_loop.simps) (simp add: end_busy[OF assms(1)] assms(2))

lemma loop_never_free:
  assumes "\<And>n. others n (S n) = Inr ((), S (Suc n))" "\<And>n. netdev_htable_sem (S n) \<noteq> sem_free"
  shows "cleanup_loop others n (S n) = None"
proof -
  have "\<not> (o' = others \<and> t = S n)" if "cleanup_loop o' n t = Some y" for o' n t y
  proof (rule cleanup_loop.raw_induct[where P = "\<lambda>o' n t y. \<not> (o' = others \<and> t = S n)", OF _ that])
    fix loop o' n t y
    assume ih: "\<And>o' n t y. loop o' n t = Some y \<Longrightarrow> \<not> (o' = others \<and> t = S n)"
      and run: "(case ndmgm_end t of Inl e \<Rightarrow> Some (Inl e) | Inr (err, t) \<Rightarrow> if err = 0 then Some (Inr t)
        else (case o' n t of Inl e \<Rightarrow> Some (Inl e) | Inr (_, u) \<Rightarrow> loop o' (Suc n) u)) = Some y"
    show "\<not> (o' = others \<and> t = S n)"
    proof
      assume o: "o' = others \<and> t = S n"
      with run have "loop others (Suc n) (S (Suc n)) = Some y"
        using end_busy[OF assms(2)] by (simp add: assms(1))
      with ih show False by blast
    qed
  qed
  then show ?thesis by (cases "cleanup_loop others n (S n)") blast+
qed

lemma loop_reaches_free:
  assumes "\<And>n. others n (S n) = Inr ((), S (Suc n))" "ndmgm_end (S m) = Inr (0, t)"
    and "\<And>i. i < m \<Longrightarrow> netdev_htable_sem (S i) \<noteq> sem_free" "k \<le> m"
  shows "cleanup_loop others (m - k) (S (m - k)) = Some (Inr t)"
  using assms(4)
proof (induction k)
  case 0
  then show ?case by (simp add: cleanup_loop.simps assms(2))
next
  case (Suc k)
  then have "m - Suc k < m" "Suc (m - Suc k) = m - k" by simp_all
  with loop_busy[where others = others and n = "m - Suc k", OF assms(3) assms(1)] Suc show ?case by simp
qed

section \<open>Properties\<close>

text \<open>
  C26.  Unloading waits for the table, and for nothing else.  Whatever the other threads do after each
  failed attempt, short of a fault, and however many devices are registered, as long as no file is
  open on them when the table is free: \<open>netdev_cleanup\<close> returns exactly when the threads leave the
  table's semaphore free after some number of attempts, and then has released the array of minors;
  if they never do, it repeats for ever.
\<close>

theorem cleanup_waits_for_table:
  assumes "\<And>n. \<exists>t. rounds others n s = Inr ((), t) \<and> (netdev_htable_sem t = sem_free \<longrightarrow> idle_table t)"
  shows "if \<exists>n t. rounds others n s = Inr ((), t) \<and> netdev_htable_sem t = sem_free
    then \<exists>u. netdev_cleanup others s = Some (Inr u) \<and> netdev_minors_used u = None
    else netdev_cleanup others s = None"
proof -
  obtain S where S: "rounds others n s = Inr ((), S n)" "netdev_htable_sem (S n) = sem_free \<longrightarrow> idle_table (S n)" for n
    using assms by metis
  have step: "others n (S n) = Inr ((), S (Suc n))" for n
    using S(1)[of "Suc n"] S(1)[of n] by (simp add: thenK_Inr)
  have start: "S 0 = s" using S(1)[of 0] by (simp add: returnK_def)
  show ?thesis
  proof (cases "\<exists>n. netdev_htable_sem (S n) = sem_free")
    case True
    define m where "m = (LEAST n. netdev_htable_sem (S n) = sem_free)"
    have m: "netdev_htable_sem (S m) = sem_free" "\<And>i. i < m \<Longrightarrow> netdev_htable_sem (S i) \<noteq> sem_free"
      unfolding m_def using True by (rule LeastI_ex) (rule not_less_Least)
    obtain t where t: "ndmgm_end (S m) = Inr (0, t)" "netdev_minors_used t = None"
      using end_idle_table[OF m(1)] S(2) m(1) by blast
    have "cleanup_loop others 0 s = Some (Inr t)"
      using loop_reaches_free[of others S m t m, OF step t(1) m(2)] start by simp
    then have "\<exists>u. netdev_cleanup others s = Some (Inr u) \<and> netdev_minors_used u = None"
      using t(2) by (simp add: netdev_cleanup_def class_destroy_def kflow)
    with True S(1) show ?thesis by auto
  next
    case False
    then have "cleanup_loop others 0 s = None" using loop_never_free[of others S 0] step start by simp
    with False S(1) show ?thesis by (auto simp: netdev_cleanup_def)
  qed
qed

text \<open>With a server device registered: once with a free table, once with a reader that never leaves.\<close>

lemma one_server_idle: "idle_table (one_server (server_dev 7 1))"
proof -
  have "hash_all (netdev_htable (one_server (server_dev 7 1))) = [1]" by (simp add: one_server_def hash_all_one)
  moreover have "idle_dev (one_server (server_dev 7 1)) 1"
    by (simp add: idle_dev_def Let_def dev_at_def one_server_def buffers_ok_def)
  moreover have "\<not> dummy (dev_at (one_server (server_dev 7 1)) 1)" by (simp add: dev_at_def one_server_def)
  ultimately show ?thesis by (auto simp: idle_table_def devs_def idle_all_def inj_on_def)
qed

lemma cleanup_waits_for_table_witness:
  "(\<exists>u. netdev_cleanup (\<lambda>_. returnK ()) (one_server (server_dev 7 1)) = Some (Inr u) \<and> netdev_minors_used u = None) \<and>
   netdev_cleanup (\<lambda>_. returnK ()) ((one_server (server_dev 7 1))\<lparr>netdev_htable_sem := \<lparr>readers = 1, writer = False\<rparr>\<rparr>) = None"
proof -
  let ?s = "one_server (server_dev 7 1)"
  let ?r = "?s\<lparr>netdev_htable_sem := \<lparr>readers = 1, writer = False\<rparr>\<rparr>"
  have rounds: "rounds (\<lambda>_. returnK ()) n v = Inr ((), v)" for n v
    by (induction n) (simp_all add: thenK_Inr, simp_all add: returnK_def)
  have "netdev_htable_sem ?r \<noteq> sem_free" "netdev_htable_sem ?s = sem_free" by (simp_all add: sem_free_def one_server_def kst0_def)
  then show ?thesis
    using cleanup_waits_for_table[of "\<lambda>_. returnK ()" ?s] cleanup_waits_for_table[of "\<lambda>_. returnK ()" ?r] one_server_idle
    by (simp add: rounds)
qed



end
