(* ===== verification/Control_Plane.thy ===== *)
theory Control_Plane
  imports Registry Kernel_Main
begin

text \<open>
  The module between loading and unloading, driven by the control messages of its daemons in any
  order and with any outcome of the allocations: a transition system with \<open>netlink_recv\<close> as its
  step.  Shown: an invariant of all reachable states, by rule induction, and that no control
  message makes the module fault while a minor is free.
\<close>

section \<open>Answers to control messages\<close>

lemma send_total:
  assumes "heap_ok s" "heap s nd = Some (ODev d)" "\<not> nllock d" "unat n \<le> length b" "unat n < 2147483648"
  shows "\<exists>r t. netlink_send nd sq mt flags (Some b) n s = Inr (r, t) \<and> heap t = heap s \<and> heap_ok t \<and> same_globals s t"
proof -
  have rd: "read_bytes b 0 (unat n) = read_bytes (take (unat n) b) 0 (unat n)" using assms(4) by (simp add: read_bytes_def)
  have take: "netlink_send nd sq mt flags (Some b) n = netlink_send nd sq mt flags (Some (take (unat n) b)) n"
    unfolding netlink_send_def option.case rd by (rule refl)
  show ?thesis
  proof (cases "can_alloc s")
    case True
    then show ?thesis
      using send_run[OF assms(1-3) True, of "take (unat n) b" n sq mt flags] assms(1,4,5) unfolding take
      by (auto simp: heap_ok_def same_globals_def less_SucI)
  next
    case False
    have "0 < nd" using assms(1,2) by (rule heap_ok_pos)
    with False assms(1) show ?thesis
      by (auto simp: netlink_send_def kalloc_def bindK_def returnK_def heap_ok_def same_globals_def)
  qed
qed

lemma find_total:
  assumes s: "well_registered s"
  shows "\<exists>nd. ndmgm_find pid s = Inr (nd, s) \<and> (nd = 0 \<or> nd \<in> devs s)"
proof (cases "pid = - 1")
  case True
  then show ?thesis by (simp add: ndmgm_find_def returnK_def)
next
  case False
  have free: "\<not> writer (netdev_htable_sem s)" using well_registeredD(2)[OF s] by simp
  show ?thesis
    using find_run[OF well_registeredD(1)[OF s] well_registered_devs_ok[OF s] free False] device_of_in_table[of s pid]
    by (auto simp: devs_def split: option.splits)
qed

text \<open>A buffer that is too short is a fault, unless nothing is read from it.\<close>

lemma send_short:
  assumes "heap_ok s" "heap s nd = Some (ODev d)" "length b < unat n" "netlink_send nd sq mt flags (Some b) n s = Inr (r, t)"
  shows "t = s\<lparr>tick := Suc (tick s)\<rparr>"
proof (cases "can_alloc s")
  case False
  have "0 < nd" using assms(1,2) by (rule heap_ok_pos)
  with False assms(4) show ?thesis by (simp add: netlink_send_def kalloc_def bindK_def returnK_def)
next
  case True
  have "0 < nd" "nd \<noteq> next_addr s" "0 < next_addr s"
    using heap_ok_pos[OF assms(1,2)] fresh_heap[OF assms(1)] assms(2) by auto
  moreover have "nlmsg_put (nlmsg_total_size n) p sq mt n f \<noteq> None" for p f by (simp add: nlmsg_put_def)
  ultimately have "\<exists>e. netlink_send nd sq mt flags (Some b) n s = Inl e"
    using True assms(2,3) by (auto simp: netlink_send_def kflow kalloc_def read_bytes_def split: option.splits)
  with assms(4) show ?thesis by simp
qed

lemma send_msg_total:
  assumes s: "well_registered s" and "unat n \<le> length b" "unat n < 2147483648"
  shows "\<exists>r t. netlink_send_msg pid m flags (Some b) n s = Inr (r, t) \<and> well_registered t \<and> skbs_kept s t"
proof -
  note ok = well_registeredD(1)[OF s] well_registered_devs_ok[OF s]
  obtain nd where nd: "ndmgm_find pid s = Inr (nd, s)" "nd = 0 \<or> nd \<in> devs s" using find_total[OF s] by blast
  show ?thesis
  proof (cases "nd = 0")
    case True
    then show ?thesis using nd(1) s
      by (simp add: netlink_send_msg_def netlink_send_def bindK_def returnK_def skbs_kept_def)
  next
    case False
    then have d: "idle_dev s nd" using nd(2) well_registeredD(5)[OF s] by blast
    obtain r t where "netlink_send nd (nlmsg_seq m) (nlmsg_type m) flags (Some b) n s = Inr (r, t)" "heap t = heap s" "heap_ok t"
      "same_globals s t"
      using send_total[OF ok(1) idle_devD(2)[OF d refl] idle_devD(5)[OF d refl] assms(2,3)] by blast
    moreover from this(2-4) have "well_registered t" by (intro well_registered_frame[OF s]) simp_all
    ultimately show ?thesis using nd(1) by (simp add: netlink_send_msg_def bindK_def skbs_kept_def)
  qed
qed

lemma send_msg_keeps:
  assumes s: "well_registered s" and run: "netlink_send_msg pid m flags (Some b) 4 s = Inr (r, t)"
  shows "well_registered t \<and> skbs_kept s t"
proof (cases "4 \<le> length b")
  case True
  then show ?thesis using send_msg_total[OF s, of 4 b pid m flags] run by auto
next
  case False
  note ok = well_registeredD(1)[OF s] well_registered_devs_ok[OF s]
  obtain nd where nd: "ndmgm_find pid s = Inr (nd, s)" "nd = 0 \<or> nd \<in> devs s" using find_total[OF s] by blast
  have send: "netlink_send nd (nlmsg_seq m) (nlmsg_type m) flags (Some b) 4 s = Inr (r, t)"
    using run nd(1) by (simp add: netlink_send_msg_def bindK_def)
  have "t = s \<or> t = s\<lparr>tick := Suc (tick s)\<rparr>"
  proof (cases "nd = 0")
    case True
    then show ?thesis using send by (simp add: netlink_send_def returnK_def)
  next
    case False
    then have "heap s nd = Some (ODev (dev_at s nd))" using nd(2) idle_devD(2)[OF well_registeredD(5)[OF s] refl] by blast
    then show ?thesis using send_short[OF ok(1) _ _ send] \<open>\<not> 4 \<le> length b\<close> by simp
  qed
  moreover have "well_registered (s\<lparr>tick := Suc (tick s)\<rparr>)"
    using ok(1) by (intro well_registered_frame[OF s]) (simp_all add: heap_ok_def same_globals_def)
  ultimately show ?thesis using s by (auto simp: skbs_kept_def)
qed

section \<open>One message\<close>

text \<open>
  Every message that is not a file operation, with any payload, is a control message here.  Two kinds
  of them are read without regard to their length: an echo, of which four bytes are sent back, and
  a registration, whose name ends at a NUL.  A payload that is too short for that is read past its end.
\<close>

definition control_msg :: "nlmsg \<Rightarrow> bool" where
  "control_msg m \<longleftrightarrow> \<not> (MSGT_FO_START < unat (nlmsg_type m) \<and> unat (nlmsg_type m) < MSGT_FO_END)"

definition long_enough :: "nlmsg \<Rightarrow> bool" where
  "long_enough m \<longleftrightarrow> (unat (nlmsg_type m) = MSGT_CONTROL_ECHO \<longrightarrow> 4 \<le> length (payload m)) \<and>
     (unat (nlmsg_type m) \<in> {MSGT_CONTROL_REG_DUMMY, MSGT_CONTROL_REG_SERVER} \<longrightarrow> 0 \<in> set (payload m))"

lemma control_keeps:
  assumes s: "well_registered s" and run: "netlink_control pid m s = Inr (r, t)"
  shows "well_registered t \<and> skbs_kept s t"
proof -
  have reg: "\<exists>n. create pid n s = Inr (r, t)" if "bindK (c_string (payload m)) (create pid) s = Inr (r, t)"
    for create :: "i32 \<Rightarrow> byte list \<Rightarrow> i32 kprog"
    using that by (auto simp: bindK_eq_Inr c_string_def failK_def returnK_def split: if_splits)
  have server: "well_registered t \<and> skbs_kept s t" if "ndmgm_create_server pid n s = Inr (r, t)" for n
    using create_server_total[OF s, of pid n] create_server_skbs[OF well_registeredD(1)[OF s] that] that by auto
  have dum: "well_registered t \<and> skbs_kept s t" if "ndmgm_create_dummy pid n s = Inr (r, t)" for n
    using create_dummy_well_registered[OF s that] create_dummy_skbs[OF well_registeredD(1)[OF s] that] by simp
  have unreg: "well_registered t \<and> skbs_kept s t" if "ndmgm_find_destroy pid s = Inr (r, t)"
    using find_destroy_total[OF s, of pid] find_destroy_skbs[OF s that] that by auto
  have "t = s" if "returnK 0 s = Inr (r, t)" using that by (simp add: returnK_def)
  with run show ?thesis
    unfolding netlink_control_def Let_def
    using send_msg_keeps[OF s] reg server dum unreg s by (fastforce simp: skbs_kept_def split: if_splits)
qed

lemma control_returns:
  assumes s: "well_registered s" and m: "long_enough m" and "free_minor s"
  shows "\<exists>r t. netlink_control pid m s = Inr (r, t)"
proof -
  have name: "c_string (payload m) u = Inr (takeWhile (\<lambda>b. b \<noteq> 0) (payload m), u)" if "0 \<in> set (payload m)" for u
    using that by (simp add: c_string_def returnK_def)
  have send: "\<exists>x v. netlink_send_msg pid m flags (Some b) 4 s = Inr (x, v)" if "4 \<le> length b" for flags b
    using send_msg_total[OF s, of 4 b pid m flags] that by auto
  have "\<exists>x v. bindK (c_string (payload m)) (ndmgm_create_server pid) s = Inr (x, v)"
    "\<exists>x v. bindK (c_string (payload m)) (ndmgm_create_dummy pid) s = Inr (x, v)" if "0 \<in> set (payload m)"
    using name[OF that] create_server_total[OF s, of pid] create_dummy_returns[OF s assms(3), of pid] by (simp_all add: bindK_def) blast
  then show ?thesis
    using m send find_destroy_total[OF s, of pid]
    unfolding netlink_control_def Let_def long_enough_def by (auto simp: returnK_def)
qed

lemma answer_run:
  assumes "heap s skb = Some (OSkb m)" "0 < skb"
  shows "\<exists>t. netlink_answer skb m' NULL err s = Inr ((), t) \<and> same_globals s t \<and> next_addr t = next_addr s \<and>
    (heap t = heap s \<or> heap t = (heap s)(skb := None))"
  using assms by (auto simp: netlink_answer_def emit_def modifyK_def kfree_def thenK_def bindK_def returnK_def same_globals_def)

lemma answer_keeps:
  assumes s: "well_registered s" and m: "heap s skb = Some (OSkb m)"
  shows "\<exists>t. netlink_answer skb m' NULL err s = Inr ((), t) \<and> well_registered t"
proof -
  have "0 < skb" using well_registeredD(1)[OF s] m by (rule heap_ok_pos)
  then obtain t where t: "netlink_answer skb m' NULL err s = Inr ((), t)" "same_globals s t" "next_addr t = next_addr s"
    "heap t = heap s \<or> heap t = (heap s)(skb := None)"
    using answer_run[OF m] by blast
  have "heap_ok t" using well_registeredD(1)[OF s] t(3,4) by (auto simp: heap_ok_def split: if_splits)
  then have "well_registered t"
    using t(4) m by (intro well_registered_frame[OF s _ t(2), of m]) (auto split: if_splits)
  with t(1) show ?thesis by blast
qed

lemma recv_control:
  assumes "control_msg m" "heap s skb = Some (OSkb m)" "0 < skb"
  shows "netlink_recv others skb s = (if nlmsg_pid m = 0 then Inr ((), s)
    else if unat (nlmsg_type m) < MSGT_CONTROL_END then bindK (netlink_control (nlmsg_pid m) m) (netlink_answer skb m NULL) s
    else netlink_answer skb m NULL 0 s)"
  using assms
  by (auto simp: netlink_recv_def bindK_Inr[where m = "get_skb skb"] Let_def control_msg_def MSGT_CONTROL_START_def returnK_def)

lemma recv_keeps:
  assumes s: "well_registered s" and m: "control_msg m" "heap s skb = Some (OSkb m)"
    and run: "netlink_recv others skb s = Inr ((), t)"
  shows "well_registered t"
proof -
  have skb: "0 < skb" using well_registeredD(1)[OF s] m(2) by (rule heap_ok_pos)
  note recv = recv_control[OF m skb, of others]
  consider "nlmsg_pid m = 0" | "nlmsg_pid m \<noteq> 0" "unat (nlmsg_type m) < MSGT_CONTROL_END"
    | "nlmsg_pid m \<noteq> 0" "\<not> unat (nlmsg_type m) < MSGT_CONTROL_END" by blast
  then show ?thesis
  proof cases
    case 2
    then obtain r u where u: "netlink_control (nlmsg_pid m) m s = Inr (r, u)" "netlink_answer skb m NULL r u = Inr ((), t)"
      using run recv by (auto simp: bindK_eq_Inr)
    have "well_registered u" "heap u skb = Some (OSkb m)"
      using control_keeps[OF s u(1)] m(2) by (auto simp: skbs_kept_def)
    then show ?thesis using answer_keeps[of u skb m m r] u(2) by auto
  qed (use run recv s answer_keeps[OF s m(2), of m 0] in auto)
qed

lemma recv_returns:
  assumes s: "well_registered s" and m: "control_msg m" "heap s skb = Some (OSkb m)" and "long_enough m" "free_minor s"
  shows "\<exists>t. netlink_recv others skb s = Inr ((), t)"
proof -
  have skb: "0 < skb" using well_registeredD(1)[OF s] m(2) by (rule heap_ok_pos)
  obtain r u where u: "netlink_control (nlmsg_pid m) m s = Inr (r, u)" using control_returns[OF s assms(4,5)] by blast
  have "well_registered u" "heap u skb = Some (OSkb m)"
    using control_keeps[OF s u] m(2) by (auto simp: skbs_kept_def)
  then have "\<exists>t. netlink_answer skb m NULL r u = Inr ((), t)" using answer_keeps by blast
  then show ?thesis using u answer_keeps[OF s m(2), of m 0] by (auto simp: recv_control[OF m skb] bindK_def)
qed

section \<open>The loaded module\<close>

lemma setup_zero:
  assumes "netdev_setup s = Inr ((0, False), t)"
  shows "heap t = heap s" "next_addr t = next_addr s" "netdev_htable t = hash_init" "netdev_htable_sem t = netdev_htable_sem s"
    "netdev_minor_sem t = netdev_minor_sem s" "netdev_max_minor t = 0"
    "netdev_minors_used t = Some (minors_clear NETDEV_MAX_DEVICES (replicate NETDEV_MAX_DEVICES 0))"
  using assms
  by (auto simp: netdev_setup_def alloc_chrdev_region_def class_create_def ndmgm_prepare_def netlink_init_def ext_call_def emit_def
      modifyK_def getK_def failK_def returnK_def bindK_def thenK_def split: if_splits)

lemma init_zero:
  assumes "netdev_init others s = Some (Inr (0, t))"
  shows "netdev_setup s = Inr ((0, False), t)"
proof -
  have err: "err \<noteq> 0" if "netdev_setup s = Inr ((err, True), u)" for err u
    using that by (auto simp: netdev_setup_def alloc_chrdev_region_def class_create_def ndmgm_prepare_def netlink_init_def
        ext_call_def emit_def modifyK_def getK_def failK_def returnK_def bindK_def thenK_def split: if_splits)
  show ?thesis
    using assms err by (auto simp: netdev_init_def split: sum.splits option.splits if_splits)
qed

lemma minors_clear_length [simp]: "length (minors_clear n u) = length u"
  by (induction n) simp_all

text \<open>Before it is loaded, the module has no locks held.\<close>

definition unloaded :: "kst \<Rightarrow> bool" where
  "unloaded s \<longleftrightarrow> heap_ok s \<and> netdev_htable_sem s = sem_free \<and> netdev_minor_sem s = sem_free"

lemma init_well_registered:
  assumes "unloaded s" "netdev_init others s = Some (Inr (0, t))"
  shows "well_registered t"
proof -
  note t = setup_zero[OF init_zero[OF assms(2)]]
  have "devs t = {}" "owners t = {}" using t(3) by (simp_all add: devs_def owners_def)
  then show ?thesis
    using assms(1) t
    by (simp add: well_registered_def unloaded_def heap_ok_def exclusive_def minors_ok_def hash_init_def[THEN fun_cong]
        NETDEV_MAX_DEVICES_def)
qed

text \<open>
  Loading succeeds, then control messages arrive one after the other; each is in a buffer of its own,
  and each step is a call of \<open>netlink_recv\<close> that returns.
\<close>

inductive control_run :: "kst \<Rightarrow> kst \<Rightarrow> bool" for s0 where
  loaded: "netdev_init others s0 = Some (Inr (0, s)) \<Longrightarrow> control_run s0 s"
| received: "control_run s0 s \<Longrightarrow> control_msg m \<Longrightarrow> kalloc (OSkb m) s = Inr (skb, t) \<Longrightarrow> skb \<noteq> NULL \<Longrightarrow>
    netlink_recv others skb t = Inr ((), u) \<Longrightarrow> control_run s0 u"

lemma arrival:
  assumes s: "well_registered s" and "kalloc (OSkb m) s = Inr (skb, t)" "skb \<noteq> NULL"
  shows "well_registered t" "heap t skb = Some (OSkb m)" "netdev_minors_used t = netdev_minors_used s"
proof -
  have t: "skb = next_addr s" "heap t = (heap s)(skb \<mapsto> OSkb m)" "next_addr t = Suc (next_addr s)" "same_globals s t"
    using assms(2,3) by (auto simp: kalloc_def same_globals_def split: if_splits)
  have fresh: "heap s skb = None" using fresh_heap(1)[OF well_registeredD(1)[OF s]] t(1) by simp
  have "heap_ok t" using keepsD[OF keeps_heap_kalloc well_registeredD(1)[OF s] assms(2)] .
  then show "well_registered t" using fresh t(2) by (intro well_registered_frame[OF s _ t(4)]) auto
  show "heap t skb = Some (OSkb m)" "netdev_minors_used t = netdev_minors_used s" using t(2,4) by (simp_all add: same_globals_def)
qed

lemma control_run_inv:
  assumes "control_run s0 s" "unloaded s0"
  shows "well_registered s"
  using assms(1)
proof induction
  case (loaded others s)
  then show ?case using init_well_registered[OF assms(2)] by blast
next
  case (received s m skb t others u)
  then show ?case using arrival[OF received.IH received.hyps(3,4)] recv_keeps by blast
qed

section \<open>What the invariant says of registered devices\<close>

lemma registeredD:
  assumes "well_registered s" "device_of s pid = Some p"
  shows "p \<in> devs s" "idle_dev s p" "nlpid (dev_at s p) = pid" "heap s p = Some (ODev (dev_at s p))"
proof -
  show p: "p \<in> devs s" using device_of_in_table[OF assms(2)] by (simp add: devs_def)
  show i: "idle_dev s p" using well_registeredD(5)[OF assms(1) p] .
  show h: "heap s p = Some (ODev (dev_at s p))" using idle_devD(2)[OF i refl] .
  show "nlpid (dev_at s p) = pid" using device_of_in_table[OF assms(2)] h by (simp add: dev_key_def)
qed

text \<open>Used by its process alone, and holding the minor that is kept for the process.\<close>

definition own_device :: "kst \<Rightarrow> i32 \<Rightarrow> addr \<Rightarrow> netdev_data \<Rightarrow> bool" where
  "own_device s pid nd d \<longleftrightarrow> heap s nd = Some (ODev d) \<and> nlpid d = pid \<and> active d \<and> users d = 1 \<and> nd_sem d = sem_free \<and>
     \<not> nllock d \<and> buffers_ok s nd d \<and>
     (dummy d \<and> pid \<noteq> - 1 \<longrightarrow> (\<exists>m. heap s (cdev d) = Some (OCdev m) \<and> ndmgm_find_pid m s = Inr (pid, s)))"

lemma registered_own:
  assumes s: "well_registered s" and "device_of s pid = Some nd"
  shows "own_device s pid nd (dev_at s nd)"
proof -
  note r = registeredD[OF assms]
  obtain u where u: "netdev_minors_used s = Some u" "length u = NETDEV_MAX_DEVICES" "netdev_minor_sem s = sem_free"
    "\<And>p. p \<in> owners s \<Longrightarrow> u ! minor_at s p = nlpid (dev_at s p)"
    using minors_okE[OF well_registeredD(7)[OF s]] by blast
  have "\<exists>m. heap s (cdev (dev_at s nd)) = Some (OCdev m) \<and> ndmgm_find_pid m s = Inr (pid, s)"
    if d: "dummy (dev_at s nd)" "pid \<noteq> - 1"
  proof -
    have "u ! minor_at s nd = pid" using u(4)[of nd] r(1,3) d by (simp add: owners_def)
    then show ?thesis using idle_devD(7)[OF r(2) refl] d find_pid_run[OF u(3,1)] u(2) by auto
  qed
  then show ?thesis using r by (simp add: own_device_def idle_dev_def Let_def)
qed

text \<open>Nothing that one device points to belongs to another.\<close>

definition apart :: "kst \<Rightarrow> netdev_data \<Rightarrow> netdev_data \<Rightarrow> bool" where
  "apart s d e \<longleftrightarrow> devname d \<noteq> devname e \<and> queue_pool d \<noteq> queue_pool e \<and> (dummy d \<and> dummy e \<longrightarrow> cdev d \<noteq> cdev e \<and>
     (nlpid d \<noteq> - 1 \<and> nlpid e \<noteq> - 1 \<longrightarrow> heap s (cdev d) \<noteq> heap s (cdev e)))"

lemma registered_apart:
  assumes s: "well_registered s" and "device_of s pd = Some p" "device_of s qd = Some q" "p \<noteq> q"
  shows "apart s (dev_at s p) (dev_at s q)"
proof -
  let ?d = "dev_at s p" and ?e = "dev_at s q"
  note p = registeredD[OF s assms(2)] and q = registeredD[OF s assms(3)]
  have "devname ?d \<noteq> devname ?e \<and> queue_pool ?d \<noteq> queue_pool ?e \<and> (dummy ?d \<and> dummy ?e \<longrightarrow> cdev ?d \<noteq> cdev ?e)"
    using well_registeredD(6)[OF s] p(1) q(1) assms(4) by (auto simp: exclusive_def inj_on_def)
  moreover have "heap s (cdev ?d) \<noteq> heap s (cdev ?e)" if own: "dummy ?d" "dummy ?e" "nlpid ?d \<noteq> - 1" "nlpid ?e \<noteq> - 1"
  proof -
    have "p \<in> owners s" "q \<in> owners s" using p q own by (simp_all add: owners_def)
    then have "minor_at s p \<noteq> minor_at s q" using well_registeredD(7)[OF s] assms(4) by (auto simp: minors_ok_def inj_on_def)
    then show ?thesis using idle_devD(7)[OF p(2) refl] idle_devD(7)[OF q(2) refl] own by simp
  qed
  ultimately show ?thesis by (simp add: apart_def)
qed

section \<open>Properties\<close>

text \<open>
  C4.  In every state the module reaches by control messages, of any type and with any payload, in any
  order and with any outcome of the allocations (short of a read past the end of a payload, after
  which nothing is known): the table's and the minors' locks are free; the device a process is mapped to is
  live, active and of that process, only the table refers to it, none of its locks is held, and
  the minor of a dummy device is kept for the process; two devices share neither name nor request
  pool, nor character device or minor.  (The process id -1 is what marks a minor as free.)
\<close>

theorem control_run_invariant:
  assumes "control_run s0 s" "unloaded s0"
  shows "netdev_htable_sem s = sem_free \<and> netdev_minor_sem s = sem_free \<and>
    (\<forall>pid nd. device_of s pid = Some nd \<longrightarrow> (\<exists>d. own_device s pid nd d)) \<and>
    (\<forall>pd qd p q d e. own_device s pd p d \<and> own_device s qd q e \<and> device_of s pd = Some p \<and> device_of s qd = Some q \<and> p \<noteq> q \<longrightarrow>
       apart s d e)"
proof -
  have s: "well_registered s" using control_run_inv[OF assms] .
  have "netdev_minor_sem s = sem_free" using well_registeredD(7)[OF s] by (simp add: minors_ok_def)
  moreover have "apart s d e"
    if "own_device s pd p d" "own_device s qd q e" "device_of s pd = Some p" "device_of s qd = Some q" "p \<noteq> q" for pd qd p q d e
    using registered_apart[OF s that(3-5)] that(1,2) by (simp add: own_device_def dev_at_def)
  ultimately show ?thesis using well_registeredD(2)[OF s] registered_own[OF s] by blast
qed

text \<open>A module that is loaded and registers one served device.\<close>

definition null_reg :: nlmsg where
  "null_reg = \<lparr>nlmsg_len = 21, nlmsg_type = 6, nlmsg_flags = 4, nlmsg_seq = 1, nlmsg_pid = 7, payload = [110, 117, 108, 108, 0]\<rparr>"

lemma null_reg_ok: "control_msg null_reg" "wants_ack null_reg"
  by (simp_all add: control_msg_def null_reg_def MSGT_FO_START_def wants_ack_def NLM_F_ACK_def)

lemma kst0_unloaded: "unloaded kst0"
  by (simp add: unloaded_def kst0_def heap_ok_def)

definition kst0_loaded :: kst where
  "kst0_loaded = kst0\<lparr>tick := 4, netdev_class := Some 0, netdev_minors_used := Some (minors_clear NETDEV_MAX_DEVICES (replicate NETDEV_MAX_DEVICES 0)),
     netdev_max_minor := 0, netdev_htable := hash_init, nl_sk := True, trace := [RegionAlloc, ClassCreate, SockCreate]\<rparr>"

lemma kst0_init: "netdev_init others kst0 = Some (Inr (0, kst0_loaded))"
proof -
  have "netdev_setup kst0 = Inr ((0, False), kst0_loaded)"
    by (simp add: kst0_loaded_def netdev_setup_def alloc_chrdev_region_def class_create_def ndmgm_prepare_def netlink_init_def
        ext_call_def kflow eval_nat_numeral) (simp add: kst0_def)
  then show ?thesis by (simp add: netdev_init_def)
qed

lemma kst0_free_minor: "free_minor kst0_loaded"
  unfolding free_minor_def kst0_loaded_def
  by (intro exI[of _ "minors_clear NETDEV_MAX_DEVICES (replicate NETDEV_MAX_DEVICES 0)"] exI[of _ "0 :: nat"])
    (simp add: NETDEV_MAX_DEVICES_def numeral_eq_Suc)

lemma kst0_arrival: "\<exists>t. kalloc (OSkb m) kst0_loaded = Inr (1, t)"
  by (simp add: kalloc_def can_alloc_def kst0_loaded_def kst0_def ADDR_LIMIT_def)

lemma kst0_registers: "\<exists>u nd. control_run kst0 u \<and> device_of u 7 = Some nd \<and> free_minor u \<and> can_alloc u"
proof -
  have run: "control_run kst0 kst0_loaded" using control_run.loaded[OF kst0_init] .
  obtain t where t: "kalloc (OSkb null_reg) kst0_loaded = Inr (1, t)" using kst0_arrival by blast
  note a = arrival[OF control_run_inv[OF run kst0_unloaded] t]
  have ok: "heap_ok t" "devs_ok t" "heap t 1 = Some (OSkb null_reg)" and alloc: "alloc3 t"
    using a well_registeredD(1) well_registered_devs_ok t
    by (simp_all add: kalloc_def can_alloc_def kst0_loaded_def kst0_def ADDR_LIMIT_def alloc3_def)
      (auto simp: ADDR_LIMIT_def)
  let ?nd = "next_addr t" and ?name = "[110, 117, 108, 108] :: byte list"
  let ?u = "t\<lparr>heap := (heap t)(?nd \<mapsto> ODev (server_dev 7 ?nd), Suc ?nd \<mapsto> OBuf (?name @ [0]), Suc (Suc ?nd) \<mapsto> OPool),
      next_addr := Suc (Suc (Suc ?nd)), tick := Suc (Suc (Suc (tick t))), netdev_htable := hash_add (hash_min t) 7 ?nd (netdev_htable t),
      trace := trace t @ stack_overrun (server_name_len ?name)\<rparr>"
  have "netlink_control 7 null_reg t = Inr (0, ?u)"
    using create_server_ok[OF ok(1) alloc refl, of 7 ?name]
    by (simp add: netlink_control_def null_reg_def c_string_def bindK_def returnK_def MSGT_CONTROL_ECHO_def
        MSGT_CONTROL_VERSION_def MSGT_CONTROL_REG_DUMMY_def MSGT_CONTROL_REG_SERVER_def)
  then have "netlink_recv (\<lambda>_. returnK ()) 1 t = Inr ((), ?u\<lparr>trace := trace ?u @ [Ack 7 1 0]\<rparr>)"
    using recv_control[OF null_reg_ok(1) ok(3), of "\<lambda>_. returnK ()"] answer_ack_control[OF null_reg_ok(2), of 1 0 ?u]
    by (simp add: null_reg_def bindK_def MSGT_CONTROL_END_def)
  then have "control_run kst0 (?u\<lparr>trace := trace ?u @ [Ack 7 1 0]\<rparr>)"
    using control_run.received[OF run null_reg_ok(1) t] by simp
  moreover have "device_of (?u\<lparr>trace := trace ?u @ [Ack 7 1 0]\<rparr>) = (device_of t)(7 \<mapsto> ?nd)"
    using fresh_heap[OF ok(1)] by (intro device_of_register[OF ok(2), where d = "server_dev 7 ?nd"]) auto
  moreover have "free_minor (?u\<lparr>trace := trace ?u @ [Ack 7 1 0]\<rparr>)" using kst0_free_minor a(3) by (simp add: free_minor_def)
  moreover have "can_alloc (?u\<lparr>trace := trace ?u @ [Ack 7 1 0]\<rparr>)"
    using t by (auto simp: kalloc_def can_alloc_def kst0_loaded_def kst0_def ADDR_LIMIT_def split: if_splits)
  ultimately show ?thesis by (metis fun_upd_same)
qed

lemma control_run_invariant_witness:
  "\<exists>s nd d. control_run kst0 s \<and> device_of s 7 = Some nd \<and> own_device s 7 nd d"
proof -
  obtain s nd where "control_run kst0 s" "device_of s 7 = Some nd" using kst0_registers by blast
  with control_run_invariant[OF this(1) kst0_unloaded] show ?thesis by blast
qed

text \<open>
  C5.  No control message makes the module fault or block while a minor is free, unless the message is
  an echo of less than four bytes or a registration without a terminated name: in every reachable
  state \<open>netlink_recv\<close> returns, and the state it returns is reachable again.  (What registrations
  write past the end of \<open>devname\<close> and \<open>pool_name\<close> does not stop them; it is recorded in the trace.)
\<close>

theorem control_never_faults:
  assumes "control_run s0 s" "unloaded s0" "free_minor s" "control_msg m" "long_enough m"
    and "kalloc (OSkb m) s = Inr (skb, t)" "skb \<noteq> NULL"
  shows "\<exists>u. netlink_recv others skb t = Inr ((), u) \<and> control_run s0 u"
proof -
  note t = arrival[OF control_run_inv[OF assms(1,2)] assms(6,7)]
  have "free_minor t" using assms(3) t(3) by (simp add: free_minor_def)
  then obtain u where "netlink_recv others skb t = Inr ((), u)" using recv_returns[OF t(1) assms(4) t(2) assms(5)] by blast
  then show ?thesis using control_run.received[OF assms(1,4,6,7)] by blast
qed

text \<open>What a daemon sends to unregister its device: a message without payload.\<close>

definition unreg_msg :: nlmsg where
  "unreg_msg = \<lparr>nlmsg_len = 16, nlmsg_type = 7, nlmsg_flags = 5, nlmsg_seq = 0, nlmsg_pid = 7, payload = []\<rparr>"

lemma control_never_faults_witness:
  "\<exists>s nd skb t u. control_run kst0 s \<and> device_of s 7 = Some nd \<and> kalloc (OSkb unreg_msg) s = Inr (skb, t) \<and>
    netlink_recv (\<lambda>_. returnK ()) skb t = Inr ((), u) \<and> control_run kst0 u"
proof -
  obtain s nd where s: "control_run kst0 s" "device_of s 7 = Some nd" "free_minor s" "can_alloc s" using kst0_registers by blast
  have "0 < next_addr s" using control_run_inv[OF s(1) kst0_unloaded] by (simp add: well_registered_def heap_ok_def)
  with s(4) obtain t where t: "kalloc (OSkb unreg_msg) s = Inr (next_addr s, t)" "next_addr s \<noteq> 0" by (simp add: kalloc_def)
  have m: "control_msg unreg_msg" "long_enough unreg_msg"
    by (simp_all add: control_msg_def long_enough_def unreg_msg_def MSGT_FO_START_def MSGT_CONTROL_ECHO_def MSGT_CONTROL_REG_DUMMY_def
        MSGT_CONTROL_REG_SERVER_def)
  from control_never_faults[OF s(1) kst0_unloaded s(3) m t] s(1,2) t show ?thesis by blast
qed

end
