(* ===== verification/Daemon_Config.thy ===== *)
theory Daemon_Config
  imports Daemon_Conn
begin

text \<open>
  \<open>read_config\<close> of \<open>daemon/main.c\<close>: the configuration file, one device to a line.  The
  functions of the C library it calls are written out as far as it uses them; a file is the list
  of its bytes.  Shown: it returns for every file; a well-formed file is read as it was written;
  a field that fills its block overruns it.
\<close>

section \<open>The C library\<close>

abbreviation (input) newline :: byte where "newline \<equiv> 10"
abbreviation (input) semicolon :: byte where "semicolon \<equiv> 59"
abbreviation (input) hash_sign :: byte where "hash_sign \<equiv> 35"

text \<open>\<open>fgets\<close> with a buffer of \<open>Suc n\<close> bytes: the bytes it reads and the rest of the file.\<close>

primrec fgets_take :: "nat \<Rightarrow> byte list \<Rightarrow> byte list \<times> byte list" where
  "fgets_take 0 f = ([], f)"
| "fgets_take (Suc n) f = (case f of [] \<Rightarrow> ([], [])
     | c # r \<Rightarrow> if c = newline then ([c], r) else (let (p, q) = fgets_take n r in (c # p, q)))"

text \<open>At the end of the file it leaves the buffer alone.\<close>

definition fgets :: "nat \<Rightarrow> byte list \<Rightarrow> byte list \<Rightarrow> byte list \<times> byte list" where
  "fgets n line f = (if f = [] then (line, []) else fgets_take (n - 1) f)"

definition is_space :: "byte \<Rightarrow> bool" where
  "is_space c \<longleftrightarrow> c = 32 \<or> 9 \<le> unat c \<and> unat c \<le> 13"

definition is_digit :: "byte \<Rightarrow> bool" where
  "is_digit c \<longleftrightarrow> 48 \<le> unat c \<and> unat c \<le> 57"

definition digits_value :: "byte list \<Rightarrow> nat" where
  "digits_value ds = foldl (\<lambda>n c. 10 * n + (unat c - 48)) 0 ds"

text \<open>The conversion \<open>%d\<close>; \<open>None\<close> when there is no number.\<close>

definition scan_int :: "byte list \<Rightarrow> int option" where
  "scan_int s = (let t = dropWhile is_space s;
       neg = (take 1 t = [45]);
       ds = takeWhile is_digit (if neg \<or> take 1 t = [43] then drop 1 t else t) in
     if ds = [] then None else Some (if neg then - int (digits_value ds) else int (digits_value ds)))"

text \<open>A value that is no \<open>int\<close> makes the conversion undefined.\<close>

definition int_result :: "int \<Rightarrow> i32 dprog" where
  "int_result v = (if - (2 ^ 31) \<le> v \<and> v < 2 ^ 31 then returnK (of_int v) else failK Undefined)"

text \<open>The conversion \<open>%20[^;]\<close>: the field and what follows it.\<close>

definition scan_field :: "byte list \<Rightarrow> (byte list \<times> byte list) option" where
  "scan_field s = (let w = take 20 (takeWhile (\<lambda>c. c \<noteq> semicolon) s) in
     if w = [] then None else Some (w, drop (length w) s))"

text \<open>\<open>n\<close> times \<open>%20[^;];\<close>: the fields that were stored, and the rest unless it stopped before.\<close>

primrec scan_fields :: "nat \<Rightarrow> byte list \<Rightarrow> byte list list \<times> byte list option" where
  "scan_fields 0 s = ([], Some s)"
| "scan_fields (Suc n) s = (case scan_field s of
       None \<Rightarrow> ([], None)
     | Some (w, r) \<Rightarrow> (case r of
           c # q \<Rightarrow> if c = semicolon then (let (ws, e) = scan_fields n q in (w # ws, e)) else ([w], None)
         | [] \<Rightarrow> ([w], None)))"

section \<open>Reading the file\<close>

text \<open>
  The first pass.  In each round \<open>%c\<close> takes a byte, \<open>%*[^\n]\<close> the rest of a line (after an empty
  line, the whole next one) and \<open>%*c\<close> the newline; the loop ends when there is none.
\<close>

function count_lines :: "byte list \<Rightarrow> nat" where
  "count_lines f = (case f of [] \<Rightarrow> 0
     | c # r \<Rightarrow> (case dropWhile (\<lambda>x. x \<noteq> newline) r of
           [] \<Rightarrow> 0
         | _ # q \<Rightarrow> (if c \<noteq> hash_sign then 1 else 0) + count_lines q))"
  by pat_completeness auto
termination
proof (relation "measure length")
  fix f :: "byte list" and c r x q
  assume "f = c # r" "dropWhile (\<lambda>x. x \<noteq> newline) r = x # q"
  then show "(q, f) \<in> measure length"
    using length_dropWhile_le[of "\<lambda>x. x \<noteq> newline" r] by simp
qed simp

declare count_lines.simps [simp del]

text \<open>The members of \<open>struct proxy_dev\<close> that come from the file.\<close>

record proxy_conf =
  cf_remote :: "byte list"
  cf_dummy :: "byte list"
  cf_ipaddr :: "byte list"
  cf_port :: i32

definition NETDEV_MAX_STRING :: nat where "NETDEV_MAX_STRING = 20"

text \<open>A string and its terminator go to a block that is not checked for NULL.\<close>

definition store_string :: "i64 option \<Rightarrow> byte list \<Rightarrow> unit dprog" where
  "store_string p w = (if p = None then failK NullDeref
     else if length w + 1 \<le> NETDEV_MAX_STRING then returnK ()
     else modifyK (\<lambda>s. s\<lparr>overruns := overruns s @ [length w + 1 - NETDEV_MAX_STRING]\<rparr>))"

fun store_strings :: "i64 option list \<Rightarrow> byte list list \<Rightarrow> unit dprog" where
  "store_strings (p # ps) (w # ws) = thenK (store_string p w) (store_strings ps ws)"
| "store_strings ps ws = returnK ()"

text \<open>One line: a device, or \<open>None\<close> where the source leaves its loop.\<close>

definition config_line :: "byte list \<Rightarrow> proxy_conf option dprog" where
  "config_line line = bindK d_malloc (\<lambda>pdev.
     if pdev = None then failK NullDeref
     else bindK d_malloc (\<lambda>remote. bindK d_malloc (\<lambda>dum. bindK d_malloc (\<lambda>ip.
       let (ws, rest) = scan_fields 3 (takeWhile (\<lambda>c. c \<noteq> 0) line) in
       thenK (store_strings [remote, dum, ip] ws)
         (case map_option scan_int rest of
            Some (Some v) \<Rightarrow> bindK (int_result v) (\<lambda>port.
              returnK (Some \<lparr>cf_remote = ws ! 0, cf_dummy = ws ! 1, cf_ipaddr = ws ! 2, cf_port = port\<rparr>))
          | _ \<Rightarrow> returnK None)))))"

text \<open>The second pass: a line that starts with \<open>#\<close> does not count.\<close>

partial_function (option) config_loop ::
    "nat \<Rightarrow> byte list \<Rightarrow> byte list \<Rightarrow> proxy_conf list \<Rightarrow> dst \<Rightarrow> (fault + proxy_conf list \<times> dst) option" where
  "config_loop count f line pdevs s =
     (if count \<le> length pdevs then Some (Inr (pdevs, s))
      else (let (line, f) = fgets 100 line f in
        if take 1 line = [hash_sign] then config_loop count f line pdevs s
        else (case config_line line s of
            Inl e \<Rightarrow> Some (Inl e)
          | Inr (None, t) \<Rightarrow> Some (Inr (pdevs, t))
          | Inr (Some d, t) \<Rightarrow> config_loop count f line (pdevs @ [d]) t)))"

text \<open>
  \<open>file\<close> is what \<open>fopen\<close> finds under the name, \<open>None\<close> for a missing name as well.  The
  table is cleared before it is checked for NULL.
\<close>

definition read_config :: "byte list option \<Rightarrow> dst \<Rightarrow> (fault + proxy_conf list option \<times> dst) option" where
  "read_config file s = (case file of
       None \<Rightarrow> Some (Inr (None, s))
     | Some f \<Rightarrow> (let count = count_lines f in
         case d_malloc s of
           Inl e \<Rightarrow> Some (Inl e)
         | Inr (None, t) \<Rightarrow> Some (if count = 0 then Inr (None, t) else Inl NullDeref)
         | Inr (Some _, t) \<Rightarrow> (case config_loop count f [] [] t of
               None \<Rightarrow> None
             | Some (Inl e) \<Rightarrow> Some (Inl e)
             | Some (Inr (pdevs, u)) \<Rightarrow> Some (Inr (Some pdevs, u)))))"

section \<open>The two passes agree\<close>

lemma fgets_take_line:
  "newline \<notin> set w \<Longrightarrow> fgets_take n (w @ newline # r) =
    (if length w < n then (w @ [newline], r) else (take n w, drop n w @ newline # r))"
proof (induction n arbitrary: w)
  case (Suc n)
  then show ?case by (cases w) auto
qed simp

lemma fgets_take_rest: "length (snd (fgets_take n f)) \<le> length f"
proof (induction n arbitrary: f)
  case (Suc n)
  then show ?case by (auto split: list.split prod.split simp: le_Suc_eq) (metis snd_conv)
qed simp

text \<open>The pieces of at most 99 bytes that are no comment.\<close>

function data_lines :: "byte list \<Rightarrow> nat" where
  "data_lines f = (if f = [] then 0 else
     (if take 1 (fst (fgets_take 99 f)) = [hash_sign] then 0 else 1) + data_lines (snd (fgets_take 99 f)))"
  by pat_completeness auto
termination
proof (relation "measure length")
  fix f :: "byte list" assume "f \<noteq> []"
  then obtain c r where f: "f = c # r" by (cases f) auto
  have "fgets_take 99 f = (if c = newline then ([c], r) else (let (p, q) = fgets_take 98 r in (c # p, q)))"
    using f fgets_take.simps(2)[of 98 f] by simp
  then show "(snd (fgets_take 99 f), f) \<in> measure length"
    using fgets_take_rest[of 98 r] f by (auto split: prod.split)
qed simp

declare data_lines.simps [simp del]

lemma drop_lacks: "x \<notin> set w \<Longrightarrow> x \<notin> set (drop n w)"
  by (meson in_set_dropD)

lemma data_lines_skip: "newline \<notin> set w \<Longrightarrow> data_lines r \<le> data_lines (w @ newline # r)"
proof (induction w rule: length_induct)
  case (1 w)
  show ?case
  proof (cases "length w < 99")
    case False
    then have "data_lines r \<le> data_lines (drop 99 w @ newline # r)"
      using 1 drop_lacks[of newline w 99] by simp
    then show ?thesis using 1(2) False by (subst data_lines.simps) (simp add: fgets_take_line)
  qed (subst data_lines.simps, simp add: fgets_take_line 1(2))
qed

lemma line_cases:
  obtains "dropWhile (\<lambda>x. x \<noteq> newline) r = []"
  | w q where "r = w @ newline # q" "newline \<notin> set w" "dropWhile (\<lambda>x. x \<noteq> newline) r = newline # q"
proof (cases "dropWhile (\<lambda>x. x \<noteq> newline) r")
  case (Cons x q)
  then have "x = newline" using hd_dropWhile[of "\<lambda>x. x \<noteq> newline" r] by simp
  moreover have "newline \<notin> set (takeWhile (\<lambda>x. x \<noteq> newline) r)" by (auto dest: set_takeWhileD)
  ultimately show thesis using that(2)[of "takeWhile (\<lambda>x. x \<noteq> newline) r" q] Cons takeWhile_dropWhile_id[of "\<lambda>x. x \<noteq> newline" r] by simp
qed (rule that(1))

lemma count_lines_skip:
  "newline \<notin> set w \<Longrightarrow> count_lines (c # w @ newline # q) = (if c \<noteq> hash_sign then 1 else 0) + count_lines q"
proof -
  assume "newline \<notin> set w"
  then have "dropWhile (\<lambda>x. x \<noteq> newline) (w @ newline # q) = newline # q"
    by (subst dropWhile_append3) (auto simp: dropWhile_eq_Nil_conv)
  then show ?thesis by (subst count_lines.simps) simp
qed

lemma count_le_data: "count_lines f \<le> data_lines f"
proof (induction f rule: length_induct)
  case (1 f)
  show ?case
  proof (cases f)
    case (Cons c r)
    show ?thesis
    proof (cases r rule: line_cases)
      case 1
      then have "count_lines f = 0" by (simp only: Cons count_lines.simps[of "c # r"] list.case 1)
      then show ?thesis by simp
    next
      case (2 w q)
      then have q: "count_lines q \<le> data_lines q" "data_lines q \<le> data_lines (w @ newline # q)"
        using 1 Cons data_lines_skip by auto
      have f: "f = (c # w) @ newline # q" using Cons 2(1) by simp
      have "(if c \<noteq> hash_sign then 1 else 0) + data_lines q \<le> data_lines f"
      proof (cases "c = newline")
        case True
        then have "fgets_take 99 f = ([newline], w @ newline # q)" using f fgets_take_line[of "[]" 99] by simp
        then show ?thesis using f q(2) True by (subst data_lines.simps) simp
      next
        case False
        then have n: "newline \<notin> set (c # w)" using 2(2) by simp
        have "data_lines q \<le> data_lines (drop 99 (c # w) @ newline # q)"
          using n by (intro data_lines_skip drop_lacks)
        then show ?thesis using f fgets_take_line[OF n, of 99 q] by (subst data_lines.simps) simp
      qed
      then show ?thesis using q(1) count_lines_skip[OF 2(2), of c q] f by simp
    qed
  qed (subst count_lines.simps, simp)
qed

lemma config_loop_done [simp]: "config_loop 0 f line pdevs s = Some (Inr (pdevs, s))"
  by (subst config_loop.simps) simp

lemma config_loop_returns: "count \<le> length pdevs + data_lines f \<Longrightarrow> \<exists>r. config_loop count f line pdevs s = Some r"
proof (induction f arbitrary: line pdevs s rule: data_lines.induct)
  case (1 f)
  show ?case
  proof (cases "count \<le> length pdevs")
    case False
    then have f: "f \<noteq> []" using 1(2) by (auto simp: data_lines.simps)
    obtain p r where p: "fgets_take 99 f = (p, r)" by fastforce
    have d: "data_lines f = (if take 1 p = [hash_sign] then 0 else 1) + data_lines r"
      using f p by (subst data_lines.simps) simp
    show ?thesis
    proof (cases "take 1 p = [hash_sign]")
      case True
      then have "\<exists>x. config_loop count r p pdevs s = Some x" using 1 f p d by simp
      then show ?thesis using False f p True by (subst config_loop.simps) (simp add: fgets_def)
    next
      case neq: False
      have "\<exists>x. config_loop count r p (pdevs @ [c]) t = Some x" for c t using 1 f p d neq by simp
      then show ?thesis using False f p neq
        by (subst config_loop.simps) (auto simp: fgets_def split: sum.split option.split)
    qed
  qed (subst config_loop.simps, simp)
qed

lemma config_loop_all: "\<exists>r. config_loop (count_lines f) f [] [] s = Some r"
  by (rule config_loop_returns) (simp add: count_le_data)

section \<open>Well-formed files\<close>

fun decimal :: "nat \<Rightarrow> byte list" where
  "decimal n = (if n < 10 then [of_nat (48 + n)] else decimal (n div 10) @ [of_nat (48 + n mod 10)])"

declare decimal.simps [simp del]

lemma digit_byte: "d < 10 \<Longrightarrow> unat (of_nat (48 + d) :: byte) = 48 + d"
  by (simp add: unsigned_of_nat take_bit_nat_eq_self del: of_nat_add)

lemma is_digit_byte: "d < 10 \<Longrightarrow> is_digit (of_nat (48 + d))"
  by (simp add: is_digit_def digit_byte del: of_nat_add)

lemma decimal_digits: "c \<in> set (decimal n) \<Longrightarrow> is_digit c"
proof (induction n rule: decimal.induct)
  case (1 n)
  then show ?case using is_digit_byte[of n] is_digit_byte[of "n mod 10"]
    by (auto simp del: of_nat_add simp: decimal.simps[of n] split: if_splits)
qed

lemma decimal_nonempty [simp]: "decimal n \<noteq> []"
  by (simp add: decimal.simps[of n])

lemma decimal_value: "digits_value (decimal n) = n"
proof (induction n rule: decimal.induct)
  case (1 n)
  then show ?case using digit_byte[of n] digit_byte[of "n mod 10"]
    by (auto simp del: of_nat_add simp: decimal.simps[of n] digits_value_def)
qed

lemma decimal_length: "n < 10 ^ Suc k \<Longrightarrow> length (decimal n) \<le> Suc k"
proof (induction k arbitrary: n)
  case (Suc k)
  then have "n div 10 < 10 ^ Suc k" by (simp add: less_mult_imp_div_less)
  then show ?case using Suc.IH[of "n div 10"] by (simp add: decimal.simps[of n])
qed (simp add: decimal.simps)

definition field_ok :: "byte list \<Rightarrow> bool" where
  "field_ok w \<longleftrightarrow> w \<noteq> [] \<and> length w \<le> 20 \<and> 0 \<notin> set w \<and> newline \<notin> set w \<and> semicolon \<notin> set w"

text \<open>The line that describes a device, without its newline.\<close>

definition conf_text :: "proxy_conf \<Rightarrow> byte list" where
  "conf_text d = cf_remote d @ semicolon # cf_dummy d @ semicolon # cf_ipaddr d @ semicolon # decimal (unat (cf_port d))"

definition conf_ok :: "proxy_conf \<Rightarrow> bool" where
  "conf_ok d \<longleftrightarrow> field_ok (cf_remote d) \<and> field_ok (cf_dummy d) \<and> field_ok (cf_ipaddr d) \<and>
     hd (cf_remote d) \<noteq> hash_sign \<and> unat (cf_port d) < 2 ^ 31"

text \<open>How many of its fields fill a block of \<open>NETDEV_MAX_STRING\<close> bytes, so that the terminator
  goes past the end.\<close>

definition full_fields :: "proxy_conf \<Rightarrow> nat" where
  "full_fields d = length (filter (\<lambda>w. length w = 20) [cf_remote d, cf_dummy d, cf_ipaddr d])"

lemma takeWhile_upto: "x \<notin> set w \<Longrightarrow> takeWhile (\<lambda>c. c \<noteq> x) (w @ x # r) = w"
  by (subst takeWhile_append2) auto

lemma scan_field_run: "field_ok w \<Longrightarrow> scan_field (w @ semicolon # r) = Some (w, semicolon # r)"
  using takeWhile_upto[of semicolon w r] by (simp add: scan_field_def field_ok_def Let_def)

lemma scan_fields_run:
  "field_ok w \<Longrightarrow> scan_fields (Suc n) (w @ semicolon # r) = (w # fst (scan_fields n r), snd (scan_fields n r))"
  by (simp add: scan_field_run split: prod.split)

lemma decimal_bytes:
  assumes "c \<in> set (decimal n)"
  shows "\<not> is_space c" "c \<noteq> 0" "c \<noteq> newline" "c \<noteq> semicolon" "c \<noteq> 45" "c \<noteq> 43"
  using decimal_digits[OF assms] by (auto simp: is_digit_def is_space_def)

lemma scan_int_decimal: "r = [] \<or> \<not> is_digit (hd r) \<Longrightarrow> scan_int (decimal n @ r) = Some (int n)"
proof -
  assume r: "r = [] \<or> \<not> is_digit (hd r)"
  obtain c cs where d: "decimal n = c # cs" using decimal_nonempty[of n] by (cases "decimal n") auto
  have c: "\<not> is_space c" "c \<noteq> 45" "c \<noteq> 43" using decimal_bytes[of c n] d by simp_all
  have "takeWhile is_digit r = []" using r by (cases r) auto
  then have "takeWhile is_digit (decimal n @ r) = decimal n"
    using decimal_digits[of _ n] by (subst takeWhile_append2) auto
  then show ?thesis using c d decimal_value[of n] by (simp add: scan_int_def)
qed

lemma int_result_run: "unat (p :: i32) < 2 ^ 31 \<Longrightarrow> int_result (uint p) s = Inr (p, s)"
proof -
  assume "unat p < 2 ^ 31"
  then have "int (unat p) < int (2 ^ 31)" by (simp only: of_nat_less_iff)
  then have "uint p < 2 ^ 31" by simp
  then show ?thesis
    using order_trans[OF _ uint_ge_0, of "- 2147483648" p] by (simp add: int_result_def returnK_def)
qed

text \<open>Storing the fields.\<close>

lemma dst_overruns_add [simp]: "s\<lparr>overruns := overruns s @ []\<rparr> = s"
  by simp

lemma store_string_run:
  "field_ok w \<Longrightarrow> store_string (Some p) w s = Inr ((), s\<lparr>overruns := overruns s @ (if length w = 20 then [1] else [])\<rparr>)"
  by (auto simp: store_string_def field_ok_def NETDEV_MAX_STRING_def kflow)

lemma config_line_run:
  assumes "conf_ok d" "\<And>i. d_mem s i"
  shows "config_line (conf_text d @ [newline]) s = Inr (Some d,
    s\<lparr>d_tick := Suc (Suc (Suc (Suc (d_tick s)))), overruns := overruns s @ replicate (full_fields d) 1\<rparr>)"
proof -
  have f: "field_ok (cf_remote d)" "field_ok (cf_dummy d)" "field_ok (cf_ipaddr d)" and p: "unat (cf_port d) < 2 ^ 31"
    using assms(1) by (simp_all add: conf_ok_def)
  have "0 \<notin> set (conf_text d @ [newline])"
    using f decimal_bytes(2)[of 0 "unat (cf_port d)"] by (auto simp: conf_text_def field_ok_def)
  then have line: "takeWhile (\<lambda>c. c \<noteq> 0) (conf_text d @ [newline]) = conf_text d @ [newline]"
    by (auto simp: takeWhile_eq_all_conv simp del: takeWhile_append)
  have scan: "scan_fields 3 (conf_text d @ [newline]) =
      ([cf_remote d, cf_dummy d, cf_ipaddr d], Some (decimal (unat (cf_port d)) @ [newline]))"
    using f by (simp add: conf_text_def numeral_3_eq_3 scan_fields_run del: scan_fields.simps(2))
  have port: "scan_int (decimal (unat (cf_port d)) @ [newline]) = Some (int (unat (cf_port d)))"
    by (rule scan_int_decimal) (simp add: is_digit_def)
  show ?thesis
    using f by (simp add: config_line_def line scan port kflow d_malloc_def assms(2) store_string_run int_result_run[OF p] full_fields_def)
qed

text \<open>A file: comments and devices, each on a line.\<close>

datatype config_item = Comment "byte list" | Device proxy_conf

fun item_text :: "config_item \<Rightarrow> byte list" where
  "item_text (Comment w) = hash_sign # w"
| "item_text (Device d) = conf_text d"

fun item_ok :: "config_item \<Rightarrow> bool" where
  "item_ok (Comment w) \<longleftrightarrow> newline \<notin> set w \<and> length w \<le> 97"
| "item_ok (Device d) \<longleftrightarrow> conf_ok d"

definition config_text :: "config_item list \<Rightarrow> byte list" where
  "config_text is = concat (map (\<lambda>i. item_text i @ [newline]) is)"

fun devices :: "config_item list \<Rightarrow> proxy_conf list" where
  "devices [] = []"
| "devices (Comment w # is) = devices is"
| "devices (Device d # is) = d # devices is"

lemma config_text_simps [simp]:
  "config_text [] = []" "config_text (i # is) = item_text i @ newline # config_text is"
  by (simp_all add: config_text_def)

text \<open>A line is short, holds no newline, and starts with \<open>#\<close> exactly when it is a comment.\<close>

lemma item_line:
  assumes "item_ok i"
  obtains c w where "item_text i = c # w" "newline \<notin> set (c # w)" "length (c # w) < 99"
    "c = hash_sign \<longleftrightarrow> (\<exists>w. i = Comment w)"
proof (cases i)
  case (Comment w)
  then show ?thesis using assms that[of hash_sign w] by simp
next
  case (Device d)
  then have f: "field_ok (cf_remote d)" "field_ok (cf_dummy d)" "field_ok (cf_ipaddr d)" "hd (cf_remote d) \<noteq> hash_sign"
      "unat (cf_port d) < 2 ^ 31"
    using assms by (simp_all add: conf_ok_def)
  obtain c w where r: "cf_remote d = c # w" using f(1) by (cases "cf_remote d") (auto simp: field_ok_def)
  have "length (decimal (unat (cf_port d))) \<le> Suc 9" using f(5) by (intro decimal_length) simp
  then have "length (conf_text d) < 99" using f by (simp add: conf_text_def field_ok_def)
  moreover have "newline \<notin> set (conf_text d)"
    using f decimal_bytes(3)[of newline "unat (cf_port d)"] by (auto simp: conf_text_def field_ok_def)
  ultimately show ?thesis using that[of c "tl (conf_text d)"] f(4) r Device by (simp add: conf_text_def)
qed

lemma count_lines_rest: "newline \<notin> set w \<Longrightarrow> count_lines w = 0"
proof (cases w)
  case (Cons c q)
  assume "newline \<notin> set w"
  then have "dropWhile (\<lambda>x. x \<noteq> newline) q = []" using Cons by auto
  then show ?thesis by (simp only: Cons count_lines.simps[of "c # q"] list.case)
qed (simp add: count_lines.simps)

lemma count_lines_text:
  "list_all item_ok is \<Longrightarrow> newline \<notin> set rest \<Longrightarrow> count_lines (config_text is @ rest) = length (devices is)"
proof (induction "is")
  case Nil
  then show ?case by (simp add: count_lines_rest)
next
  case (Cons i "is")
  have "item_ok i" using Cons(2) by simp
  then obtain c w where i: "item_text i = c # w" "newline \<notin> set (c # w)" "c = hash_sign \<longleftrightarrow> (\<exists>w. i = Comment w)"
    using item_line[of i] by metis
  then show ?case using Cons count_lines_skip[of w c "config_text is @ rest"] by (cases i) simp_all
qed

lemma config_loop_run:
  "list_all item_ok is \<Longrightarrow> (\<And>i. d_mem s i) \<Longrightarrow> count = length pdevs + length (devices is) \<Longrightarrow>
    \<exists>k. config_loop count (config_text is @ rest) line pdevs s = Some (Inr (pdevs @ devices is,
      s\<lparr>d_tick := k, overruns := overruns s @ replicate (sum_list (map full_fields (devices is))) 1\<rparr>))"
proof (induction "is" arbitrary: line pdevs s)
  case Nil
  have "s = s\<lparr>d_tick := d_tick s\<rparr>" by simp
  then show ?case using Nil by (subst config_loop.simps) (auto intro: exI[of _ "d_tick s"])
next
  case (Cons i "is")
  have "item_ok i" using Cons(2) by simp
  then obtain c w where i: "item_text i = c # w" "newline \<notin> set (c # w)" "length (c # w) < 99"
      "c = hash_sign \<longleftrightarrow> (\<exists>w. i = Comment w)"
    using item_line[of i] by metis
  have get: "fgets 100 line (config_text (i # is) @ rest) = (item_text i @ [newline], config_text is @ rest)"
    using i fgets_take_line[OF i(2), of 99 "config_text is @ rest"] by (simp add: fgets_def)
  show ?case
  proof (cases i)
    case (Comment v)
    show ?thesis
    proof (cases "devices is")
      case Nil
      have "s = s\<lparr>d_tick := d_tick s\<rparr>" by simp
      then show ?thesis using Nil Cons(4) Comment by (subst config_loop.simps) (auto intro: exI[of _ "d_tick s"])
    next
      case nonempty: (Cons d ds)
      have "config_loop count (config_text (i # is) @ rest) line pdevs s =
          config_loop count (config_text is @ rest) (item_text i @ [newline]) pdevs s"
        using Cons(4) Comment get nonempty by (subst config_loop.simps) simp
      then show ?thesis using Cons.IH[of s pdevs "item_text i @ [newline]"] Cons.prems Comment by simp
    qed
  next
    case (Device d)
    let ?t = "s\<lparr>d_tick := Suc (Suc (Suc (Suc (d_tick s)))), overruns := overruns s @ replicate (full_fields d) 1\<rparr>"
    have "config_loop count (config_text (i # is) @ rest) line pdevs s =
        config_loop count (config_text is @ rest) (item_text i @ [newline]) (pdevs @ [d]) ?t"
      using Cons.prems Device get i(1,4) config_line_run[of d s] by (subst config_loop.simps) simp
    then show ?thesis using Cons.IH[of ?t "pdevs @ [d]" "item_text i @ [newline]"] Cons.prems Device
      by (simp add: replicate_add)
  qed
qed

lemma read_config_run:
  assumes "list_all item_ok is" "newline \<notin> set rest" "\<And>i. d_mem s i"
  shows "\<exists>k. read_config (Some (config_text is @ rest)) s = Some (Inr (Some (devices is),
    s\<lparr>d_tick := k, overruns := overruns s @ replicate (sum_list (map full_fields (devices is))) 1\<rparr>))"
proof -
  obtain k where "config_loop (length (devices is)) (config_text is @ rest) [] [] (s\<lparr>d_tick := Suc (d_tick s)\<rparr>) =
      Some (Inr (devices is, s\<lparr>d_tick := k, overruns := overruns s @ replicate (sum_list (map full_fields (devices is))) 1\<rparr>))"
    using config_loop_run[OF assms(1), of "s\<lparr>d_tick := Suc (d_tick s)\<rparr>" "length (devices is)" "[]" rest "[]"] assms(3) by auto
  then show ?thesis
    using count_lines_text[OF assms(1,2)] assms(3) by (intro exI[of _ k]) (simp add: read_config_def Let_def d_malloc_def)
qed

text \<open>
  C13.  A file whose last line lacks its newline is read without that line.  Comments are left out,
  every other line gives the device it describes, in the order of the file; for every field that
  fills its block of \<open>NETDEV_MAX_STRING\<close> bytes, the terminator is written one byte past the end.
\<close>

theorem config_roundtrip:
  assumes "list_all item_ok is" "newline \<notin> set rest" "\<And>i. d_mem s i"
  shows "\<exists>t. read_config (Some (config_text is @ rest)) s = Some (Inr (Some (devices is), t)) \<and>
    overruns t = overruns s @ replicate (sum_list (map full_fields (devices is))) 1 \<and>
    net_out t = net_out s \<and> nl_out t = nl_out s"
  using read_config_run[OF assms] by auto

definition zero_conf :: proxy_conf where
  "zero_conf = \<lparr>cf_remote = [47, 100, 101, 118, 47, 122, 101, 114, 111], cf_dummy = [122, 101, 114, 111],
     cf_ipaddr = [49, 48, 46, 48, 46, 48, 46, 51], cf_port = 9999\<rparr>"

definition full_conf :: proxy_conf where
  "full_conf = \<lparr>cf_remote = replicate 20 97, cf_dummy = [98], cf_ipaddr = [49], cf_port = 80\<rparr>"

definition the_config :: "config_item list" where
  "the_config = [Comment [32, 70], Device zero_conf, Device full_conf]"

lemma the_config_ok: "list_all item_ok the_config"
  by (simp add: the_config_def zero_conf_def full_conf_def conf_ok_def field_ok_def)

lemma config_roundtrip_witness:
  "\<exists>t. read_config (Some (config_text the_config @ [47, 100])) dst0 = Some (Inr (Some [zero_conf, full_conf], t)) \<and> overruns t = [1]"
proof -
  obtain t where "read_config (Some (config_text the_config @ [47, 100])) dst0 = Some (Inr (Some (devices the_config), t))"
    "overruns t = overruns dst0 @ replicate (sum_list (map full_fields (devices the_config))) 1"
    using config_roundtrip[OF the_config_ok, of "[47, 100]" dst0] by (auto simp: dst0_def)
  then show ?thesis
    by (simp add: the_config_def full_fields_def zero_conf_def full_conf_def dst0_def)
qed

text \<open>
  C28.  The second pass cannot run on past the end of the file: every line that the first pass
  counts gives the second one at least one piece that is no comment.  So \<open>read_config\<close>
  returns, whatever the file holds.
\<close>

theorem read_config_returns: "\<exists>r. read_config src s = Some r"
proof (cases src)
  case (Some f)
  have "\<exists>r. (case config_loop (count_lines f) f [] [] t of None \<Rightarrow> None | Some (Inl e) \<Rightarrow> Some (Inl e)
      | Some (Inr (pdevs, u)) \<Rightarrow> Some (Inr (Some pdevs, u))) = Some r" for t
    using config_loop_all[of f t] by (auto split: sum.split)
  then show ?thesis by (simp add: Some read_config_def Let_def split: sum.split option.split)
qed (simp add: read_config_def)

end
