(* ===== verification/Daemon_Main.thy ===== *)
theory Daemon_Main
  imports Daemon_Config Daemon_Signal
begin

text \<open>
  \<open>main\<close> and \<open>netdev_listener\<close> of \<open>daemon/main.c\<close>: the process that
  starts a client for every configured device and a server for every connection.  What the
  process does for the outside is the list of its events.
\<close>

section \<open>Events\<close>

datatype event =
    ClientStarted proxy_conf  \<comment> \<open>a process that runs \<open>proxy_client\<close>\<close>
  | Listening i32 i32         \<comment> \<open>the port, and the descriptor of the listening socket\<close>
  | Accepted i32 i32          \<comment> \<open>the listening socket, and the descriptor of a new connection\<close>
  | ServerStarted i32         \<comment> \<open>a process that runs \<open>proxy_server\<close> on the descriptor\<close>
  | Closed i32                \<comment> \<open>a descriptor the process has closed\<close>

text \<open>The handler of \<open>SIGCHLD\<close>: the processes it collects.\<close>

partial_function (option) parent_sig_chld :: "dst \<Rightarrow> (i32 list \<times> dst) option" where
  "parent_sig_chld s = (case sys_call s of
       Inr (pid, t) \<Rightarrow> if 0 <s pid
         then Option.bind (parent_sig_chld t) (\<lambda>(pids, u). Some (pid # pids, u))
         else Some ([], t)
     | Inl e \<Rightarrow> None)"

section \<open>The listener\<close>

definition EINTR :: i32 where "EINTR = 4"

text \<open>
  One round of its loop.  After another error than \<open>EINTR\<close> it goes on with the descriptor -1.
  \<open>fork\<close> is seen from the parent: when it succeeds the child exists and \<open>pid\<close> is not negative.
\<close>

definition listener_round :: "i32 \<Rightarrow> event list dprog" where
  "listener_round listenfd = bindK sys_call (\<lambda>connfd.
     bindK (if connfd <s 0 then bindK sys_call (\<lambda>errno. returnK (errno = EINTR)) else returnK False) (\<lambda>interrupted.
       if interrupted then returnK []
       else bindK sys_call (\<lambda>childpid.
         returnK ((if connfd <s 0 then [] else [Accepted listenfd connfd]) @
           (if childpid <s 0 then [] else [ServerStarted connfd]) @ [Closed connfd]))))"

primrec listener_loop :: "nat \<Rightarrow> i32 \<Rightarrow> event list dprog" where
  "listener_loop 0 listenfd = returnK []"
| "listener_loop (Suc n) listenfd = bindK (listener_round listenfd) (\<lambda>es.
     bindK (listener_loop n listenfd) (\<lambda>fs. returnK (es @ fs)))"

text \<open>The loop does not end; \<open>None\<close> as the result says that it is in it, after \<open>n\<close> rounds.\<close>

definition netdev_listener :: "nat \<Rightarrow> i32 \<Rightarrow> (i32 option \<times> event list) dprog" where
  "netdev_listener n port = bindK sys_call (\<lambda>listenfd.
     if listenfd <s 0 then returnK (Some (- 1), [])
     else bindK sys_call (\<lambda>r.
       if r <s 0 then returnK (Some (- 1), [])
       else bindK sys_call (\<lambda>r.
         if r <s 0 then returnK (Some (- 1), [])
         else bindK (listener_loop n listenfd) (\<lambda>es. returnK (None, Listening port listenfd # es)))))"

section \<open>The command line\<close>

definition NETDEV_DAEMON_PORT :: i32 where "NETDEV_DAEMON_PORT = 9999"

definition atoi :: "byte list \<Rightarrow> i32 dprog" where
  "atoi a = (case scan_int a of None \<Rightarrow> returnK 0 | Some v \<Rightarrow> int_result v)"

text \<open>
  The results of \<open>getopt\<close>, with the argument of each.  The loop returns the exit status of the
  process, or the port and the name of the file.
\<close>

fun parse_options :: "(char \<times> byte list) list \<Rightarrow> i32 \<Rightarrow> byte list option \<Rightarrow> (i32 + i32 \<times> byte list option) dprog" where
  "parse_options [] port conffile = returnK (Inr (port, conffile))"
| "parse_options ((c, optarg) # opts) port conffile =
    (if c = CHR ''p'' then bindK (atoi optarg) (\<lambda>port. parse_options opts port conffile)
     else if c = CHR ''f'' then parse_options opts port (Some optarg)
     else if c = CHR ''h'' then returnK (Inl 0)
     else if c = CHR '':'' then returnK (Inl 1)
     else if c = CHR ''?'' then returnK (Inl 1)
     else parse_options opts port conffile)"

section \<open>The process\<close>

primrec start_clients :: "proxy_conf list \<Rightarrow> event list dprog" where
  "start_clients [] = returnK []"
| "start_clients (d # ds) = bindK sys_call (\<lambda>pid.
     bindK (start_clients ds) (\<lambda>es. returnK ((if pid <s 0 then [] else [ClientStarted d]) @ es)))"

text \<open>From the configuration on.\<close>

definition serve_all :: "nat \<Rightarrow> i32 \<Rightarrow> proxy_conf list option \<Rightarrow> (i32 option \<times> event list) dprog" where
  "serve_all n port pdevs = bindK (case pdevs of None \<Rightarrow> returnK [] | Some ds \<Rightarrow> start_clients ds) (\<lambda>es.
     bindK (netdev_listener n port) (\<lambda>(r, fs). returnK (map_option (\<lambda>_. 0) r, es @ fs)))"

text \<open>\<open>files\<close> is the file system; \<open>None\<close> as the status: the process runs on.\<close>

definition daemon_main :: "(byte list \<Rightarrow> byte list option) \<Rightarrow> (char \<times> byte list) list \<Rightarrow> nat \<Rightarrow> dst \<Rightarrow>
    (fault + (i32 option \<times> event list) \<times> dst) option" where
  "daemon_main files opts n s = (case parse_options opts NETDEV_DAEMON_PORT None s of
       Inl e \<Rightarrow> Some (Inl e)
     | Inr (Inl status, t) \<Rightarrow> Some (Inr ((Some status, []), t))
     | Inr (Inr (port, conffile), t) \<Rightarrow> (case set_signal SIGCHLD ParentSigChld t of
           Inl e \<Rightarrow> Some (Inl e)
         | Inr (_, t) \<Rightarrow> (case read_config (Option.bind conffile files) t of
               None \<Rightarrow> None
             | Some (Inl e) \<Rightarrow> Some (Inl e)
             | Some (Inr (pdevs, u)) \<Rightarrow>
                 Some (serve_all n port pdevs u))))"

section \<open>Running it\<close>

lemma atoi_run: "unat p < 2 ^ 31 \<Longrightarrow> atoi (decimal (unat p)) s = Inr (p, s)"
  using scan_int_decimal[of "[]" "unat p"] int_result_run[of p s] by (simp add: atoi_def)

text \<open>Every call that starts a process or sets up a socket succeeds.\<close>

definition calls_succeed :: "dst \<Rightarrow> bool" where
  "calls_succeed s \<longleftrightarrow> (\<forall>i. \<not> d_call s i <s 0)"

lemma start_clients_run:
  "calls_succeed s \<Longrightarrow> \<exists>k. start_clients ds s = Inr (map ClientStarted ds, s\<lparr>d_tick := k\<rparr>)"
proof (induction ds arbitrary: s)
  case Nil
  have "s = s\<lparr>d_tick := d_tick s\<rparr>" by simp
  then show ?case by (metis list.simps(8) returnK_def start_clients.simps(1))
next
  case (Cons d ds)
  obtain k where "start_clients ds (s\<lparr>d_tick := Suc (d_tick s)\<rparr>) = Inr (map ClientStarted ds, s\<lparr>d_tick := k\<rparr>)"
    using Cons.IH[of "s\<lparr>d_tick := Suc (d_tick s)\<rparr>"] Cons.prems by (auto simp: calls_succeed_def)
  then show ?case using Cons.prems by (auto simp: bindK_def sys_call_def returnK_def calls_succeed_def)
qed

text \<open>What a round does with the connection \<open>connfd\<close>.\<close>

definition served :: "i32 \<Rightarrow> i32 \<Rightarrow> event list" where
  "served listenfd connfd = [Accepted listenfd connfd, ServerStarted connfd, Closed connfd]"

text \<open>Every round calls \<open>accept\<close> and \<open>fork\<close>; \<open>k\<close> is the first of these calls.\<close>

lemma listener_loop_run:
  "calls_succeed s \<Longrightarrow> d_tick s = k \<Longrightarrow>
    listener_loop n fd s = Inr (concat (map (\<lambda>i. served fd (d_call s (k + 2 * i))) [0..<n]), s\<lparr>d_tick := k + 2 * n\<rparr>)"
proof (induction n arbitrary: s k)
  case 0
  then show ?case by (auto simp: returnK_def)
next
  case (Suc n)
  let ?t = "s\<lparr>d_tick := Suc (Suc k)\<rparr>"
  have "listener_round fd s = Inr (served fd (d_call s k), ?t)"
    using Suc.prems by (simp add: listener_round_def bindK_def sys_call_def returnK_def calls_succeed_def served_def)
  moreover have "listener_loop n fd ?t =
      Inr (concat (map (\<lambda>i. served fd (d_call s (k + 2 * Suc i))) [0..<n]), s\<lparr>d_tick := k + 2 * Suc n\<rparr>)"
    using Suc.IH[of ?t "Suc (Suc k)"] Suc.prems(1) by (simp add: calls_succeed_def)
  moreover have "map (\<lambda>i. served fd (d_call s (k + 2 * i))) [0..<Suc n] =
      served fd (d_call s k) # map (\<lambda>i. served fd (d_call s (k + 2 * Suc i))) [0..<n]"
    by (simp add: upt_conv_Cons map_Suc_upt[symmetric] comp_def del: upt_Suc)
  ultimately show ?case by (simp add: bindK_def returnK_def del: upt_Suc)
qed

text \<open>The calls \<open>socket\<close>, \<open>bind\<close> and \<open>listen\<close> come first.\<close>

lemma netdev_listener_run:
  assumes "calls_succeed s" "d_tick s = k"
  shows "netdev_listener n port s = Inr ((None, Listening port (d_call s k) #
    concat (map (\<lambda>i. served (d_call s k) (d_call s (k + 3 + 2 * i))) [0..<n])), s\<lparr>d_tick := k + 3 + 2 * n\<rparr>)"
  using listener_loop_run[of "s\<lparr>d_tick := k + 3\<rparr>" "k + 3" n "d_call s k"] assms
  by (simp add: netdev_listener_def bindK_def sys_call_def returnK_def calls_succeed_def numeral_3_eq_3)

text \<open>
  C14.  Started with a port and a well-formed file, and with every system call a success, the
  daemon sets its handler of \<open>SIGCHLD\<close>, starts one client for every device of the file, in its order,
  then listens at the port on the socket that \<open>socket\<close> returned (call \<open>k\<close>), and for every
  connection that \<open>accept\<close> returns for that socket (calls \<open>k + 3\<close>, \<open>k + 5\<close>, \<dots>) starts one server on
  that connection and closes its own copy.  It does not end.
\<close>

theorem main_serves_configuration:
  assumes "list_all item_ok is" "newline \<notin> set rest" "files name = Some (config_text is @ rest)"
    and "\<And>i. d_mem s i" "calls_succeed s" "unat port < 2 ^ 31"
  shows "\<exists>k t. sig_actions t = (sig_actions s)(SIGCHLD \<mapsto> (ParentSigChld, 0)) \<and>
    daemon_main files [(CHR ''p'', decimal (unat port)), (CHR ''f'', name)] n s = Some (Inr ((None,
      map ClientStarted (devices is) @ Listening port (d_call s k) #
        concat (map (\<lambda>i. served (d_call s k) (d_call s (k + 3 + 2 * i))) [0..<n])), t))"
proof -
  let ?s0 = "s\<lparr>sig_actions := (sig_actions s)(SIGCHLD \<mapsto> (ParentSigChld, 0))\<rparr>"
  let ?s = "?s0\<lparr>d_tick := Suc (d_tick s)\<rparr>"
  obtain k w where conf: "read_config (Some (config_text is @ rest)) ?s = Some (Inr (Some (devices is), ?s0\<lparr>d_tick := k, overruns := w\<rparr>))"
    using read_config_run[OF assms(1,2), of ?s] assms(4) by auto
  let ?u = "?s0\<lparr>d_tick := k, overruns := w\<rparr>"
  obtain j where start: "start_clients (devices is) ?u = Inr (map ClientStarted (devices is), ?u\<lparr>d_tick := j\<rparr>)"
    using start_clients_run[of ?u "devices is"] assms(5) by (auto simp: calls_succeed_def)
  have listen: "netdev_listener n port (?u\<lparr>d_tick := j\<rparr>) = Inr ((None, Listening port (d_call s j) #
      concat (map (\<lambda>i. served (d_call s j) (d_call s (j + 3 + 2 * i))) [0..<n])), ?u\<lparr>d_tick := j + 3 + 2 * n\<rparr>)"
    using netdev_listener_run[of "?u\<lparr>d_tick := j\<rparr>" j n port] assms(5) by (simp add: calls_succeed_def)
  have opts: "parse_options [(CHR ''p'', decimal (unat port)), (CHR ''f'', name)] NETDEV_DAEMON_PORT None s = Inr (Inr (port, Some name), s)"
    using atoi_run[OF assms(6), of s] by (simp add: bindK_def returnK_def)
  have sig: "set_signal SIGCHLD ParentSigChld s = Inr (True, ?s)"
    using assms(5) by (simp add: set_signal_def thenK_def modifyK_def bindK_def sys_call_def returnK_def calls_succeed_def SIGCHLD_def SIGALRM_def)
  have serve: "serve_all n port (Some (devices is)) ?u = Inr ((None, map ClientStarted (devices is) @ Listening port (d_call s j) #
      concat (map (\<lambda>i. served (d_call s j) (d_call s (j + 3 + 2 * i))) [0..<n])), ?u\<lparr>d_tick := j + 3 + 2 * n\<rparr>)"
    using start listen by (simp add: serve_all_def bindK_def returnK_def)
  show ?thesis
    using conf serve by (intro exI[of _ j] exI[of _ "?u\<lparr>d_tick := j + 3 + 2 * n\<rparr>"])
      (simp add: daemon_main_def opts sig assms(3) bindK_def returnK_def del: parse_options.simps)
qed

text \<open>The descriptors of this machine are the numbers of its calls.\<close>

lemma main_serves_configuration_witness:
  "\<exists>k t. sig_actions t SIGCHLD = Some (ParentSigChld, 0) \<and>
    daemon_main [[102] \<mapsto> config_text the_config] [(CHR ''p'', decimal 8080), (CHR ''f'', [102])] 2
      (dst0\<lparr>d_call := \<lambda>i. of_nat (i mod 64)\<rparr>) = Some (Inr ((None,
    [ClientStarted zero_conf, ClientStarted full_conf, Listening 8080 (of_nat (k mod 64)),
     Accepted (of_nat (k mod 64)) (of_nat ((k + 3) mod 64)), ServerStarted (of_nat ((k + 3) mod 64)), Closed (of_nat ((k + 3) mod 64)),
     Accepted (of_nat (k mod 64)) (of_nat ((k + 5) mod 64)), ServerStarted (of_nat ((k + 5) mod 64)), Closed (of_nat ((k + 5) mod 64))]), t))"
proof -
  let ?s = "dst0\<lparr>d_call := \<lambda>i. of_nat (i mod 64)\<rparr>"
  have "\<not> (of_nat (i mod 64) :: i32) <s 0" for i
    using mod_less_divisor[of 64 i] by (simp add: word_sless_alt signed_of_nat signed_take_bit_int_eq_self del: mod_less_divisor)
  then have calls: "calls_succeed ?s" by (simp add: calls_succeed_def)
  obtain k t where
      "sig_actions t = (sig_actions ?s)(SIGCHLD \<mapsto> (ParentSigChld, 0))"
      "daemon_main [[102] \<mapsto> config_text the_config] [(CHR ''p'', decimal (unat (8080 :: i32))), (CHR ''f'', [102])] 2 ?s = Some (Inr ((None,
        map ClientStarted (devices the_config) @ Listening 8080 (d_call ?s k) #
          concat (map (\<lambda>i. served (d_call ?s k) (d_call ?s (k + 3 + 2 * i))) [0..<2])), t))"
    using main_serves_configuration[OF the_config_ok, of "[]" "[[102] \<mapsto> config_text the_config]" "[102]" ?s 8080 2] calls
    by (auto simp: dst0_def)
  then show ?thesis by (intro exI[of _ k] exI[of _ t]) (simp add: the_config_def served_def upt_conv_Cons add.commute[of 5 k])
qed

text \<open>The handler of \<open>SIGCHLD\<close> collects every process that has ended, and stops.\<close>

lemma parent_sig_chld_collects:
  "(\<And>i. i < k \<Longrightarrow> 0 <s d_call s (d_tick s + i)) \<Longrightarrow> \<not> 0 <s d_call s (d_tick s + k) \<Longrightarrow>
    parent_sig_chld s = Some (map (\<lambda>i. d_call s (d_tick s + i)) [0..<k], s\<lparr>d_tick := d_tick s + Suc k\<rparr>)"
proof (induction k arbitrary: s)
  case 0
  then show ?case by (subst parent_sig_chld.simps) (simp add: sys_call_def)
next
  case (Suc k)
  let ?t = "s\<lparr>d_tick := Suc (d_tick s)\<rparr>"
  have "parent_sig_chld ?t = Some (map (\<lambda>i. d_call ?t (d_tick ?t + i)) [0..<k], ?t\<lparr>d_tick := d_tick ?t + Suc k\<rparr>)"
    using Suc.prems(1)[of "Suc i" for i] Suc.prems(2) by (intro Suc.IH) simp_all
  moreover have "map (\<lambda>i. d_call s (d_tick s + i)) [0..<Suc k] = d_call s (d_tick s) # map (\<lambda>i. d_call s (Suc (d_tick s) + i)) [0..<k]"
    by (simp add: upt_conv_Cons map_Suc_upt[symmetric] del: upt_Suc)
  ultimately show ?case
    using Suc.prems(1)[of 0] by (subst parent_sig_chld.simps) (simp add: sys_call_def)
qed

text \<open>
  After an error of \<open>accept\<close> other than an interruption, the listener goes on as if there
  were a connection: it starts a server on the descriptor -1.
\<close>

theorem accept_error_starts_server:
  assumes "d_call s (d_tick s) <s 0" "d_call s (Suc (d_tick s)) \<noteq> EINTR" "\<not> d_call s (Suc (Suc (d_tick s))) <s 0"
  shows "listener_round fd s = Inr ([ServerStarted (d_call s (d_tick s)), Closed (d_call s (d_tick s))],
    s\<lparr>d_tick := Suc (Suc (Suc (d_tick s)))\<rparr>)"
  using assms by (simp add: listener_round_def bindK_def sys_call_def returnK_def)

lemma accept_error_starts_server_witness:
  "listener_round 3 (dst0\<lparr>d_call := (\<lambda>i. if i = 0 then - 1 else 24)\<rparr>) = Inr ([ServerStarted (- 1), Closed (- 1)],
    dst0\<lparr>d_tick := 3, d_call := (\<lambda>i. if i = 0 then - 1 else 24)\<rparr>)"
  using accept_error_starts_server[of "dst0\<lparr>d_call := (\<lambda>i. if i = 0 then - 1 else 24)\<rparr>" 3]
  by (simp add: dst0_def EINTR_def numeral_3_eq_3 word_sless_alt)

end
