(* ===== verification/Spec2Isabelle.thy ===== *)
theory Spec2Isabelle
  imports End_To_End Control_Plane Daemon_Main
begin

text \<open>
  A verification development for netdev, which shares a device of one Linux machine with another
  over TCP/IP.

  \<^bold>\<open>The program.\<close>  On the machine with the device (the server) and on the machine that uses it
  (the client) runs the same pair: a kernel module (\<open>src/kernel\<close>) and a daemon
  (\<open>src/daemon\<close>), which talk over a netlink socket.  The client's daemon reads a configuration
  file, forks a process for each device, connects to the server's daemon, checks the version of
  the protocol and asks for the device; then both daemons register a device with their kernel, the
  client a \<^emph>\<open>dummy\<close> device that users open, the server one that stands for the real device.  From
  then on the daemons only relay.  An operation of a user on the dummy device is turned into a
  request, serialised and sent to the daemon; it travels to the other kernel, where a thread
  performs it on the real device and sends the message back with the result; the client's
  kernel hands the result to the waiting user.

  \<^bold>\<open>How C is modelled.\<close>  A function is a state transformer \<open>'s \<Rightarrow> fault + 'a \<times> 's\<close>
  (\<open>Netdev_Prelude\<close>): its value with the next state, or the fault after which C says nothing
  (a NULL or stale pointer, a read past the end, a wait for a lock that is never released).  An
  error return is an ordinary value.  A write past the end of a buffer is recorded as an overrun and
  what fits is stored, since the code does not notice.  Integers are words of their C width (the
  count of references of a device too, so that it wraps); only \<open>netdev_max_minor\<close>, which no
  statement can make negative, is a natural number.  What
  the kernel, the C library or the network decides is read from streams indexed by a clock that
  each such call advances, so that a theorem holds for every such decision.  Loops that may not
  end are partial functions into \<open>option\<close>, \<open>None\<close> being the loop that does not return;
  \<open>netdev_listener\<close>, which never does, runs a given number of rounds.

  \<^bold>\<open>The kernel module.\<close>  Its state is the record \<open>kst\<close> (\<open>Kernel_State\<close>): a heap of objects
  by address, the global tables and semaphores of \<open>netdevmgm.c\<close>, and the trace of effects on the
  outside.  The array of minors is a field of its own and not an object of the heap:
  \<open>netdev_minors_used\<close> is \<open>None\<close> before it is allocated and after it is released, and the
  theorems on loading and unloading say which.
    \<^item> \<open>Hashtable\<close>: \<open>linux/hashtable.h\<close> as the driver uses it.  The locale \<open>keyed_chains\<close>
      is what the driver relies on; interpreted, it makes the lookup functions lookups in a map.
    \<^item> \<open>Minors\<close>, \<open>Devices\<close>: \<open>netdevmgm.c\<close>.  Registration of either kind does all or nothing,
      unregistration undoes it, \<open>ndmgm_find\<close> is map lookup; with open files both kinds of
      unregistration go wrong.
    \<^item> \<open>Access\<close>: \<open>fo_access.c\<close>, the open files and their queues of waiting requests; the
      locale \<open>bounded_queue\<close> states the kernel's fifo.
    \<^item> \<open>Wire\<close>: \<open>fo_struct.h\<close> and the serialisation in \<open>fo_comm.c\<close>; the locale \<open>field\<close> is
      access to a field of a packed structure.  Round trip, and what wrong sizes lead to.
    \<^item> \<open>Fo_Recv\<close>: \<open>fo_recv.c\<close>, the operations on the real device, whose own operations are
      the record \<open>file_ops\<close>, an argument of the model.
    \<^item> \<open>Knetlink\<close>: \<open>kernel/netlink.c\<close>, control messages and the hand-over of file operations.
    \<^item> \<open>Fo_Comm\<close>: the rest of \<open>fo_comm.c\<close>: a request is sent, a message is executed on the server
      or completed on the client.
    \<^item> \<open>Kernel_Message\<close>: a daemon's message on its whole way through the module.  \<open>message_in\<close> is the
      kernel that calls \<open>netlink_recv\<close> and runs the threads it has started; \<open>serves_run\<close> follows a
      request on the server, through the lookup of the device by process id and of the open file by
      access id, to the reply.
    \<^item> \<open>Fo_Client\<close>: a request and its reply on the client, whose thread goes the same way.
    \<^item> \<open>Fo_Send\<close>: \<open>fo_send.c\<close> and the table of \<open>fo.c\<close>, the operations users call.
    \<^item> \<open>Remote\<close>: both kernels together.  Read, write and seek on the dummy device answer what the
      device on the server answers, in return value, data and memory, provided the daemons hand on
      messages as \<open>relayed\<close> says.
    \<^item> \<open>Registry\<close>: the invariant \<open>well_registered\<close> that ties table, minors, locks and memory
      together, and that every registration and unregistration keeps it and returns.
    \<^item> \<open>Kernel_Main\<close>: \<open>kernel/main.c\<close>, loading and unloading.
    \<^item> \<open>Control_Plane\<close>: the module as a transition system over the messages that are not file
      operations; the invariant holds in every reachable state, and no message that is as long as
      its type asks makes it fault while a minor is free.

  \<^bold>\<open>The daemon.\<close>  Its state is the record \<open>dst\<close> (\<open>Daemon_IO\<close>), with everything the other
  parties will send.
    \<^item> \<open>Daemon_IO\<close>: \<open>recvall\<close>, \<open>sendall\<close> and the messages between daemons.  The locale
      \<open>source\<close> is a call that delivers \<open>n\<close> bytes at once, under which \<open>recvall\<close> is
      right; it is interpreted for the connection and for the netlink socket.
    \<^item> \<open>Daemon_Netlink\<close>, \<open>Daemon_Conn\<close>: \<open>daemon/netlink.c\<close>, and the handshake and the
      registration of \<open>conn.c\<close>.
    \<^item> \<open>Daemon_Signal\<close>: \<open>signal.c\<close>, and the handlers a process that relays sets up.
    \<^item> \<open>Daemon_Proxy\<close>: \<open>proxy.c\<close>.  The relay changes the process id in the header and nothing
      else.
    \<^item> \<open>Daemon_Link\<close>: two connected daemons as a step relation in which both kernels send, both
      daemons relay in either direction, and an acknowledgement comes behind what its queue
      holds.  The invariant \<open>direction\<close> accounts for every operation: an operation is missing
      exactly for every acknowledgement that was left in the queue.
    \<^item> \<open>Daemon_Config\<close>, \<open>Daemon_Main\<close>: \<open>main.c\<close>.  The configuration file
      is read as it was written and reading always ends; one client for each device, one server for
      each connection that \<open>accept\<close> returns.

  \<^bold>\<open>All together.\<close>  \<open>End_To_End\<close> discharges what \<open>Remote\<close> asks of the daemons with their own
  handlers: \<open>carry\<close> is one crossing through both, \<open>journey\<close> there and back, and the three main
  theorems follow an operation from the program on the client to the device and back: the request
  through both daemons into the server's \<open>netlink_recv\<close> (\<open>replies\<close>), the reply through both daemons
  into the client's, while the program waits.

  \<^bold>\<open>Bounds.\<close>  Addresses stay below \<open>ADDR_LIMIT\<close>, half of the address space, which separates
  them from error pointers.  \<open>MSG_MAX\<close>, \<open>2 ^ 62\<close>, keeps the sum of the sizes in a message from
  wrapping round; sizes that are passed as an \<open>int\<close> are below \<open>2 ^ 31\<close> where a theorem says
  so, and the code's own limit, \<open>NETDEV_MESSAGE_LIMIT\<close>, is far below it.  \<open>mem_avail s n\<close> says that the next \<open>n\<close> allocations succeed, and \<open>prompt\<close>
  that sockets move what they are asked to; theorems on success assume them, theorems on
  failure do not.  The listener's number of rounds is arbitrary.

  \<^bold>\<open>Concurrency.\<close>  A function of the module runs without interruption, except where it waits:
  there the parameter \<open>others\<close> is what other threads do.  A lock that is held is state, so a wait
  for it is the fault \<open>Blocked\<close>.

  \<^bold>\<open>Not modelled.\<close>  Logging (\<open>pk\<close>, \<open>prnttime\<close>, \<open>dbg.h\<close>, \<open>debug.h\<close>, \<open>helper.h\<close>)
  and the addresses of peers, which are only printed.
\<close>

end
